(* ===== verification/Prelude.thy ===== *)
theory Prelude
  imports Main "HOL-Library.Word"
begin

text \<open>
  Shared vocabulary of the development: the machine integer types of the Rust
  code, little- and big-endian byte codecs (\<open>to_le_bytes\<close>, \<open>from_le_bytes\<close>,
  \<open>to_be_bytes\<close>, \<open>from_be_bytes\<close> of the Rust standard library), slices, the
  error-result combinators that the components use for \<open>Result\<close>, and the three
  interfaces (locales) on fixed-width codecs, keyed header streams and bounded first-in first-out stores.
\<close>

unbundle bit_operations_syntax

type_synonym byte = "8 word"
type_synonym u16 = "16 word"
type_synonym u32 = "32 word"
type_synonym u64 = "64 word"
type_synonym bytes = "byte list"

named_theorems codec_simps "length and round-trip facts of the byte codecs"
named_theorems step_defs "definitions of the operations of a component"

section \<open>Results\<close>

text \<open>Rust's \<open>Result<T, E>\<close> is the sum type with the error on the left;
  \<open>and_then\<close> is the early return of the question mark operator.\<close>

abbreviation Err :: "'e \<Rightarrow> 'e + 'a" where "Err \<equiv> Inl"
abbreviation Ok :: "'a \<Rightarrow> 'e + 'a" where "Ok \<equiv> Inr"

fun and_then :: "'e + 'a \<Rightarrow> ('a \<Rightarrow> 'e + 'b) \<Rightarrow> 'e + 'b" where
  "and_then (Inl e) f = Inl e"
| "and_then (Inr x) f = f x"

fun map_err :: "('e \<Rightarrow> 'f) \<Rightarrow> 'e + 'a \<Rightarrow> 'f + 'a" where
  "map_err f (Inl e) = Inl (f e)"
| "map_err f (Inr x) = Inr x"

lemma map_err_Inr: "map_err f r = Inr x \<longleftrightarrow> r = Inr x"
  by (cases r) simp_all

fun ok_or :: "'a option \<Rightarrow> 'e \<Rightarrow> 'e + 'a" where
  "ok_or None e = Inl e"
| "ok_or (Some x) e = Inr x"

definition is_ok :: "'e + 'a \<Rightarrow> bool" where
  "is_ok r = (case r of Inl _ \<Rightarrow> False | Inr _ \<Rightarrow> True)"

lemma is_ok_simps [simp]: "is_ok (Inr x)" "\<not> is_ok (Inl e)"
  by (simp_all add: is_ok_def)

lemma and_then_Inr: "and_then r f = Inr y \<longleftrightarrow> (\<exists>x. r = Inr x \<and> f x = Inr y)"
  by (cases r) auto

lemma and_then_Inl: "and_then r f = Inl e \<longleftrightarrow> r = Inl e \<or> (\<exists>x. r = Inr x \<and> f x = Inl e)"
  by (cases r) auto

section \<open>Slices\<close>

text \<open>\<open>subslice i j xs\<close> is \<open>&xs[i..j]\<close>; the callers guard the range first, as the
  code does.\<close>

definition subslice :: "nat \<Rightarrow> nat \<Rightarrow> 'a list \<Rightarrow> 'a list" where
  "subslice i j xs = take (j - i) (drop i xs)"

lemma subslice_length [simp]: "length (subslice i j xs) = min (j - i) (length xs - i)"
  by (simp add: subslice_def min_def)

lemma subslice_append_left: "i = length xs \<Longrightarrow> j = length xs + length ys \<Longrightarrow>
    subslice i j (xs @ ys @ zs) = ys"
  by (simp add: subslice_def)

section \<open>Words\<close>

lemma unat_take_bit_word: "unat (take_bit n (w :: 'a::len word)) = unat w mod 2 ^ n"
proof -
  have "unat (take_bit n w) = take_bit n (unat w)" by (simp add: unsigned_take_bit_eq)
  then show ?thesis by (simp only: take_bit_eq_mod)
qed

lemma unat_drop_bit: "unat (drop_bit n (w :: 'a::len word)) = unat w div 2 ^ n"
proof -
  have "unat (drop_bit n w) = drop_bit n (take_bit LENGTH('a) (unat w))"
    by (rule unsigned_drop_bit_eq)
  also have "take_bit LENGTH('a) (unat w) = unat w" by (simp add: take_bit_nat_eq_self_iff)
  finally show ?thesis by (simp only: drop_bit_eq_div)
qed

lemma take_bit_unat_self: "unat w < 2 ^ n \<Longrightarrow> take_bit n w = (w :: 'a::len word)"
proof -
  assume "unat w < 2 ^ n"
  then have "unat (take_bit n w) = unat w" by (simp only: unat_take_bit_word mod_less)
  then show ?thesis by (simp only: word_unat_eq_iff)
qed

lemma high_bits_zero: "\<lbrakk>unat (w :: 'a::len word) < 2 ^ n; n \<le> k\<rbrakk> \<Longrightarrow> \<not> bit w k"
  using take_bit_unat_self [of w n] by (metis bit_take_bit_iff not_less)

lemma low_bits_only: "(\<And>k. n \<le> k \<Longrightarrow> \<not> bit (w :: 'a::len word) k) \<Longrightarrow> unat w < 2 ^ n"
proof -
  assume h: "\<And>k. n \<le> k \<Longrightarrow> \<not> bit w k"
  have "take_bit n w = w" by (rule bit_word_eqI) (use h not_less in \<open>auto simp: bit_take_bit_iff\<close>)
  then show ?thesis by (metis unat_take_bit_word mod_less_divisor zero_less_numeral zero_less_power)
qed

lemma unat_lt_iff: "unat (w :: 'a::len word) < 2 ^ n \<longleftrightarrow> (\<forall>k \<ge> n. \<not> bit w k)"
  using high_bits_zero low_bits_only by blast

lemma unat_ucast_fits:
  "unat (n :: 'a::len word) < 2 ^ LENGTH('b) \<Longrightarrow> unat (ucast n :: 'b::len word) = unat n"
  by (simp add: unsigned_ucast_eq take_bit_nat_eq_self_iff)

text \<open>\<open>saturating_add\<close> of the Rust integers.\<close>

definition saturating_add :: "'a::len word \<Rightarrow> 'a word \<Rightarrow> 'a word" where
  "saturating_add a b = (if unat a + unat b < 2 ^ LENGTH('a) then a + b else - 1)"

lemma saturating_add_exact:
  "unat (a :: 'a::len word) + unat b < 2 ^ LENGTH('a) \<Longrightarrow> unat (saturating_add a b) = unat a + unat b"
  by (simp add: saturating_add_def unat_add_lem [THEN iffD1])

section \<open>Little- and big-endian bytes\<close>

definition le_bytes :: "nat \<Rightarrow> 'a::len word \<Rightarrow> bytes" where
  "le_bytes n w = map (\<lambda>i. ucast (drop_bit (8 * i) w)) [0..<n]"

fun le_word :: "bytes \<Rightarrow> 'a::len word" where
  "le_word [] = 0"
| "le_word (b # bs) = ucast b OR push_bit 8 (le_word bs)"

definition be_bytes :: "nat \<Rightarrow> 'a::len word \<Rightarrow> bytes" where
  "be_bytes n w = rev (le_bytes n w)"

definition be_word :: "bytes \<Rightarrow> 'a::len word" where
  "be_word bs = le_word (rev bs)"

lemma le_bytes_length [simp, codec_simps]: "length (le_bytes n w) = n"
  by (simp add: le_bytes_def)

lemma be_bytes_length [simp, codec_simps]: "length (be_bytes n w) = n"
  by (simp add: be_bytes_def)

lemma bit_le_word:
  "bit (le_word bs :: 'a::len word) k \<longleftrightarrow>
     k < LENGTH('a) \<and> k div 8 < length bs \<and> bit (bs ! (k div 8)) (k mod 8)"
proof (induction bs arbitrary: k)
  case Nil
  then show ?case by simp
next
  case (Cons b bs)
  show ?case
  proof (cases "k < 8")
    case True
    then show ?thesis by (auto simp: bit_simps)
  next
    case False
    then obtain j where j: "k = j + 8" by (metis add.commute le_Suc_ex not_less)
    then have "\<not> bit b k" "(j + 8) div 8 = Suc (j div 8)" by (auto dest: bit_imp_le_length)
    with j show ?thesis
      using Cons.IH [of j] by (auto simp: bit_simps dest: bit_imp_le_length)
  qed
qed

lemma le_bytes_nth [simp]: "i < n \<Longrightarrow> le_bytes n w ! i = ucast (drop_bit (8 * i) w)"
  by (simp add: le_bytes_def)

lemma le_word_le_bytes:
  "le_word (le_bytes n w) = (take_bit (8 * n) w :: 'a::len word)"
proof (rule bit_word_eqI)
  fix k assume k: "k < LENGTH('a)"
  have "k div 8 < n \<longleftrightarrow> k < 8 * n" by (simp add: less_mult_imp_div_less div_less_iff_less_mult ac_simps)
  moreover have "8 * (k div 8) + k mod 8 = k" by simp
  ultimately show "bit (le_word (le_bytes n w) :: 'a word) k = bit (take_bit (8 * n) w) k"
    using k by (auto simp: bit_le_word bit_simps)
qed

lemma le_word_le_bytes_full [codec_simps]:
  "LENGTH('a) \<le> 8 * n \<Longrightarrow> le_word (le_bytes n w) = (w :: 'a::len word)"
  by (simp add: le_word_le_bytes take_bit_word_eq_self)

lemma be_word_be_bytes_full [codec_simps]:
  "LENGTH('a) \<le> 8 * n \<Longrightarrow> be_word (be_bytes n w) = (w :: 'a::len word)"
  by (simp add: be_word_def be_bytes_def le_word_le_bytes_full)

lemma le_bytes_le_word:
  assumes "8 * length bs \<le> LENGTH('a)"
  shows "le_bytes (length bs) (le_word bs :: 'a::len word) = bs"
proof (rule nth_equalityI)
  show "length (le_bytes (length bs) (le_word bs :: 'a word)) = length bs" by simp
next
  fix i assume "i < length (le_bytes (length bs) (le_word bs :: 'a word))"
  then have i: "i < length bs" by simp
  show "le_bytes (length bs) (le_word bs :: 'a word) ! i = bs ! i"
  proof (rule bit_word_eqI)
    fix k :: nat assume "k < LENGTH(8)"
    then have k: "k < 8" by simp
    have "(8 * i + k) div 8 = i" "(8 * i + k) mod 8 = k" using k by simp_all
    moreover have "8 * i + k < LENGTH('a)" using i k assms by simp
    ultimately show "bit (le_bytes (length bs) (le_word bs :: 'a word) ! i) k = bit (bs ! i) k"
      using i k by (simp add: bit_simps bit_le_word)
  qed
qed

lemma le_bytes_inj: "LENGTH('a) \<le> 8 * n \<Longrightarrow> le_bytes n v = le_bytes n (w :: 'a::len word) \<longleftrightarrow> v = w"
  by (metis le_word_le_bytes_full)

section \<open>The number that little-endian bytes denote\<close>

fun le_nat :: "bytes \<Rightarrow> nat" where
  "le_nat [] = 0"
| "le_nat (b # bs) = unat b + 256 * le_nat bs"

lemma unat_byte_less: "unat (b :: byte) < 256"
  using unsigned_less [where 'b = 8 and 'a = nat, of b] by simp

lemma le_nat_append: "le_nat (xs @ ys) = le_nat xs + 256 ^ length xs * le_nat ys"
  by (induction xs) (simp_all add: algebra_simps)

lemma le_nat_max: "le_nat (replicate n 0xFF) + 1 = 256 ^ n"
  by (induction n) simp_all

lemma le_nat_bound: "le_nat bs < 256 ^ length bs"
proof (induction bs)
  case (Cons b bs)
  then have "256 * le_nat bs + 256 \<le> 256 * 256 ^ length bs" by simp
  with unat_byte_less [of b] show ?case by simp
qed simp

lemma unat_le_word:
  "8 * length bs \<le> LENGTH('a) \<Longrightarrow> unat (le_word bs :: 'a::len word) = le_nat bs"
proof (induction bs)
  case (Cons b bs)
  let ?w = "le_word bs :: 'a word"
  have w: "unat ?w = le_nat bs" using Cons by simp
  have "(256 :: nat) ^ length (b # bs) = 2 ^ (8 * length (b # bs))"
    by (simp only: power_mult) simp
  also have "\<dots> \<le> 2 ^ LENGTH('a)" using Cons.prems by (intro power_increasing) simp_all
  finally have max: "(256 :: nat) ^ length (b # bs) \<le> 2 ^ LENGTH('a)" .
  then have fits: "unat b + 256 * le_nat bs < 2 ^ LENGTH('a)"
    using le_nat_bound [of "b # bs"] by simp
  have "(2 :: nat) ^ 8 \<le> 2 ^ LENGTH('a)" using Cons.prems by (intro power_increasing) simp_all
  then have b: "unat b < 2 ^ LENGTH('a)" using unat_byte_less [of b] by simp
  have "(ucast b :: 'a word) AND push_bit 8 ?w = 0"
    by (rule bit_word_eqI) (auto simp: bit_simps dest: bit_imp_le_length)
  then have "le_word (b # bs) = (ucast b :: 'a word) + push_bit 8 ?w"
    by (simp add: disjunctive_add_eq_or)
  moreover have "unat (ucast b :: 'a word) = unat b"
    by (simp add: unsigned_ucast_eq take_bit_nat_eq_self_iff b)
  moreover have "unat (push_bit 8 ?w) = 256 * le_nat bs"
  proof -
    have "unat (push_bit 8 ?w) = take_bit LENGTH('a) (push_bit 8 (le_nat bs))"
      by (simp only: unsigned_push_bit_eq w)
    then show ?thesis using fits by (simp add: take_bit_nat_eq_self_iff push_bit_eq_mult ac_simps)
  qed
  ultimately show ?case
    using fits unat_add_lem [of "ucast b :: 'a word" "push_bit 8 ?w"] by simp
qed simp

lemma le_nat_le_bytes:
  "8 * n \<le> LENGTH('a) \<Longrightarrow> le_nat (le_bytes n (w :: 'a::len word)) = unat w mod 256 ^ n"
proof -
  assume n: "8 * n \<le> LENGTH('a)"
  have "le_nat (le_bytes n w) = unat (le_word (le_bytes n w) :: 'a word)"
    using n by (intro unat_le_word [symmetric]) simp
  also have "\<dots> = unat w mod 2 ^ (8 * n)" by (simp only: le_word_le_bytes unat_take_bit_word)
  finally show ?thesis by (simp add: power_mult)
qed

lemma le_nat_inj: "\<lbrakk>length xs = length ys; le_nat xs = le_nat ys\<rbrakk> \<Longrightarrow> xs = ys"
proof (induction xs ys rule: list_induct2)
  case (Cons x xs y ys)
  have "unat x = (unat x + 256 * le_nat xs) mod 256" using unat_byte_less [of x] by simp
  also have "\<dots> = unat y" using Cons.prems unat_byte_less [of y] by simp
  finally have "x = y" by (simp only: word_unat_eq_iff)
  with Cons show ?case by simp
qed simp

section \<open>Reading a byte stream\<close>

text \<open>\<open>read_exact\<close> on the bytes that the peer has sent: the wanted bytes and the
  rest, or \<open>None\<close> where the stream ends first.\<close>

definition read_exact :: "nat \<Rightarrow> bytes \<Rightarrow> (bytes \<times> bytes) option" where
  "read_exact n s = (if length s < n then None else Some (take n s, drop n s))"

lemma read_exact_append [simp]: "length xs = n \<Longrightarrow> read_exact n (xs @ ys) = Some (xs, ys)"
  by (simp add: read_exact_def)

lemma read_exact_Some: "read_exact n s = Some (a, b) \<Longrightarrow> s = a @ b \<and> length a = n"
  by (auto simp: read_exact_def split: if_splits)

section \<open>Splitting a body at the cursor\<close>

lemma subslice_split:
  assumes "i \<le> j" "j \<le> length xs"
  shows "xs = take i xs @ subslice i j xs @ drop j xs"
proof -
  have "drop i xs = subslice i j xs @ drop j xs"
    using assms append_take_drop_id [of "j - i" "drop i xs"] by (simp add: subslice_def)
  then show ?thesis using append_take_drop_id [of i xs] by simp
qed

lemma drop_subslice: "\<lbrakk>i \<le> j; j \<le> length xs\<rbrakk> \<Longrightarrow> drop i xs = subslice i j xs @ drop j xs"
  using append_take_drop_id [of "j - i" "drop i xs"] by (simp add: subslice_def)

lemma drop_nth: "\<lbrakk>i < length xs; j = i + 1\<rbrakk> \<Longrightarrow> drop i xs = xs ! i # drop j xs"
  by (simp add: Cons_nth_drop_Suc)

lemma unat_of_nat_byte: "n < 256 \<Longrightarrow> unat (of_nat n :: byte) = n"
  by (simp add: unat_of_nat)

lemma of_nat_unat_byte [simp]: "(of_nat (unat b) :: byte) = b"
  by simp

lemma le_bytes_le_word_n [codec_simps]:
  "\<lbrakk>length bs = n; 8 * n \<le> LENGTH('a)\<rbrakk> \<Longrightarrow> le_bytes n (le_word bs :: 'a::len word) = bs"
  using le_bytes_le_word by blast

lemma subslice_in_append: "length xs \<le> i \<Longrightarrow> subslice i j (xs @ ys) = subslice (i - length xs) (j - length xs) ys"
  by (simp add: subslice_def)

lemma subslice_0_append: "j = length xs \<Longrightarrow> subslice 0 j (xs @ ys) = xs"
  by (simp add: subslice_def)

section \<open>Fixed-width codecs\<close>

text \<open>What a caller of a fixed-width wire structure relies on: every value in the
  encodable range has an encoding of the same length, and the decoder inverts it.\<close>

locale fixed_codec =
  fixes encode :: "'a \<Rightarrow> bytes"
    and decode :: "bytes \<Rightarrow> 'a option"
    and encodable :: "'a \<Rightarrow> bool"
    and width :: nat
  assumes encode_width: "encodable x \<Longrightarrow> length (encode x) = width"
    and decode_encode: "encodable x \<Longrightarrow> decode (encode x) = Some x"
begin

lemma encode_inj: "\<lbrakk>encodable x; encodable y; encode x = encode y\<rbrakk> \<Longrightarrow> x = y"
  by (metis decode_encode option.inject)

lemma decode_prefix:
  "encodable x \<Longrightarrow> decode (take width (encode x @ rest)) = Some x \<and> drop width (encode x @ rest) = rest"
  by (simp add: encode_width decode_encode)

lemma encode_prefix_free:
  assumes "encodable x" "encodable y" "encode x @ r = encode y @ s"
  shows "x = y \<and> r = s"
proof -
  have "length (encode x) = length (encode y)" using assms encode_width by simp
  with assms(3) have "encode x = encode y \<and> r = s" by (simp add: append_eq_append_conv)
  with assms encode_inj show ?thesis by blast
qed

lemma concat_inj:
  "\<lbrakk>\<forall>x \<in> set xs. encodable x; \<forall>y \<in> set ys. encodable y; width > 0;
    concat (map encode xs) = concat (map encode ys)\<rbrakk> \<Longrightarrow> xs = ys"
proof (induction xs arbitrary: ys)
  case Nil
  show ?case
  proof (cases ys)
    case (Cons y zs)
    with Nil have "encode y = []" "encodable y" by auto
    with encode_width [of y] Nil show ?thesis by simp
  qed simp
next
  case (Cons x xs)
  then have "encode x \<noteq> []" using encode_width [of x] by auto
  with Cons.prems have "ys \<noteq> []" by auto
  then obtain y zs where ys: "ys = y # zs" by (cases ys) auto
  with Cons.prems have "x = y \<and> concat (map encode xs) = concat (map encode zs)"
    by (intro encode_prefix_free) auto
  with Cons.IH [of zs] Cons.prems ys show ?case by simp
qed

end

section \<open>Keyed header streams\<close>

text \<open>Both ends of a connection mask every header with a key and advance the key by
  the same function after every frame.  The laws are the involution of the mask; the
  consequence is that two ends that start from the same key stay in step.\<close>

locale keyed_stream =
  fixes mask :: "'k \<Rightarrow> 'm \<Rightarrow> 'm"
    and advance :: "'k \<Rightarrow> 'k"
  assumes mask_mask: "mask k (mask k m) = m"
begin

fun send_all :: "'k \<Rightarrow> 'm list \<Rightarrow> 'm list \<times> 'k" where
  "send_all k [] = ([], k)"
| "send_all k (m # ms) = (let (cs, k') = send_all (advance k) ms in (mask k m # cs, k'))"

lemma send_all_length: "length (fst (send_all k ms)) = length ms"
  by (induction ms arbitrary: k) (auto split: prod.splits, metis fst_conv)

lemma send_all_key: "snd (send_all k ms) = (advance ^^ length ms) k"
proof (induction ms arbitrary: k)
  case (Cons m ms)
  then show ?case by (auto simp: funpow_swap1 split: prod.splits) (metis snd_conv)
qed simp

lemma duplex: "send_all k (fst (send_all k ms)) = (ms, (advance ^^ length ms) k)"
proof (induction ms arbitrary: k)
  case (Cons m ms)
  obtain cs k' where s: "send_all (advance k) ms = (cs, k')" by (cases "send_all (advance k) ms")
  with Cons [of "advance k"] show ?case
    by (simp add: mask_mask funpow_swap1)
qed simp

end

section \<open>Bounded first-in first-out stores\<close>

text \<open>Several components keep the most recent items of a stream and evict the oldest: the
  job tracker and the ring of emitted jobs.  \<open>items\<close> is the abstraction (oldest first),
  \<open>fresh\<close> is what the store asks of an item relative to the items it holds.\<close>

locale bounded_fifo =
  fixes push :: "'s \<Rightarrow> 'e \<Rightarrow> 's"
    and items :: "'s \<Rightarrow> 'e list"
    and good :: "'s \<Rightarrow> bool"
    and fresh :: "'e \<Rightarrow> 'e list \<Rightarrow> bool"
    and cap :: nat
  assumes cap_pos: "0 < cap"
    and good_push: "\<lbrakk>good s; fresh e (items s)\<rbrakk> \<Longrightarrow> good (push s e)"
    and items_push: "\<lbrakk>good s; fresh e (items s)\<rbrakk> \<Longrightarrow>
      items (push s e) = (if cap \<le> length (items s) then tl (items s) else items s) @ [e]"
    and fresh_mono: "\<lbrakk>fresh e ys; set xs \<subseteq> set ys\<rbrakk> \<Longrightarrow> fresh e xs"
begin

fun push_all :: "'s \<Rightarrow> 'e list \<Rightarrow> 's" where
  "push_all s [] = s"
| "push_all s (e # es) = push_all (push s e) es"

fun fresh_after :: "'e list \<Rightarrow> 'e list \<Rightarrow> bool" where
  "fresh_after seen [] = True"
| "fresh_after seen (e # es) = (fresh e seen \<and> fresh_after (seen @ [e]) es)"

lemma push_all_items:
  "\<lbrakk>good s; items s = drop (length seen - cap) seen; fresh_after seen es\<rbrakk> \<Longrightarrow>
     good (push_all s es) \<and> items (push_all s es) = drop (length seen + length es - cap) (seen @ es)"
proof (induction es arbitrary: s seen)
  case (Cons e es)
  have f: "fresh e (items s)"
    using Cons.prems by (auto intro: fresh_mono dest: in_set_dropD)
  have "items (push s e) = drop (length (seen @ [e]) - cap) (seen @ [e])"
  proof (cases "cap \<le> length seen")
    case True
    then have "cap \<le> length (items s)" "Suc (length seen) - cap = Suc (length seen - cap)"
      using Cons.prems(2) by (simp_all add: Suc_diff_le)
    moreover have "tl (drop (length seen - cap) seen) = drop (Suc (length seen - cap)) seen"
      by (simp add: drop_Suc tl_drop)
    ultimately show ?thesis
      using True cap_pos items_push [OF Cons.prems(1) f] by (simp add: Cons.prems(2) Suc_diff_le)
  next
    case False
    then have "\<not> cap \<le> length (items s)" "items s = seen" "Suc (length seen) - cap = 0"
      using Cons.prems(2) by simp_all
    then show ?thesis using items_push [OF Cons.prems(1) f] by simp
  qed
  then show ?case
    using Cons.IH [of "push s e" "seen @ [e]"] Cons.prems good_push [OF Cons.prems(1) f] by simp
qed simp

lemma items_bound: "\<lbrakk>good s; items s = []; fresh_after [] es\<rbrakk> \<Longrightarrow> length (items (push_all s es)) \<le> cap"
  using push_all_items [of s "[]" es] by simp

lemma newest_kept:
  "\<lbrakk>good s; items s = []; fresh_after [] es; i < length es; length es - cap \<le> i\<rbrakk> \<Longrightarrow>
     es ! i \<in> set (items (push_all s es))"
  using push_all_items [of s "[]" es]
  by (auto simp: in_set_conv_nth intro!: exI [of _ "i - (length es - cap)"])

end

section \<open>The leading bit of a word\<close>

text \<open>\<open>leading_zeros\<close>.\<close>

definition leading_zeros :: "'a::len word \<Rightarrow> nat" where
  "leading_zeros w = length (takeWhile (\<lambda>i. \<not> bit w i) (rev [0..<LENGTH('a)]))"

lemma leading_zeros_top:
  assumes "(w :: 'a::len word) \<noteq> 0"
  shows "leading_zeros w < LENGTH('a)" "bit w (LENGTH('a) - 1 - leading_zeros w)"
    "LENGTH('a) - 1 - leading_zeros w < k \<Longrightarrow> \<not> bit w k"
proof -
  let ?n = "LENGTH('a)" and ?P = "\<lambda>i. \<not> bit w i"
  let ?l = "rev [0..<LENGTH('a)]"
  have nth: "?l ! i = ?n - 1 - i" if "i < ?n" for i using that by (simp add: rev_nth)
  obtain j where j: "bit w j" using assms by (metis bit_0_eq bit_eq_iff bot_apply bot_bool_def)
  then have "j \<in> set ?l" by (auto dest: bit_imp_le_length)
  then have "takeWhile ?P ?l \<noteq> ?l" using j by (metis set_takeWhileD)
  then have "length (takeWhile ?P ?l) < length ?l"
    by (metis length_takeWhile_le nat_less_le takeWhile_eq_take take_all_iff)
  then show lt: "leading_zeros w < ?n" by (simp add: leading_zeros_def)
  have "\<not> ?P (?l ! length (takeWhile ?P ?l))" by (rule nth_length_takeWhile) (use lt in \<open>simp add: leading_zeros_def\<close>)
  then show "bit w (?n - 1 - leading_zeros w)"
    using nth [OF lt] by (simp add: leading_zeros_def)
  assume k: "?n - 1 - leading_zeros w < k"
  show "\<not> bit w k"
  proof
    assume b: "bit w k"
    then have kn: "k < ?n" by (rule bit_imp_le_length)
    let ?i = "?n - 1 - k"
    have i: "?i < leading_zeros w" using k kn lt by linarith
    then have "takeWhile ?P ?l ! ?i \<in> set (takeWhile ?P ?l)" by (intro nth_mem) (simp add: leading_zeros_def)
    then have "?P (takeWhile ?P ?l ! ?i)" by (rule set_takeWhileD [THEN conjunct2])
    moreover have "takeWhile ?P ?l ! ?i = ?l ! ?i" using i by (simp add: takeWhile_nth leading_zeros_def)
    moreover have "?l ! ?i = k" using nth [of ?i] kn by simp
    ultimately show False using b by simp
  qed
qed

section \<open>Saturating and rounding arithmetic\<close>

text \<open>\<open>saturating_mul\<close> and \<open>div_ceil\<close> of the unsigned types.\<close>

definition saturating_mul :: "'a::len word \<Rightarrow> 'a word \<Rightarrow> 'a word" where
  "saturating_mul a b = (if unat a * unat b < 2 ^ LENGTH('a) then a * b else - 1)"

definition div_ceil :: "u64 \<Rightarrow> u64 \<Rightarrow> u64" where
  "div_ceil a b = (if a mod b = 0 then a div b else a div b + 1)"

lemma unat_max: "unat (max a b) = max (unat a) (unat b)"
  by (simp add: max_def word_le_nat_alt)

lemma unat_min: "unat (min a b) = min (unat a) (unat b)"
  by (simp add: min_def word_le_nat_alt)

lemma unat_saturating_mul: "unat (saturating_mul a b) = min (unat (a :: 'a::len word) * unat b) (2 ^ LENGTH('a) - 1)"
proof (cases "unat a * unat b < 2 ^ LENGTH('a)")
  case True
  then have "unat (a * b) = unat a * unat b" by (simp add: unat_mult_lem [THEN iffD1])
  then show ?thesis using True by (simp add: saturating_mul_def)
next
  case False
  have "unat (- 1 :: 'a word) = 2 ^ LENGTH('a) - 1" by (simp add: unsigned_minus_1_eq_mask mask_eq_exp_minus_1)
  then show ?thesis using False by (simp add: saturating_mul_def)
qed

lemma unat_u64_less: "unat (x :: u64) < 2 ^ 64"
  using unsigned_less [of x, where 'a = nat] by simp

lemma nat_div_ceil:
  assumes "0 < (b :: nat)"
  shows "(a + b - 1) div b = (if a mod b = 0 then a div b else a div b + 1)"
proof -
  define q r where "q = a div b" and "r = a mod b"
  have a: "a = b * q + r" "r < b" using assms by (simp_all add: q_def r_def)
  show ?thesis
  proof (cases "r = 0")
    case True
    then have "a + b - 1 = (b - 1) + b * q" using assms a by simp
    then have "(a + b - 1) div b = q + (b - 1) div b" using assms by (simp only: div_mult_self2)
    then show ?thesis using True assms by (simp add: q_def r_def)
  next
    case False
    then have "a + b - 1 = b * (q + 1) + (r - 1)" using a by simp
    then have "(a + b - 1) div b = q + 1 + (r - 1) div b" using assms by (simp only: div_mult_self4)
    then show ?thesis using False a(2) by (simp add: q_def r_def)
  qed
qed

lemma unat_div_ceil_60: "unat (div_ceil a 60) = (unat a + 59) div 60"
proof -
  have z: "a mod 60 = 0 \<longleftrightarrow> unat a mod 60 = 0" by (simp add: word_unat_eq_iff unat_mod)
  have "unat a div 60 + 1 < 2 ^ 64" using unat_u64_less [of a] by simp
  then have "unat (a div 60 + 1) = unat a div 60 + 1"
    using unat_add_lem [of "a div 60" 1] by (simp add: unat_div)
  moreover have "(unat a + 59) div 60 = (if unat a mod 60 = 0 then unat a div 60 else unat a div 60 + 1)"
    using nat_div_ceil [of 60 "unat a"] by simp
  ultimately show ?thesis using z by (simp add: div_ceil_def unat_div)
qed

end
