(* ===== verification/Messages.thy ===== *)
theory Messages
  imports Prelude
begin

text \<open>
  The post-handshake message bodies of \<open>crates/datum-protocol/src/messages.rs\<close>: one
  encoder and decoder per message, each decoder with the order of its length checks and
  the error it returns, and the exact set of bodies that each decoder accepts.
\<close>

definition COINBASER_FETCH_OPCODE :: byte where "COINBASER_FETCH_OPCODE = 0x10"
definition COINBASER_RESPONSE_OPCODE :: byte where "COINBASER_RESPONSE_OPCODE = 0x11"
definition CLIENT_CONFIG_OPCODE :: byte where "CLIENT_CONFIG_OPCODE = 0x99"
definition SHARE_RESPONSE_OPCODE :: byte where "SHARE_RESPONSE_OPCODE = 0x8F"
definition JOB_VALIDATION_OPCODE :: byte where "JOB_VALIDATION_OPCODE = 0x50"
definition SHARE_ACCEPTED :: byte where "SHARE_ACCEPTED = 0x50"
definition SHARE_ACCEPTED_TENTATIVELY :: byte where "SHARE_ACCEPTED_TENTATIVELY = 0x55"
definition SHARE_REJECTED :: byte where "SHARE_REJECTED = 0x66"

lemmas opcode_defs = COINBASER_FETCH_OPCODE_def COINBASER_RESPONSE_OPCODE_def
  CLIENT_CONFIG_OPCODE_def SHARE_RESPONSE_OPCODE_def JOB_VALIDATION_OPCODE_def
  SHARE_ACCEPTED_def SHARE_ACCEPTED_TENTATIVELY_def SHARE_REJECTED_def

datatype MessageError =
    TooShort nat nat \<comment> \<open>got, need\<close>
  | BadSubOpcode byte byte \<comment> \<open>got, expected\<close>
  | BadShareStatus byte
  | BadConfigVersion byte
  | MissingConfigTrailer
  | BadCoinbaserLength u32 nat \<comment> \<open>blob length, trailing bytes\<close>
  | BadExtranonceLength byte

section \<open>Coinbaser fetch request\<close>

definition fetch_request_encode :: bytes where
  "fetch_request_encode = [COINBASER_FETCH_OPCODE]"

definition fetch_request_decode :: "bytes \<Rightarrow> MessageError + unit" where
  "fetch_request_decode body =
     (if body = [] then Err (TooShort 0 1)
      else if body ! 0 \<noteq> COINBASER_FETCH_OPCODE then Err (BadSubOpcode (body ! 0) COINBASER_FETCH_OPCODE)
      else Ok ())"

section \<open>Share response\<close>

datatype ShareStatus = Accepted | AcceptedTentatively | Rejected

record ShareResponse =
  sr_status :: ShareStatus
  reject_reason :: u16
  sr_nonce :: u32
  target_pot :: byte
  sr_job_id :: byte

definition share_status :: "byte \<Rightarrow> MessageError + ShareStatus" where
  "share_status b =
     (if b = SHARE_ACCEPTED then Ok Accepted
      else if b = SHARE_ACCEPTED_TENTATIVELY then Ok AcceptedTentatively
      else if b = SHARE_REJECTED then Ok Rejected
      else Err (BadShareStatus b))"

definition share_response_decode :: "bytes \<Rightarrow> MessageError + ShareResponse" where
  "share_response_decode body =
     (if length body < 9 then Err (TooShort (length body) 9)
      else and_then (share_status (body ! 0)) (\<lambda>st.
        Ok \<lparr>sr_status = st,
            reject_reason = le_word [body ! 1, body ! 2],
            sr_nonce = le_word [body ! 3, body ! 4, body ! 5, body ! 6],
            target_pot = body ! 7,
            sr_job_id = body ! 8\<rparr>))"

section \<open>Coinbaser response\<close>

record CoinbaserResponse =
  coinbase_value :: u64
  v2_blob :: bytes

definition coinbaser_response_encode :: "CoinbaserResponse \<Rightarrow> bytes" where
  "coinbaser_response_encode r =
     le_bytes 8 (coinbase_value r) @ le_bytes 4 (of_nat (length (v2_blob r)) :: u32) @ v2_blob r"

definition coinbaser_response_decode :: "bytes \<Rightarrow> MessageError + CoinbaserResponse" where
  "coinbaser_response_decode body =
     (if length body < 12 then Err (TooShort (length body) 12)
      else let value = le_word (subslice 0 8 body);
               blob_len = (le_word (subslice 8 12 body) :: u32);
               trailing = length body - 12
           in if \<not> (1 \<le> blob_len \<and> blob_len \<le> 32767) \<or> trailing < unat blob_len
              then Err (BadCoinbaserLength blob_len trailing)
              else Ok \<lparr>coinbase_value = value, v2_blob = subslice 12 (12 + unat blob_len) body\<rparr>)"

section \<open>Client configuration\<close>

record ClientConfig =
  pool_scriptsig :: bytes
  prime_id :: u32
  pool_coinbase_tag :: bytes
  vardiff_min :: u64

definition client_config_encode :: "ClientConfig \<Rightarrow> bytes" where
  "client_config_encode c =
     [1] @ [of_nat (length (pool_scriptsig c))] @ pool_scriptsig c
     @ le_bytes 4 (prime_id c)
     @ [of_nat (length (pool_coinbase_tag c))] @ pool_coinbase_tag c
     @ le_bytes 8 (vardiff_min c) @ [0] @ [0xFE]"

definition client_config_decode :: "bytes \<Rightarrow> MessageError + ClientConfig" where
  "client_config_decode body =
     (if body = [] then Err (TooShort 0 1)
      else if body ! 0 \<noteq> 1 then Err (BadConfigVersion (body ! 0))
      else let i = 1 in
      if length body \<le> i then Err (TooShort (length body) (i + 1))
      else let scriptsig_len = unat (body ! i); i = i + 1 in
      if length body < i + scriptsig_len then Err (TooShort (length body) (i + scriptsig_len))
      else let scriptsig = subslice i (i + scriptsig_len) body; i = i + scriptsig_len in
      if length body < i + 4 then Err (TooShort (length body) (i + 4))
      else let prime = le_word (subslice i (i + 4) body); i = i + 4 in
      if length body \<le> i then Err (TooShort (length body) (i + 1))
      else let tag_len = unat (body ! i); i = i + 1 in
      if length body < i + tag_len then Err (TooShort (length body) (i + tag_len))
      else let tag = subslice i (i + tag_len) body; i = i + tag_len in
      if length body < i + 8 then Err (TooShort (length body) (i + 8))
      else let vmin = le_word (subslice i (i + 8) body); i = i + 8 in
      if length body < i + 2 then Err (TooShort (length body) (i + 2))
      else if body ! i \<noteq> 0 \<or> body ! (i + 1) \<noteq> 0xFE then Err MissingConfigTrailer
      else Ok \<lparr>pool_scriptsig = scriptsig, prime_id = prime, pool_coinbase_tag = tag,
               vardiff_min = vmin\<rparr>)"

section \<open>Share submission prefix\<close>

record ShareSubmissionPrefix =
  sp_job_id :: byte
  sp_coinbase_id :: byte
  sp_flags :: byte
  sp_target_byte :: byte
  sp_ntime :: u32
  sp_nonce :: u32
  sp_version :: u32
  sp_extranonce :: bytes \<comment> \<open>\<open>[u8; 12]\<close>\<close>

definition SHARE_SUBMISSION_PREFIX_LEN :: nat where "SHARE_SUBMISSION_PREFIX_LEN = 30"

definition share_prefix_encode :: "ShareSubmissionPrefix \<Rightarrow> bytes" where
  "share_prefix_encode p =
     [0x27, sp_job_id p, sp_coinbase_id p, sp_flags p, sp_target_byte p]
     @ le_bytes 4 (sp_ntime p) @ le_bytes 4 (sp_nonce p) @ le_bytes 4 (sp_version p)
     @ [12] @ sp_extranonce p"

definition share_prefix_decode :: "bytes \<Rightarrow> MessageError + ShareSubmissionPrefix" where
  "share_prefix_decode body =
     (if length body < SHARE_SUBMISSION_PREFIX_LEN
      then Err (TooShort (length body) SHARE_SUBMISSION_PREFIX_LEN)
      else if body ! 0 \<noteq> 0x27 then Err (BadSubOpcode (body ! 0) 0x27)
      else if body ! 17 \<noteq> 12 then Err (BadExtranonceLength (body ! 17))
      else Ok \<lparr>sp_job_id = body ! 1, sp_coinbase_id = body ! 2, sp_flags = body ! 3,
               sp_target_byte = body ! 4,
               sp_ntime = le_word (subslice 5 9 body), sp_nonce = le_word (subslice 9 13 body),
               sp_version = le_word (subslice 13 17 body), sp_extranonce = subslice 18 30 body\<rparr>)"

section \<open>Block notification and job validation\<close>

record BlockNotify =
  bn_payload :: bytes

definition block_notify_encode :: "BlockNotify \<Rightarrow> bytes" where
  "block_notify_encode n = bn_payload n"

definition block_notify_decode :: "bytes \<Rightarrow> BlockNotify" where
  "block_notify_decode body = \<lparr>bn_payload = body\<rparr>"

datatype JobValidationCmd = StxidsList | StxidsListById | SerializedBlock

fun job_validation_opcode :: "JobValidationCmd \<Rightarrow> byte" where
  "job_validation_opcode StxidsList = 0x10"
| "job_validation_opcode StxidsListById = 0x11"
| "job_validation_opcode SerializedBlock = 0x12"

definition job_validation_decode :: "bytes \<Rightarrow> MessageError + JobValidationCmd" where
  "job_validation_decode body =
     (if body = [] then Err (TooShort 0 1)
      else if body ! 0 = 0x10 then Ok StxidsList
      else if body ! 0 = 0x11 then Ok StxidsListById
      else if body ! 0 = 0x12 then Ok SerializedBlock
      else Err (BadSubOpcode (body ! 0) 0x10))"

section \<open>What each decoder accepts\<close>

definition config_fits :: "ClientConfig \<Rightarrow> bool" where
  "config_fits c \<longleftrightarrow> length (pool_scriptsig c) < 256 \<and> length (pool_coinbase_tag c) < 256"

lemma coinbaser_decode_sound:
  assumes "coinbaser_response_decode body = Ok r"
  shows "body = coinbaser_response_encode r @ drop (12 + length (v2_blob r)) body
    \<and> 1 \<le> length (v2_blob r) \<and> length (v2_blob r) \<le> 32767"
proof -
  let ?n = "le_word (subslice 8 12 body) :: u32"
  have len: "12 \<le> length body" "unat ?n \<le> length body - 12" "1 \<le> ?n" "?n \<le> 32767"
    and r: "r = \<lparr>coinbase_value = le_word (subslice 0 8 body), v2_blob = subslice 12 (12 + unat ?n) body\<rparr>"
    using assms by (auto simp: coinbaser_response_decode_def Let_def split: if_splits)
  have n: "length (v2_blob r) = unat ?n" using r len by simp
  have "1 \<le> unat ?n" "unat ?n \<le> 32767" using len(3,4) by (simp_all add: word_le_nat_alt)
  moreover have "body = subslice 0 8 body @ subslice 8 12 body @ subslice 12 (12 + unat ?n) body
      @ drop (12 + unat ?n) body"
    using len drop_subslice [of 0 8 body] drop_subslice [of 8 12 body]
      drop_subslice [of 12 "12 + unat ?n" body] by simp
  moreover have "coinbaser_response_encode r
      = subslice 0 8 body @ subslice 8 12 body @ subslice 12 (12 + unat ?n) body"
    unfolding coinbaser_response_encode_def n using len(1) by (simp add: r le_bytes_le_word_n)
  ultimately show ?thesis by (simp add: n)
qed

lemma coinbaser_decode_complete:
  assumes "1 \<le> length (v2_blob r)" "length (v2_blob r) \<le> 32767"
  shows "coinbaser_response_decode (coinbaser_response_encode r @ rest) = Ok r"
proof -
  let ?l = "of_nat (length (v2_blob r)) :: u32"
  have n: "unat ?l = length (v2_blob r)"
    using assms by (simp add: unat_of_nat)
  have "1 \<le> ?l" "?l \<le> 32767" using assms n by (simp_all add: word_le_nat_alt)
  then show ?thesis
    using n
    by (simp add: coinbaser_response_decode_def coinbaser_response_encode_def subslice_in_append
        subslice_0_append le_word_le_bytes_full Let_def)
qed

lemma share_prefix_decode_sound:
  assumes "share_prefix_decode body = Ok p"
  shows "body = share_prefix_encode p @ drop 30 body \<and> length (sp_extranonce p) = 12"
proof -
  have len: "30 \<le> length body" and b: "body ! 0 = 0x27" "body ! 17 = 12"
    using assms by (auto simp: share_prefix_decode_def SHARE_SUBMISSION_PREFIX_LEN_def split: if_splits)
  have p: "p = \<lparr>sp_job_id = body ! 1, sp_coinbase_id = body ! 2, sp_flags = body ! 3,
      sp_target_byte = body ! 4, sp_ntime = le_word (subslice 5 9 body),
      sp_nonce = le_word (subslice 9 13 body), sp_version = le_word (subslice 13 17 body),
      sp_extranonce = subslice 18 30 body\<rparr>"
    using assms by (auto simp: share_prefix_decode_def split: if_splits)
  have ne: "body \<noteq> []" using len by auto
  have "body = [body ! 0, body ! 1, body ! 2, body ! 3, body ! 4] @ subslice 5 9 body @ subslice 9 13 body
      @ subslice 13 17 body @ [body ! 17] @ subslice 18 30 body @ drop 30 body"
    using len ne drop_nth [of 0 body 1] drop_nth [of 1 body 2] drop_nth [of 2 body 3]
      drop_nth [of 3 body 4] drop_nth [of 4 body 5] drop_subslice [of 5 9 body] drop_subslice [of 9 13 body]
      drop_subslice [of 13 17 body] drop_nth [of 17 body 18] drop_subslice [of 18 30 body]
    by simp
  then show ?thesis
    using len by (simp add: p share_prefix_encode_def le_bytes_le_word_n b)
qed

lemma share_prefix_decode_complete:
  assumes "length (sp_extranonce p) = 12"
  shows "share_prefix_decode (share_prefix_encode p @ rest) = Ok p"
  using assms
  by (simp add: share_prefix_decode_def share_prefix_encode_def SHARE_SUBMISSION_PREFIX_LEN_def
      subslice_def nth_append le_word_le_bytes_full)

lemma client_config_decode_sound:
  assumes "client_config_decode body = Ok c"
  shows "body = client_config_encode c @ drop (length (client_config_encode c)) body \<and> config_fits c"
proof -
  define s where "s = unat (body ! 1)"
  define t where "t = unat (body ! (6 + s))"
  have len: "17 + s + t \<le> length body" and b: "body ! 0 = 1" "body ! (15 + s + t) = 0"
      "body ! (16 + s + t) = 0xFE"
    and c: "c = \<lparr>pool_scriptsig = subslice 2 (2 + s) body, prime_id = le_word (subslice (2 + s) (6 + s) body),
      pool_coinbase_tag = subslice (7 + s) (7 + s + t) body,
      vardiff_min = le_word (subslice (7 + s + t) (15 + s + t) body)\<rparr>"
    using assms
    by (auto simp: client_config_decode_def Let_def s_def t_def ac_simps numeral_2_eq_2 split: if_splits)
  have st: "s < 256" "t < 256" unfolding s_def t_def using unsigned_less [where 'b = 8 and 'a = nat] by force+
  have lens: "length (pool_scriptsig c) = s" "length (pool_coinbase_tag c) = t"
    using len by (simp_all add: c)
  have byte_lens: "(of_nat s :: byte) = body ! 1" "(of_nat t :: byte) = body ! (6 + s)"
    unfolding s_def t_def by simp_all
  have ne: "body \<noteq> []" using len by auto
  have enc: "client_config_encode c = [body ! 0] @ [body ! 1] @ subslice 2 (2 + s) body
      @ subslice (2 + s) (6 + s) body
      @ [body ! (6 + s)] @ subslice (7 + s) (7 + s + t) body
      @ subslice (7 + s + t) (15 + s + t) body @ [body ! (15 + s + t)] @ [body ! (16 + s + t)]"
    unfolding client_config_encode_def b lens byte_lens
    using len by (simp add: c le_bytes_le_word_n)
  have enc_len: "length (client_config_encode c) = 17 + s + t"
    unfolding client_config_encode_def using len by (simp add: lens)
  have "body = client_config_encode c @ drop (17 + s + t) body"
    unfolding enc
    using len ne drop_nth [of 0 body 1] drop_nth [of 1 body 2] drop_subslice [of 2 "2 + s" body]
      drop_subslice [of "2 + s" "6 + s" body] drop_nth [of "6 + s" body "7 + s"]
      drop_subslice [of "7 + s" "7 + s + t" body] drop_subslice [of "7 + s + t" "15 + s + t" body]
      drop_nth [of "15 + s + t" body "16 + s + t"] drop_nth [of "16 + s + t" body "17 + s + t"]
    by simp
  then show ?thesis
    unfolding config_fits_def lens enc_len using st by blast
qed

lemma client_config_decode_complete:
  assumes "config_fits c"
  shows "client_config_decode (client_config_encode c @ rest) = Ok c"
proof -
  have "unat (of_nat (length (pool_scriptsig c)) :: byte) = length (pool_scriptsig c)"
    "unat (of_nat (length (pool_coinbase_tag c)) :: byte) = length (pool_coinbase_tag c)"
    using assms by (simp_all add: config_fits_def unat_of_nat_byte)
  then show ?thesis
    by (simp add: client_config_decode_def client_config_encode_def Let_def subslice_def nth_append
        drop_Cons' le_word_le_bytes_full)
qed

section \<open>Properties of the message codecs\<close>

text \<open>The client-configuration decoder accepts exactly the encodings of configurations
  whose two variable fields fit their one-byte length, followed by any trailing bytes, and
  returns the configuration that was encoded; every other body is an error.\<close>

theorem client_config_exact:
  "client_config_decode body = Ok c \<longleftrightarrow>
     config_fits c \<and> (\<exists>rest. body = client_config_encode c @ rest)"
  using client_config_decode_sound [of body c] client_config_decode_complete [of c] by blast

text \<open>The coinbaser-response decoder accepts exactly the encodings of responses whose
  blob has between 1 and 32767 bytes, followed by any trailing bytes, and returns the value
  and blob that were encoded.\<close>

theorem coinbaser_response_exact:
  "coinbaser_response_decode body = Ok r \<longleftrightarrow>
     1 \<le> length (v2_blob r) \<and> length (v2_blob r) \<le> 32767
     \<and> (\<exists>rest. body = coinbaser_response_encode r @ rest)"
  using coinbaser_decode_sound [of body r] coinbaser_decode_complete [of r] by blast

text \<open>The share-submission prefix decoder accepts exactly the 30-byte encodings of
  prefixes with a twelve-byte extranonce, followed by any suffix, and returns the prefix that
  was encoded.\<close>

theorem share_prefix_exact:
  "share_prefix_decode body = Ok p \<longleftrightarrow>
     length (sp_extranonce p) = 12 \<and> (\<exists>rest. body = share_prefix_encode p @ rest)"
  using share_prefix_decode_sound [of body p] share_prefix_decode_complete [of p] by blast

fun share_status_byte :: "ShareStatus \<Rightarrow> byte" where
  "share_status_byte Accepted = SHARE_ACCEPTED"
| "share_status_byte AcceptedTentatively = SHARE_ACCEPTED_TENTATIVELY"
| "share_status_byte Rejected = SHARE_REJECTED"

lemma share_status_Ok: "share_status b = Ok st \<longleftrightarrow> b = share_status_byte st"
  by (cases st) (auto simp: share_status_def opcode_defs split: if_splits)

lemma nine_bytes:
  assumes "9 \<le> length body"
  shows "body = [body ! 0, body ! 1, body ! 2, body ! 3, body ! 4, body ! 5, body ! 6, body ! 7, body ! 8]
    @ drop 9 body"
proof -
  have "body \<noteq> []" using assms by auto
  then show ?thesis
    using assms drop_nth [of 0 body 1] drop_nth [of 1 body 2] drop_nth [of 2 body 3]
      drop_nth [of 3 body 4] drop_nth [of 4 body 5] drop_nth [of 5 body 6] drop_nth [of 6 body 7]
      drop_nth [of 7 body 8] drop_nth [of 8 body 9]
    by simp
qed

text \<open>A share response is decoded exactly from a body of nine or more bytes that holds a
  known status byte, the little-endian reject reason and nonce, the target byte and the job
  id; a shorter body is reported as too short before the status byte is looked at.\<close>

theorem share_response_exact:
  "(share_response_decode body = Ok r \<longleftrightarrow>
     (\<exists>rest. body = [share_status_byte (sr_status r)] @ le_bytes 2 (reject_reason r)
        @ le_bytes 4 (sr_nonce r) @ [target_pot r, sr_job_id r] @ rest))
   \<and> (share_response_decode body = Err (TooShort n k) \<longleftrightarrow> length body < 9 \<and> n = length body \<and> k = 9)"
proof
  show "share_response_decode body = Ok r \<longleftrightarrow>
     (\<exists>rest. body = [share_status_byte (sr_status r)] @ le_bytes 2 (reject_reason r)
        @ le_bytes 4 (sr_nonce r) @ [target_pot r, sr_job_id r] @ rest)" (is "?l \<longleftrightarrow> ?r")
  proof
    assume ?l
    then have len: "9 \<le> length body"
      and r: "body ! 0 = share_status_byte (sr_status r)" "reject_reason r = le_word [body ! 1, body ! 2]"
        "sr_nonce r = le_word [body ! 3, body ! 4, body ! 5, body ! 6]" "target_pot r = body ! 7"
        "sr_job_id r = body ! 8"
      by (auto simp: share_response_decode_def and_then_Inr share_status_Ok split: if_splits)
    show ?r
      unfolding r by (rule exI [of _ "drop 9 body"])
        (use nine_bytes [OF len] r(1) in \<open>simp add: le_bytes_le_word_n del: le_word.simps\<close>)
  next
    assume ?r
    then obtain rest where body: "body = [share_status_byte (sr_status r)] @ le_bytes 2 (reject_reason r)
        @ le_bytes 4 (sr_nonce r) @ [target_pot r, sr_job_id r] @ rest" by blast
    obtain a b where ab: "le_bytes 2 (reject_reason r) = [a, b]"
      by (simp add: le_bytes_def upt_rec)
    obtain c d e f where cf: "le_bytes 4 (sr_nonce r) = [c, d, e, f]"
      by (simp add: le_bytes_def upt_rec)
    have "le_word [a, b] = reject_reason r" "le_word [c, d, e, f] = sr_nonce r"
      by (simp_all flip: ab cf del: le_word.simps add: le_word_le_bytes_full)
    then show ?l
      by (simp add: body ab cf share_response_decode_def share_status_Ok [THEN iffD2] del: le_word.simps)
  qed
  show "share_response_decode body = Err (TooShort n k) \<longleftrightarrow> length body < 9 \<and> n = length body \<and> k = 9"
    by (auto simp: share_response_decode_def and_then_Inl share_status_def split: if_splits)
qed

section \<open>The submission prefix as a fixed-width codec\<close>

definition share_prefix_option :: "bytes \<Rightarrow> ShareSubmissionPrefix option" where
  "share_prefix_option b = (case share_prefix_decode b of Inr p \<Rightarrow> Some p | Inl _ \<Rightarrow> None)"

interpretation share_prefix: fixed_codec share_prefix_encode share_prefix_option
    "\<lambda>p. length (sp_extranonce p) = 12" 30
  by unfold_locales
    (simp add: share_prefix_encode_def,
     simp add: share_prefix_option_def share_prefix_decode_complete [where rest = "[]", simplified])

end
