(* ===== verification/Libs.thy ===== *)
theory Libs
  imports Prelude
begin

text \<open>
  The functions of third-party crates that the modelled code calls, as one record that the
  definitions take as an argument: hex encoding and decoding (crate hex) and SHA-256 (crate
  sha2), with their documented behaviour as a predicate, and one concrete instance for the
  witnesses.
\<close>

unbundle bit_operations_syntax

record libs =
  hex_encode :: "bytes \<Rightarrow> string"
  hex_decode :: "string \<Rightarrow> bytes option"
  sha256 :: "bytes \<Rightarrow> bytes"

section \<open>Lowercase hex\<close>

definition hex_digits :: string where "hex_digits = ''0123456789abcdef''"

definition digit :: "nat \<Rightarrow> char" where "digit n = hex_digits ! n"

fun digit_index :: "string \<Rightarrow> char \<Rightarrow> nat option" where
  "digit_index [] c = None"
| "digit_index (d # ds) c = (if c = d then Some 0 else map_option Suc (digit_index ds c))"

definition digit_value :: "char \<Rightarrow> nat option" where "digit_value c = digit_index hex_digits c"

definition hex_of_byte :: "byte \<Rightarrow> string" where
  "hex_of_byte b = [digit (unat b div 16), digit (unat b mod 16)]"

definition ref_hex_encode :: "bytes \<Rightarrow> string" where
  "ref_hex_encode bs = concat (map hex_of_byte bs)"

fun ref_hex_decode :: "string \<Rightarrow> bytes option" where
  "ref_hex_decode [] = Some []"
| "ref_hex_decode [c] = None"
| "ref_hex_decode (c # d # s) =
     (case (digit_value c, digit_value d, ref_hex_decode s) of
        (Some a, Some b, Some r) \<Rightarrow> Some (of_nat (16 * a + b) # r)
      | _ \<Rightarrow> None)"

lemma digit_index_nth: "distinct ds \<Longrightarrow> n < length ds \<Longrightarrow> digit_index ds (ds ! n) = Some n"
proof (induction ds arbitrary: n)
  case (Cons d ds)
  then show ?case by (cases n) auto
qed simp

lemma digit_value_digit: "n < 16 \<Longrightarrow> digit_value (digit n) = Some n"
  unfolding digit_value_def digit_def by (rule digit_index_nth) (simp_all add: hex_digits_def)

lemma ref_hex_round_trip: "ref_hex_decode (ref_hex_encode bs) = Some bs"
proof (induction bs)
  case (Cons b bs)
  have "unat b div 16 < 16" using unat_byte_less [of b] by simp
  moreover have "(of_nat (16 * (unat b div 16) + unat b mod 16) :: byte) = b" by simp
  ultimately show ?case
    using Cons by (simp add: ref_hex_encode_def hex_of_byte_def digit_value_digit del: of_nat_add of_nat_mult)
qed (simp add: ref_hex_encode_def)

lemma ref_hex_decode_length: "ref_hex_decode s = Some b \<Longrightarrow> length s = 2 * length b"
  by (induction s arbitrary: b rule: ref_hex_decode.induct) (auto split: option.splits)

lemma ref_hex_decode_append:
  "\<lbrakk>ref_hex_decode s = Some a; ref_hex_decode t = Some b\<rbrakk> \<Longrightarrow> ref_hex_decode (s @ t) = Some (a @ b)"
  by (induction s arbitrary: a rule: ref_hex_decode.induct) (auto split: option.splits)

section \<open>Laws\<close>

definition hex_laws :: "libs \<Rightarrow> bool" where
  "hex_laws X \<longleftrightarrow> (\<forall>b. hex_decode X (hex_encode X b) = Some b \<and> length (hex_encode X b) = 2 * length b)
     \<and> (\<forall>s b. hex_decode X s = Some b \<longrightarrow> length s = 2 * length b)
     \<and> (\<forall>a b. hex_encode X (a @ b) = hex_encode X a @ hex_encode X b)
     \<and> (\<forall>s t a b. hex_decode X s = Some a \<and> hex_decode X t = Some b \<longrightarrow> hex_decode X (s @ t) = Some (a @ b))
     \<and> (\<forall>b. hex_decode X (ref_hex_encode b) = Some b)"

text \<open>The facts of \<open>hex_laws\<close> as rules.\<close>

lemma hex_lawsD:
  assumes "hex_laws X"
  shows "hex_decode X (hex_encode X b) = Some b" "length (hex_encode X b) = 2 * length b"
    "hex_decode X s = Some b \<Longrightarrow> length s = 2 * length b"
    "hex_encode X (a @ b) = hex_encode X a @ hex_encode X b"
    "\<lbrakk>hex_decode X s = Some a; hex_decode X t = Some b\<rbrakk> \<Longrightarrow> hex_decode X (s @ t) = Some (a @ b)"
    "hex_decode X (ref_hex_encode b) = Some b"
  using assms unfolding hex_laws_def by blast+

definition sha_laws :: "libs \<Rightarrow> bool" where
  "sha_laws X \<longleftrightarrow> (\<forall>b. length (sha256 X b) = 32)"

section \<open>A concrete instance\<close>

definition plain_libs :: libs where
  "plain_libs = \<lparr>hex_encode = ref_hex_encode, hex_decode = ref_hex_decode,
     sha256 = (\<lambda>b. take 32 (b @ replicate 32 0))\<rparr>"

lemma plain_libs_laws: "hex_laws plain_libs" "sha_laws plain_libs"
proof -
  have "length (concat (map hex_of_byte b)) = 2 * length b" for b
    by (induction b) (simp_all add: hex_of_byte_def)
  then show "hex_laws plain_libs"
    by (auto simp: hex_laws_def plain_libs_def ref_hex_round_trip ref_hex_decode_length ref_hex_decode_append)
      (simp_all add: ref_hex_encode_def)
  show "sha_laws plain_libs" by (simp add: sha_laws_def plain_libs_def min_def)
qed

end
