(* ===== verification/Coinbaser.thy ===== *)
theory Coinbaser
  imports Prelude
begin

text \<open>
  The V2 coinbaser blob of \<open>crates/datum-coinbaser/src/lib.rs\<close>: the parser with its
  cursor, running tally and output limit, the encoder, and what the parser guarantees
  about the generation outputs it returns.  Sums are those of a release build: \<open>u64\<close>
  addition wraps.
\<close>

unbundle bit_operations_syntax

definition MAX_OUTPUTS :: nat where "MAX_OUTPUTS = 512"
definition MIN_SCRIPT_LEN :: byte where "MIN_SCRIPT_LEN = 2"
definition MAX_SCRIPT_LEN :: byte where "MAX_SCRIPT_LEN = 64"

record CoinbaseOutput =
  value_sats :: u64
  script_pubkey :: bytes

definition sigops :: "CoinbaseOutput \<Rightarrow> u32" where
  "sigops out = (case script_pubkey out of b # _ \<Rightarrow> if b = 0x76 then 4 else 0 | [] \<Rightarrow> 0)"

record CoinbaserBlob =
  datum_id :: byte
  outputs :: "CoinbaseOutput list"

datatype CoinbaserError = BlobTooShort nat | Truncated nat nat nat | BadScriptLen nat byte

definition script_len_ok :: "byte \<Rightarrow> bool" where
  "script_len_ok slen \<longleftrightarrow> MIN_SCRIPT_LEN \<le> slen \<and> slen \<le> MAX_SCRIPT_LEN"

function parse_loop ::
  "bytes \<Rightarrow> u64 \<Rightarrow> nat \<Rightarrow> u64 \<Rightarrow> CoinbaseOutput list \<Rightarrow> CoinbaserError + CoinbaseOutput list" where
  "parse_loop blob coinbase_value idx tally outs =
     (if idx < length blob then
        let remaining = length blob - idx in
        if remaining < 9 then Err (Truncated (length outs) remaining 9)
        else let outval = le_word (subslice idx (idx + 8) blob); slen = blob ! (idx + 8); idx2 = idx + 9 in
        if \<not> script_len_ok slen then Err (BadScriptLen (length outs) slen)
        else if length blob - idx2 < unat slen
          then Err (Truncated (length outs) (length blob - idx2) (unat slen))
        else if coinbase_value < saturating_add outval tally then Ok outs
        else let outs2 = outs @ [\<lparr>value_sats = outval, script_pubkey = subslice idx2 (idx2 + unat slen) blob\<rparr>] in
        if MAX_OUTPUTS \<le> length outs2 then Ok outs2
        else parse_loop blob coinbase_value (idx2 + unat slen) (tally + outval) outs2
      else Ok outs)"
  by pat_completeness auto
termination by (relation "measure (\<lambda>(blob, cv, idx, tally, outs). length blob - idx)") auto

declare parse_loop.simps [simp del]

definition parse_v2_blob :: "bytes \<Rightarrow> u64 \<Rightarrow> CoinbaserError + CoinbaserBlob" where
  "parse_v2_blob blob coinbase_value =
     (if length blob < 9 then Err (BlobTooShort (length blob))
      else and_then (parse_loop blob coinbase_value 1 0 [])
             (\<lambda>outs. Ok \<lparr>datum_id = blob ! 0, outputs = outs\<rparr>))"

text \<open>\<open>u8::try_from(slen).unwrap_or(255)\<close>.\<close>

definition script_len_byte :: "bytes \<Rightarrow> byte" where
  "script_len_byte script = (if length script < 256 then of_nat (length script) else 255)"

fun encode_outputs :: "nat \<Rightarrow> CoinbaseOutput list \<Rightarrow> CoinbaserError + bytes" where
  "encode_outputs idx [] = Ok []"
| "encode_outputs idx (out # outs) =
     (let slen = script_len_byte (script_pubkey out) in
      if \<not> script_len_ok slen then Err (BadScriptLen idx slen)
      else and_then (encode_outputs (idx + 1) outs)
             (\<lambda>rest. Ok (le_bytes 8 (value_sats out) @ [slen] @ script_pubkey out @ rest)))"

definition encode_v2_blob :: "CoinbaserBlob \<Rightarrow> CoinbaserError + bytes" where
  "encode_v2_blob blob = and_then (encode_outputs 0 (outputs blob)) (\<lambda>rest. Ok (datum_id blob # rest))"

section \<open>What a parsed blob guarantees\<close>

definition total_sats :: "CoinbaseOutput list \<Rightarrow> nat" where
  "total_sats outs = sum_list (map (unat \<circ> value_sats) outs)"

definition output_ok :: "CoinbaseOutput \<Rightarrow> bool" where
  "output_ok out \<longleftrightarrow> 2 \<le> length (script_pubkey out) \<and> length (script_pubkey out) \<le> 64"

lemma total_sats_simps [simp]:
  "total_sats [] = 0" "total_sats (out # outs) = unat (value_sats out) + total_sats outs"
  "total_sats (xs @ ys) = total_sats xs + total_sats ys"
  by (simp_all add: total_sats_def)

lemma script_len_ok_unat: "script_len_ok b \<longleftrightarrow> 2 \<le> unat b \<and> unat b \<le> 64"
  by (simp add: script_len_ok_def MIN_SCRIPT_LEN_def MAX_SCRIPT_LEN_def word_le_nat_alt)

lemma saturating_add_le:
  assumes "\<not> cv < saturating_add a b" "cv \<noteq> - 1"
  shows "unat a + unat b \<le> unat (cv :: u64)" "unat (a + b) = unat a + unat b"
proof -
  have fits: "unat a + unat b < 2 ^ LENGTH(64)"
  proof (rule ccontr)
    assume "\<not> unat a + unat b < 2 ^ LENGTH(64)"
    then have "saturating_add a b = - 1" by (simp add: saturating_add_def)
    with assms show False by (metis not_less word_order.extremum_uniqueI)
  qed
  show "unat a + unat b \<le> unat cv"
    using assms(1) saturating_add_exact [OF fits] by (simp add: not_less word_le_nat_alt)
  show "unat (a + b) = unat a + unat b" using fits by (simp add: unat_add_lem [THEN iffD1])
qed

lemma parse_loop_ok:
  assumes "parse_loop blob cv idx tally outs = Ok res" "cv \<noteq> - 1"
    and "unat tally = total_sats outs" "total_sats outs \<le> unat cv"
    and "list_all output_ok outs" "length outs < MAX_OUTPUTS"
  shows "total_sats res \<le> unat cv \<and> list_all output_ok res \<and> length res \<le> MAX_OUTPUTS
    \<and> (\<exists>more. res = outs @ more)"
  using assms
proof (induction blob cv idx tally outs rule: parse_loop.induct)
  case (1 blob cv idx tally outs)
  show ?case
  proof (cases "idx < length blob")
    case False
    then show ?thesis using "1.prems" by (simp add: parse_loop.simps)
  next
    case True
    let ?v = "le_word (subslice idx (idx + 8) blob) :: u64"
    let ?slen = "blob ! (idx + 8)"
    let ?out = "\<lparr>value_sats = ?v, script_pubkey = subslice (idx + 9) (idx + 9 + unat ?slen) blob\<rparr>"
    note prem = "1.prems"(1)
    have run: "9 \<le> length blob - idx" "script_len_ok ?slen" "unat ?slen \<le> length blob - (idx + 9)"
      using prem True by (auto simp: parse_loop.simps [of blob] Let_def split: if_splits)
    show ?thesis
    proof (cases "cv < saturating_add ?v tally")
      case over: True
      then show ?thesis using "1.prems" True run by (simp add: parse_loop.simps [of blob] Let_def)
    next
      case fits: False
      have ok: "output_ok ?out"
        using run by (simp add: output_ok_def script_len_ok_unat min_def)
      have tot: "total_sats (outs @ [?out]) \<le> unat cv" "unat (tally + ?v) = total_sats (outs @ [?out])"
        using saturating_add_le [OF fits "1.prems"(2)] "1.prems"(3) by (simp_all add: add.commute)
      show ?thesis
      proof (cases "MAX_OUTPUTS \<le> length (outs @ [?out])")
        case full: True
        then have "res = outs @ [?out]"
          using prem True run fits by (simp add: parse_loop.simps [of blob] Let_def)
        then show ?thesis using tot ok "1.prems" by simp
      next
        case more: False
        then have step: "parse_loop blob cv (idx + 9 + unat ?slen) (tally + ?v) (outs @ [?out]) = Ok res"
          using prem True run fits by (simp add: parse_loop.simps [of blob cv idx] Let_def)
        have "total_sats res \<le> unat cv \<and> list_all output_ok res \<and> length res \<le> MAX_OUTPUTS
            \<and> (\<exists>more. res = (outs @ [?out]) @ more)"
          by (rule "1.IH" [OF True refl _ refl refl refl _ _ fits refl])
            (use run more step tot ok "1.prems"(2,5) in \<open>simp_all add: not_less not_le\<close>)
        then show ?thesis by auto
      qed
    qed
  qed
qed

text \<open>C37: A parsed coinbaser blob never spends more than the coinbase: its outputs sum to at
  most \<open>coinbase_value\<close> (for every cap below the largest \<open>u64\<close>), there are at most 512 of
  them, and every script has between 2 and 64 bytes.\<close>

theorem parsed_blob_within_coinbase:
  assumes "parse_v2_blob blob coinbase_value = Ok b" "coinbase_value \<noteq> - 1"
  shows "total_sats (outputs b) \<le> unat coinbase_value \<and> length (outputs b) \<le> MAX_OUTPUTS
    \<and> list_all output_ok (outputs b)"
proof -
  obtain outs where "parse_loop blob coinbase_value 1 0 [] = Ok outs" "b = \<lparr>datum_id = blob ! 0, outputs = outs\<rparr>"
    using assms(1) by (auto simp: parse_v2_blob_def and_then_Inr split: if_splits)
  then show ?thesis
    using parse_loop_ok [of blob coinbase_value 1 0 "[]" outs] assms(2) by (simp add: MAX_OUTPUTS_def)
qed

definition sample_blob :: CoinbaserBlob where
  "sample_blob = \<lparr>datum_id = 9, outputs = [\<lparr>value_sats = 60, script_pubkey = [0x76, 1]\<rparr>,
     \<lparr>value_sats = 50, script_pubkey = [0, 1, 2]\<rparr>]\<rparr>"

definition sample_wire :: bytes where
  "sample_wire = [9, 60, 0, 0, 0, 0, 0, 0, 0, 2, 0x76, 1, 50, 0, 0, 0, 0, 0, 0, 0, 3, 0, 1, 2]"

text \<open>The outputs that a budget and an output limit admit, in order, up to the first one that
  does not fit.\<close>

fun within_budget :: "nat \<Rightarrow> nat \<Rightarrow> CoinbaseOutput list \<Rightarrow> CoinbaseOutput list" where
  "within_budget 0 budget outs = []"
| "within_budget (Suc n) budget [] = []"
| "within_budget (Suc n) budget (out # outs) =
     (if unat (value_sats out) \<le> budget
      then out # within_budget n (budget - unat (value_sats out)) outs else [])"

lemma encode_outputs_Cons:
  "encode_outputs idx (out # outs) = Ok bs \<longleftrightarrow>
     (\<exists>rest. output_ok out \<and> encode_outputs (idx + 1) outs = Ok rest
       \<and> bs = le_bytes 8 (value_sats out) @ [of_nat (length (script_pubkey out))] @ script_pubkey out @ rest)"
proof -
  have b: "script_len_ok (script_len_byte s) \<longleftrightarrow> 2 \<le> length s \<and> length s \<le> 64" for s
    by (simp add: script_len_ok_unat script_len_byte_def unat_of_nat)
  have "output_ok out \<Longrightarrow> script_len_byte (script_pubkey out) = of_nat (length (script_pubkey out))"
    by (simp add: output_ok_def script_len_byte_def)
  then show ?thesis
    by (auto simp: Let_def b output_ok_def and_then_Inr)
qed


lemma parse_loop_encoded:
  assumes "encode_outputs i os = Ok enc" "cv \<noteq> - 1" "unat tally \<le> unat cv" "length outs + n = MAX_OUTPUTS" "0 < n"
  shows "parse_loop (pre @ enc) cv (length pre) tally outs = Ok (outs @ within_budget n (unat cv - unat tally) os)"
  using assms
proof (induction os arbitrary: i enc pre tally outs n)
  case Nil
  then show ?case by (cases n) (simp_all add: parse_loop.simps)
next
  case (Cons out os)
  from Cons.prems(1) obtain rest where ok: "output_ok out" and rest: "encode_outputs (i + 1) os = Ok rest"
    and enc: "enc = le_bytes 8 (value_sats out) @ [of_nat (length (script_pubkey out))] @ script_pubkey out @ rest"
    unfolding encode_outputs_Cons by blast
  let ?s = "script_pubkey out" and ?v = "value_sats out"
  define B where "B = pre @ enc"
  have sl: "unat (of_nat (length ?s) :: byte) = length ?s" "script_len_ok (of_nat (length ?s))"
    using ok by (simp_all add: output_ok_def unat_of_nat script_len_ok_unat)
  have v: "(le_word (subslice (length pre) (length pre + 8) B) :: u64) = ?v"
    by (simp add: B_def enc subslice_def le_word_le_bytes_full)
  have sb: "B ! (length pre + 8) = of_nat (length ?s)" by (simp add: B_def enc nth_append)
  have sc: "subslice (length pre + 9) (length pre + 9 + length ?s) B = ?s"
    by (simp add: B_def enc subslice_def)
  have out: "\<lparr>value_sats = ?v, script_pubkey = ?s\<rparr> = out" by simp
  have len: "length pre < length B" "\<not> length B - length pre < 9"
    "\<not> length B - (length pre + 9) < length ?s" by (simp_all add: B_def enc)
  obtain m where n: "n = Suc m" using Cons.prems(5) by (cases n) simp_all
  note step = parse_loop.simps [of B cv "length pre" tally outs] Let_def v sb sc sl out len if_True if_False not_True_eq_False not_False_eq_True
  have "parse_loop B cv (length pre) tally outs = Ok (outs @ within_budget n (unat cv - unat tally) (out # os))"
  proof (cases "cv < saturating_add ?v tally")
    case over: True
    have "\<not> unat ?v \<le> unat cv - unat tally"
    proof
      assume le: "unat ?v \<le> unat cv - unat tally"
      then have "unat ?v + unat tally \<le> unat cv" using Cons.prems(3) by simp
      moreover from this have "unat ?v + unat tally < 2 ^ LENGTH(64)"
        using unsigned_less [of cv, where 'a = nat] by simp
      ultimately show False
        using over saturating_add_exact [of ?v tally] by (simp add: word_less_nat_alt)
    qed
    then show ?thesis using over by (simp add: step n)
  next
    case fits: False
    note sum = saturating_add_le [OF fits Cons.prems(2)]
    have le: "unat ?v \<le> unat cv - unat tally" using sum(1) by simp
    have tally': "unat (tally + ?v) = unat tally + unat ?v" using sum(2) by (simp add: add.commute)
    show ?thesis
    proof (cases "MAX_OUTPUTS \<le> length (outs @ [out])")
      case full: True
      then have "m = 0" using Cons.prems(4) n by simp
      then show ?thesis using fits full le by (simp add: step n)
    next
      case more: False
      have "parse_loop ((pre @ le_bytes 8 ?v @ [of_nat (length ?s)] @ ?s) @ rest) cv
          (length (pre @ le_bytes 8 ?v @ [of_nat (length ?s) :: byte] @ ?s)) (tally + ?v) (outs @ [out])
        = Ok ((outs @ [out]) @ within_budget m (unat cv - unat (tally + ?v)) os)"
        by (rule Cons.IH [OF rest Cons.prems(2)])
          (use more n Cons.prems(4) sum tally' in \<open>simp_all add: add.commute\<close>)
      then have "parse_loop B cv (length pre + 9 + length ?s) (tally + ?v) (outs @ [out])
        = Ok ((outs @ [out]) @ within_budget m (unat cv - unat (tally + ?v)) os)"
        by (simp add: B_def enc ac_simps)
      then show ?thesis using fits more le by (simp add: step n tally' del: append_assoc)
    qed
  qed
  then show ?case by (simp only: B_def)
qed

text \<open>Parsing inverts encoding up to the coinbase budget: the wire form of a blob with at
  least one output parses to the same datum id and to the outputs, in order, that fit in the
  budget and in the limit of 512, stopping at the first output that does not fit.\<close>

theorem parse_encoded_blob:
  assumes "encode_v2_blob blob = Ok wire" "outputs blob \<noteq> []" "coinbase_value \<noteq> - 1"
  shows "parse_v2_blob wire coinbase_value =
    Ok (blob\<lparr>outputs := within_budget MAX_OUTPUTS (unat coinbase_value) (outputs blob)\<rparr>)"
proof -
  obtain enc where enc: "encode_outputs 0 (outputs blob) = Ok enc" "wire = datum_id blob # enc"
    using assms(1) by (auto simp: encode_v2_blob_def and_then_Inr)
  obtain out os where "outputs blob = out # os" using assms(2) by (cases "outputs blob") auto
  then have "8 < length wire" using enc by (auto simp: encode_outputs_Cons simp del: encode_outputs.simps)
  moreover have "parse_loop wire coinbase_value 1 0 [] =
      Ok (within_budget MAX_OUTPUTS (unat coinbase_value) (outputs blob))"
    using parse_loop_encoded [OF enc(1) assms(3), of 0 "[]" MAX_OUTPUTS "[datum_id blob]"] enc(2)
    by (simp add: MAX_OUTPUTS_def)
  ultimately show ?thesis by (simp add: parse_v2_blob_def enc(2))
qed

lemma within_budget_Cons:
  "within_budget n budget (out # outs) = (if n = 0 then [] else if unat (value_sats out) \<le> budget
      then out # within_budget (n - 1) (budget - unat (value_sats out)) outs else [])"
  "within_budget n budget [] = []"
  by (cases n; simp)+

lemma sample_encoded: "encode_v2_blob sample_blob = Ok sample_wire"
  by (simp add: encode_v2_blob_def sample_blob_def sample_wire_def le_bytes_def upt_rec
      script_len_byte_def script_len_ok_unat Let_def)

theorem parse_encoded_blob_witness:
  "parse_v2_blob sample_wire 100 = Ok (sample_blob\<lparr>outputs := [\<lparr>value_sats = 60, script_pubkey = [0x76, 1]\<rparr>]\<rparr>)"
  using parse_encoded_blob [OF sample_encoded, of 100]
  by (simp add: sample_blob_def MAX_OUTPUTS_def within_budget_Cons)

lemma sample_parsed:
  "parse_v2_blob sample_wire 100 = Ok (sample_blob\<lparr>outputs := [\<lparr>value_sats = 60, script_pubkey = [0x76, 1]\<rparr>]\<rparr>)"
proof -
  have "encode_outputs 0 (outputs sample_blob) = Ok (drop 1 sample_wire)"
    using sample_encoded by (auto simp: encode_v2_blob_def and_then_Inr sample_wire_def)
  from parse_loop_encoded [OF this, of 100 0 "[]" MAX_OUTPUTS "[9]"] show ?thesis
    by (simp add: parse_v2_blob_def sample_wire_def sample_blob_def MAX_OUTPUTS_def within_budget_Cons)
qed

theorem parsed_blob_within_coinbase_witness:
  "total_sats (outputs (sample_blob\<lparr>outputs := [\<lparr>value_sats = 60, script_pubkey = [0x76, 1]\<rparr>]\<rparr>)) \<le> unat (100 :: u64)"
  using parsed_blob_within_coinbase [OF sample_parsed] by simp

definition max_wire :: bytes where
  "max_wire = [0, 255, 255, 255, 255, 255, 255, 255, 255, 2, 0, 0, 255, 255, 255, 255, 255, 255, 255, 255, 2, 0, 0]"

text \<open>The cap fails at the largest \<open>u64\<close>: the guard adds with saturation, so for
  \<open>coinbase_value = u64::MAX\<close> no output is dropped, and a blob of two outputs of that value
  is accepted although its outputs sum to more than the coinbase value (the running tally
  wraps).\<close>

theorem saturated_cap_overspends:
  "\<exists>b. parse_v2_blob max_wire (- 1) = Ok b \<and> length (outputs b) = 2 \<and> unat (- 1 :: u64) < total_sats (outputs b)"
proof -
  have v: "le_word [255, 255, 255, 255, 255, 255, 255, 255] = (- 1 :: u64)" by simp
  have "parse_v2_blob max_wire (- 1) = Ok \<lparr>datum_id = 0, outputs = [\<lparr>value_sats = - 1, script_pubkey = [0, 0]\<rparr>,
     \<lparr>value_sats = - 1, script_pubkey = [0, 0]\<rparr>]\<rparr>"
    by (simp add: max_wire_def parse_v2_blob_def parse_loop.simps subslice_def Let_def script_len_ok_unat v MAX_OUTPUTS_def
        not_less del: le_word.simps)
  moreover have "0 < unat (- 1 :: u64)" by (simp add: unat_gt_0)
  ultimately show ?thesis by simp
qed

end
