(* ===== verification/Template.thy ===== *)
theory Template
  imports Libs Coinbaser
begin

text \<open>
  Block templates and the job state both protocols share:
  \<open>crates/datum-blocktemplates/src/lib.rs\<close> (the template and its puller loop) and
  \<open>template_state.rs\<close> (coinbase halves, scriptsig blocks, merkle branches, targets).
  Hex strings are HOL strings; tags are UTF-8 bytes.  \<open>u32\<close> sums wrap as in a release
  build.
\<close>

unbundle bit_operations_syntax

definition EXTRANONCE_PLACEHOLDER_LEN :: nat where "EXTRANONCE_PLACEHOLDER_LEN = 12"
definition ENPREFIX_LEN :: nat where "ENPREFIX_LEN = 2"

record TemplateTransaction =
  tt_data :: string
  tt_txid :: string
  tt_hash :: string
  tt_fee :: int
  tt_sigops :: u32
  tt_weight :: u32
  tt_depends :: "u32 list"

record Template =
  t_version :: u32
  previous_block_hash :: string
  bits :: string
  t_height :: u32
  t_coinbase_value :: u64
  curtime :: u64
  mintime :: u64
  sizelimit :: u64
  weightlimit :: u64
  sigop_limit :: u32
  default_witness_commitment :: "string option"
  transactions :: "TemplateTransaction list"
  long_poll_id :: "string option"
  t_target :: "string option"

record ScriptSigInputs =
  coinbase_tag_primary :: bytes
  coinbase_tag_secondary :: bytes
  coinbase_unique_id :: u16
  enprefix :: u16
  pot_placeholder :: byte

definition ascii :: "string \<Rightarrow> bytes" where "ascii s = map of_char s"

definition default_scriptsig :: ScriptSigInputs where
  "default_scriptsig = \<lparr>coinbase_tag_primary = ascii ''DATUM Gateway'',
     coinbase_tag_secondary = ascii ''DATUM User'', coinbase_unique_id = 4242, enprefix = 0,
     pot_placeholder = 0xFF\<rparr>"

record TemplateState =
  prev_hash :: bytes \<comment> \<open>\<open>[u8; 32]\<close>\<close>
  height :: u32
  nbits :: bytes \<comment> \<open>\<open>[u8; 4]\<close>\<close>
  min_ntime :: u32
  ts_coinbase_value :: u64
  coinbase_outputs :: "CoinbaseOutput list"
  coinb1 :: bytes
  coinb2 :: bytes
  merkle_branches :: "bytes list"
  version :: u32
  job_id_seed :: u64
  target_pot_index :: u16
  datum_coinbaser_id :: byte
  block_target :: bytes
  txn_count :: u32
  txn_total_weight :: u32
  txn_total_size :: u32
  txn_total_sigops :: u32
  txn_data_hex :: "string list"

section \<open>Targets and hash order\<close>

definition nbits_to_target_le :: "libs \<Rightarrow> string \<Rightarrow> bytes" where
  "nbits_to_target_le X nbits_hex =
     (let out = replicate 32 0 in
      case hex_decode X nbits_hex of
        None \<Rightarrow> out
      | Some bs \<Rightarrow>
          if length bs \<noteq> 4 then out
          else let nb = (be_word bs :: u32);
                   ex = unat (drop_bit 24 nb);
                   mantissa = nb AND 0x00FFFFFF
               in if \<not> (3 \<le> ex \<and> ex \<le> 32) then out
                  else let base = ex - 3 in
                    if 32 < base + 3 then out
                    else out[base := ucast (mantissa AND 0xFF),
                             base + 1 := ucast (drop_bit 8 mantissa AND 0xFF),
                             base + 2 := ucast (drop_bit 16 mantissa AND 0xFF)])"

text \<open>\<open>chunks_exact(n)\<close>: whole chunks, a shorter tail is left out.\<close>

function chunks_exact :: "nat \<Rightarrow> 'a list \<Rightarrow> 'a list list" where
  "chunks_exact n xs = (if n = 0 \<or> length xs < n then [] else take n xs # chunks_exact n (drop n xs))"
  by pat_completeness auto
termination by (relation "measure (\<lambda>(n, xs). length xs)") auto

declare chunks_exact.simps [simp del]

definition swap_prev_hash_for_stratum :: "libs \<Rightarrow> string \<Rightarrow> string" where
  "swap_prev_hash_for_stratum X hash_hex =
     (case hex_decode X hash_hex of
        None \<Rightarrow> hash_hex
      | Some bs \<Rightarrow> if length bs \<noteq> 32 then hash_hex
                   else hex_encode X (concat (map rev (chunks_exact 4 bs))))"

section \<open>Coinbase halves\<close>

definition push_varint :: "u64 \<Rightarrow> bytes" where
  "push_varint n =
     (if n < 0xFD then [ucast n]
      else if n \<le> 0xFFFF then 0xFD # le_bytes 2 (ucast n :: u16)
      else if n \<le> 0xFFFFFFFF then 0xFE # le_bytes 4 (ucast n :: u32)
      else 0xFF # le_bytes 8 n)"

definition serialize_output :: "CoinbaseOutput \<Rightarrow> bytes" where
  "serialize_output out = le_bytes 8 (value_sats out)
     @ push_varint (of_nat (length (script_pubkey out))) @ script_pubkey out"

definition build_outputs :: "libs \<Rightarrow> Template \<Rightarrow> CoinbaserBlob \<Rightarrow> bytes" where
  "build_outputs X template coinbaser =
     (let total_outputs = length (outputs coinbaser)
            + (if default_witness_commitment template \<noteq> None then 1 else 0)
      in push_varint (of_nat total_outputs)
         @ concat (map serialize_output (outputs coinbaser))
         @ (case default_witness_commitment template of
              None \<Rightarrow> []
            | Some commitment_hex \<Rightarrow>
                (case hex_decode X commitment_hex of
                   None \<Rightarrow> []
                 | Some commitment \<Rightarrow> le_bytes 8 (0 :: u64) @ push_varint (of_nat (length commitment)) @ commitment)))"

function significant_bytes :: "u32 \<Rightarrow> bytes" where
  "significant_bytes n = (if n = 0 then [] else ucast (n AND 0xFF) # significant_bytes (drop_bit 8 n))"
  by pat_completeness auto
termination
proof (relation "measure unat")
  fix n :: u32 assume "n \<noteq> 0"
  then have "unat n div 256 < unat n" by (intro div_less_dividend) (simp_all add: unat_gt_0)
  then show "(drop_bit 8 n, n) \<in> measure unat" by (simp only: in_measure unat_drop_bit) simp
qed simp

declare significant_bytes.simps [simp del]

definition bip34_height_script :: "u32 \<Rightarrow> bytes" where
  "bip34_height_script h =
     (let bs = (if h = 0 then [0] else significant_bytes h);
          bs = (if last bs AND 0x80 \<noteq> 0 then bs @ [0] else bs)
      in of_nat (length bs) # bs)"

definition tag_body :: "bytes \<Rightarrow> bytes \<Rightarrow> bytes" where
  "tag_body p s =
     (if p \<noteq> [] then p @ (if s = [] then [0x00] else [0x0F])
      else if s \<noteq> [] then [0x0F] else [])
     @ (if s \<noteq> [] then s @ [0x00] else [])"

definition build_tag_push_block :: "bytes \<Rightarrow> bytes \<Rightarrow> bytes" where
  "build_tag_push_block primary secondary =
     (let body = tag_body primary secondary in
      if body = [] then [0x01, 0x00]
      else let k = length body in
        (if k \<le> 75 then [of_nat k] else [0x4C, of_nat k]) @ body)"

definition build_uid_push_block :: "byte \<Rightarrow> u16 \<Rightarrow> bytes" where
  "build_uid_push_block pot unique_id =
     [0x03, pot, ucast (unique_id AND 0xFF), ucast (drop_bit 8 unique_id AND 0xFF)]"

definition scriptsig_head :: "Template \<Rightarrow> ScriptSigInputs \<Rightarrow> bytes" where
  "scriptsig_head template s = bip34_height_script (t_height template)
     @ build_tag_push_block (coinbase_tag_primary s) (coinbase_tag_secondary s)"

definition build_split_coinbase_bin :: "Template \<Rightarrow> ScriptSigInputs \<Rightarrow> bytes \<Rightarrow> bytes \<times> bytes \<times> u16" where
  "build_split_coinbase_bin template s outputs_blob =
     (let uid_block = build_uid_push_block (pot_placeholder s) (coinbase_unique_id s);
          scriptsig_len = length (bip34_height_script (t_height template))
            + length (build_tag_push_block (coinbase_tag_primary s) (coinbase_tag_secondary s))
            + length uid_block + 1 + ENPREFIX_LEN + EXTRANONCE_PLACEHOLDER_LEN;
          c1 = le_bytes 4 (1 :: u32) @ [0x01] @ replicate 32 0 @ le_bytes 4 (0xFFFFFFFF :: u32)
             @ push_varint (of_nat scriptsig_len)
             @ scriptsig_head template s;
          pot_index = of_nat (length c1 + 1);
          c1 = c1 @ uid_block @ [0x0E] @ le_bytes 2 (enprefix s);
          c2 = le_bytes 4 (0xFFFFFFFF :: u32) @ outputs_blob @ le_bytes 4 (0 :: u32)
      in (c1, c2, pot_index))"

section \<open>Merkle branches\<close>

definition double_sha256 :: "libs \<Rightarrow> bytes \<Rightarrow> bytes" where
  "double_sha256 X b = sha256 X (sha256 X b)"

text \<open>A display-order txid as an internal leaf; zero where it is not 32 bytes of hex.\<close>

definition txid_leaf :: "libs \<Rightarrow> string \<Rightarrow> bytes" where
  "txid_leaf X txid =
     (let b = rev (case hex_decode X txid of Some v \<Rightarrow> v | None \<Rightarrow> replicate 32 0)
      in if length b = 32 then b else replicate 32 0)"

definition next_merkle_level :: "libs \<Rightarrow> bytes list \<Rightarrow> nat \<Rightarrow> bytes list" where
  "next_merkle_level X current_level next_size =
     map (\<lambda>i. if i = 0 then replicate 32 0
              else let left = current_level ! (i * 2 - 1);
                       right = (if i * 2 < length current_level then current_level ! (i * 2)
                                else current_level ! (i * 2 - 1))
                   in double_sha256 X (left @ right))
         [0..<next_size]"

text \<open>The loop \<open>while effective_size > 1\<close>: the branch entries that it appends.\<close>

function merkle_rounds :: "libs \<Rightarrow> bytes list \<Rightarrow> nat \<Rightarrow> bytes list" where
  "merkle_rounds X current_level effective_size =
     (if effective_size > 1 then
        let padded_size = (if effective_size mod 2 \<noteq> 0 then effective_size + 1 else effective_size);
            next_size = padded_size div 2;
            next_level = next_merkle_level X current_level next_size
        in (if next_size > 1 then [next_level ! 1] else []) @ merkle_rounds X next_level next_size
      else [])"
  by pat_completeness auto
termination by (relation "measure (\<lambda>(X, l, n). n)") (auto split: if_splits)

declare merkle_rounds.simps [simp del]

definition build_merkle_branches :: "libs \<Rightarrow> Template \<Rightarrow> bytes list" where
  "build_merkle_branches X template =
     (if transactions template = [] then []
      else let current_level = map (\<lambda>t. txid_leaf X (tt_txid t)) (transactions template)
           in map rev (current_level ! 0 # merkle_rounds X current_level (length current_level + 1)))"

section \<open>The job state\<close>

definition exact_bytes :: "nat \<Rightarrow> bytes option \<Rightarrow> bytes option" where
  "exact_bytes n r = (case r of Some b \<Rightarrow> if length b = n then Some b else None | None \<Rightarrow> None)"

definition from_template_and_blob ::
  "libs \<Rightarrow> Template \<Rightarrow> CoinbaserBlob \<Rightarrow> ScriptSigInputs \<Rightarrow> u64 \<Rightarrow> TemplateState" where
  "from_template_and_blob X template coinbaser s seed =
     (let outputs_blob = build_outputs X template coinbaser;
          (c1, c2, pot_index) = build_split_coinbase_bin template s outputs_blob;
          branches = build_merkle_branches X template;
          nb = (case exact_bytes 4 (hex_decode X (bits template)) of Some b \<Rightarrow> b | None \<Rightarrow> replicate 4 0);
          ph = (case exact_bytes 32 (hex_decode X (previous_block_hash template)) of
                  Some b \<Rightarrow> rev b | None \<Rightarrow> replicate 32 0);
          bt = (case exact_bytes 32 (Option.bind (t_target template) (hex_decode X)) of
                  Some b \<Rightarrow> rev b | None \<Rightarrow> nbits_to_target_le X (bits template));
          txs = transactions template
      in \<lparr>prev_hash = ph, height = t_height template, nbits = nb,
          min_ntime = ucast (curtime template), ts_coinbase_value = t_coinbase_value template,
          coinbase_outputs = outputs coinbaser, coinb1 = c1, coinb2 = c2,
          merkle_branches = branches, version = t_version template, job_id_seed = seed,
          target_pot_index = pot_index, datum_coinbaser_id = datum_id coinbaser,
          block_target = bt, txn_count = of_nat (length txs),
          txn_total_weight = sum_list (map tt_weight txs),
          txn_total_size = sum_list (map (\<lambda>t. of_nat (length (tt_data t)) div 2) txs),
          txn_total_sigops = sum_list (map tt_sigops txs),
          txn_data_hex = map tt_data txs\<rparr>)"

section \<open>Reading a legacy coinbase transaction\<close>

text \<open>The transaction format as a reader of the wire sees it: compact sizes, outputs, and the
  single-input coinbase.\<close>

definition read_varint :: "bytes \<Rightarrow> (nat \<times> bytes) option" where
  "read_varint s =
     (case s of [] \<Rightarrow> None
      | b # r \<Rightarrow>
          if b < 0xFD then Some (unat b, r)
          else let n = (if b = 0xFD then 2 else if b = 0xFE then 4 else 8)
               in map_option (apfst le_nat) (read_exact n r))"

definition read_output :: "bytes \<Rightarrow> (CoinbaseOutput \<times> bytes) option" where
  "read_output s =
     Option.bind (read_exact 8 s) (\<lambda>(v, r). Option.bind (read_varint r) (\<lambda>(n, r).
     Option.bind (read_exact n r) (\<lambda>(script, r).
       Some (\<lparr>value_sats = le_word v, script_pubkey = script\<rparr>, r))))"

fun read_outputs :: "nat \<Rightarrow> bytes \<Rightarrow> (CoinbaseOutput list \<times> bytes) option" where
  "read_outputs 0 s = Some ([], s)"
| "read_outputs (Suc n) s = Option.bind (read_output s) (\<lambda>(out, r).
     Option.bind (read_outputs n r) (\<lambda>(outs, r). Some (out # outs, r)))"

text \<open>The scriptsig and the outputs of a well-formed one-input coinbase; None otherwise.\<close>

definition read_coinbase :: "bytes \<Rightarrow> (bytes \<times> CoinbaseOutput list) option" where
  "read_coinbase tx =
     Option.bind (read_exact 4 tx) (\<lambda>(ver, r). Option.bind (read_varint r) (\<lambda>(nin, r).
     Option.bind (read_exact 36 r) (\<lambda>(outpoint, r). Option.bind (read_varint r) (\<lambda>(n, r).
     Option.bind (read_exact n r) (\<lambda>(script, r). Option.bind (read_exact 4 r) (\<lambda>(sequence, r).
     Option.bind (read_varint r) (\<lambda>(nout, r). Option.bind (read_outputs nout r) (\<lambda>(outs, r).
       if ver = [1, 0, 0, 0] \<and> nin = 1 \<and> outpoint = replicate 32 0 @ [0xFF, 0xFF, 0xFF, 0xFF]
          \<and> sequence = [0xFF, 0xFF, 0xFF, 0xFF] \<and> r = [0, 0, 0, 0]
       then Some (script, outs) else None))))))))"

lemma read_push_varint: "read_varint (push_varint n @ rest) = Some (unat n, rest)"
proof -
  have u: "unat (ucast n :: byte) = unat n" if "n < 0xFD"
    using that by (simp add: word_less_nat_alt unsigned_ucast_eq take_bit_nat_eq_self_iff)
  have lt: "(ucast n :: byte) < 0xFD" if "n < 0xFD"
    using that u [OF that] by (simp add: word_less_nat_alt)
  have w2: "le_nat (le_bytes 2 (ucast n :: u16)) = unat n" if "n \<le> 0xFFFF"
    using that unat_ucast_fits [of n, where 'b = 16] by (simp add: le_nat_le_bytes word_le_nat_alt)
  have w4: "le_nat (le_bytes 4 (ucast n :: u32)) = unat n" if "n \<le> 0xFFFFFFFF"
    using that unat_ucast_fits [of n, where 'b = 32] by (simp add: le_nat_le_bytes word_le_nat_alt)
  have w8: "le_nat (le_bytes 8 n) = unat n"
    using unsigned_less [of n, where 'a = nat] by (simp add: le_nat_le_bytes)
  show ?thesis
    using u lt w2 w4 w8 by (auto simp: push_varint_def read_varint_def)
qed

lemma read_serialize_output:
  "length (script_pubkey out) < 2 ^ 64 \<Longrightarrow> read_output (serialize_output out @ rest) = Some (out, rest)"
  by (simp add: read_output_def serialize_output_def read_push_varint le_word_le_bytes_full unat_of_nat)

lemma read_serialize_outputs:
  "\<forall>out \<in> set outs. length (script_pubkey out) < 2 ^ 64 \<Longrightarrow>
     read_outputs (length outs) (concat (map serialize_output outs) @ rest) = Some (outs, rest)"
  by (induction outs) (simp_all add: read_serialize_output)

section \<open>The two halves make one transaction\<close>

definition commitment_output :: "libs \<Rightarrow> Template \<Rightarrow> CoinbaseOutput list" where
  "commitment_output X t = (case Option.bind (default_witness_commitment t) (hex_decode X) of
     None \<Rightarrow> [] | Some c \<Rightarrow> [\<lparr>value_sats = 0, script_pubkey = c\<rparr>])"

definition full_script :: "Template \<Rightarrow> ScriptSigInputs \<Rightarrow> bytes \<Rightarrow> bytes" where
  "full_script t s extranonce = scriptsig_head t s
     @ build_uid_push_block (pot_placeholder s) (coinbase_unique_id s) @ [0x0E] @ le_bytes 2 (enprefix s) @ extranonce"

definition commitment_decodes :: "libs \<Rightarrow> Template \<Rightarrow> bool" where
  "commitment_decodes X t = (case default_witness_commitment t of None \<Rightarrow> True | Some h \<Rightarrow> hex_decode X h \<noteq> None)"

lemma build_outputs_serialized:
  assumes "commitment_decodes X t"
  shows "build_outputs X t b = push_varint (of_nat (length (outputs b @ commitment_output X t)))
     @ concat (map serialize_output (outputs b @ commitment_output X t))"
  using assms
  by (cases "default_witness_commitment t")
    (auto simp: build_outputs_def commitment_output_def serialize_output_def commitment_decodes_def Let_def add.commute)

definition inputs_ok :: "Template \<Rightarrow> ScriptSigInputs \<Rightarrow> bool" where
  "inputs_ok t s \<longleftrightarrow> length (coinbase_tag_primary s) + length (coinbase_tag_secondary s) < 60000"

definition blob_ok :: "libs \<Rightarrow> Template \<Rightarrow> CoinbaserBlob \<Rightarrow> bool" where
  "blob_ok X t b \<longleftrightarrow> commitment_decodes X t \<and> length (outputs b) < 2 ^ 32
     \<and> (\<forall>out \<in> set (outputs b @ commitment_output X t). length (script_pubkey out) < 2 ^ 64)"

lemma significant_bytes_length: "unat n < 256 ^ k \<Longrightarrow> length (significant_bytes n) \<le> k"
proof (induction k arbitrary: n)
  case 0
  then have "n = 0" by (simp add: unat_eq_zero)
  then show ?case by (simp add: significant_bytes.simps)
next
  case (Suc k)
  have "unat (drop_bit 8 n) < 256 ^ k" using Suc.prems by (simp only: unat_drop_bit) (simp add: less_mult_imp_div_less mult.commute)
  then show ?case using Suc.IH by (subst significant_bytes.simps) simp
qed

lemma bip34_length: "length (bip34_height_script h) \<le> 6"
proof -
  have "unat h < 256 ^ 4" using unsigned_less [of h, where 'a = nat] by simp
  then have "length (significant_bytes h) \<le> 4" by (rule significant_bytes_length)
  then show ?thesis by (simp add: bip34_height_script_def Let_def)
qed

lemma tag_block_length: "length (build_tag_push_block p s) \<le> length p + length s + 4"
  by (simp add: build_tag_push_block_def tag_body_def Let_def)

lemma split_coinbase_reads:
  assumes "inputs_ok t s" "blob_ok X t b" "length extranonce = EXTRANONCE_PLACEHOLDER_LEN"
    and "build_split_coinbase_bin t s (build_outputs X t b) = (c1, c2, pot)"
  shows "read_coinbase (c1 @ extranonce @ c2)
    = Some (full_script t s extranonce, outputs b @ commitment_output X t)"
proof -
  let ?n = "length (bip34_height_script (t_height t))
      + length (build_tag_push_block (coinbase_tag_primary s) (coinbase_tag_secondary s)) + 4 + 1 + 2 + 12"
  let ?outs = "outputs b @ commitment_output X t"
  have small: "?n < 2 ^ 64" "length ?outs < 2 ^ 64"
    using assms(1,2) bip34_length [of "t_height t"]
      tag_block_length [of "coinbase_tag_primary s" "coinbase_tag_secondary s"]
    by (auto simp: inputs_ok_def blob_ok_def commitment_output_def split: option.splits)
  have lits: "le_bytes 4 (1 :: u32) = [1, 0, 0, 0]" "le_bytes 4 (0xFFFFFFFF :: u32) = [0xFF, 0xFF, 0xFF, 0xFF]"
    "le_bytes 4 (0 :: u32) = [0, 0, 0, 0]" "push_varint 1 = [1]"
    by (simp_all add: le_bytes_def upt_rec push_varint_def)
  have len: "length (full_script t s extranonce) = ?n"
    using assms(3) by (simp add: full_script_def scriptsig_head_def build_uid_push_block_def EXTRANONCE_PLACEHOLDER_LEN_def)
  have tx: "c1 @ extranonce @ c2 = [1, 0, 0, 0] @ push_varint 1 @ (replicate 32 0 @ [0xFF, 0xFF, 0xFF, 0xFF])
      @ push_varint (of_nat ?n) @ full_script t s extranonce @ [0xFF, 0xFF, 0xFF, 0xFF]
      @ push_varint (of_nat (length ?outs)) @ concat (map serialize_output ?outs) @ [0, 0, 0, 0]"
    using assms(4) build_outputs_serialized [of X t b] assms(2)
    by (auto simp add: build_split_coinbase_bin_def full_script_def Let_def blob_ok_def lits
        build_uid_push_block_def ENPREFIX_LEN_def EXTRANONCE_PLACEHOLDER_LEN_def)
  define V Q Z :: bytes where defs1: "V = [1, 0, 0, 0]" "Q = [0xFF, 0xFF, 0xFF, 0xFF]" "Z = [0, 0, 0, 0]"
  define P :: bytes where "P = replicate 32 0 @ Q"
  note defs = defs1 this
  define n script outs where d2: "n = ?n" "script = full_script t s extranonce" "outs = ?outs"
  have n: "n < 2 ^ 64" "length outs < 2 ^ 64" using small by (simp_all only: d2)
  have l: "length V = 4" "length P = 36" "length Q = 4" "length script = n"
    using len by (simp_all add: defs d2)
  have u: "unat (of_nat n :: u64) = n" "unat (of_nat (length outs) :: u64) = length outs"
    using n by (simp_all add: unat_of_nat)
  have outs: "read_outputs (length outs) (concat (map serialize_output outs) @ Z) = Some (outs, Z)"
    using assms(2) by (intro read_serialize_outputs) (simp add: d2 blob_ok_def)
  show ?thesis
    unfolding tx defs [symmetric] d2 [symmetric] read_coinbase_def
    by (simp add: read_push_varint l u outs)
qed

text \<open>C8: The two coinbase halves are one valid transaction that pays exactly the coinbaser:
  for every twelve-byte extranonce, \<open>coinb1 @ extranonce @ coinb2\<close> reads as a legacy coinbase
  with a scriptsig of the declared length that ends in the extranonce, and whose outputs are the
  coinbaser's outputs in order followed by the witness commitment with value 0; the witness commitment
  is hex, the tags have fewer than 60000 bytes, and the outputs fit their counts.\<close>

theorem coinbase_pays_coinbaser:
  assumes "inputs_ok t s" "blob_ok X t b" "length extranonce = EXTRANONCE_PLACEHOLDER_LEN"
    and "build_split_coinbase_bin t s (build_outputs X t b) = (c1, c2, pot)"
  shows "read_coinbase (c1 @ extranonce @ c2)
    = Some (full_script t s extranonce, outputs b @ commitment_output X t)"
  using assms by (rule split_coinbase_reads)

definition sample_template :: Template where
  "sample_template = \<lparr>t_version = 0x20000000, previous_block_hash = replicate 64 CHR ''0'', bits = ''1d00ffff'',
     t_height = 800000, t_coinbase_value = 312500000, curtime = 1700000000, mintime = 1699999000,
     sizelimit = 4000000, weightlimit = 4000000, sigop_limit = 80000,
     default_witness_commitment = None, transactions = [], long_poll_id = None, t_target = None\<rparr>"

theorem coinbase_pays_coinbaser_witness:
  "\<exists>c1 c2 pot. build_split_coinbase_bin sample_template default_scriptsig (build_outputs plain_libs sample_template sample_blob) = (c1, c2, pot)
    \<and> read_coinbase (c1 @ replicate 12 7 @ c2)
      = Some (full_script sample_template default_scriptsig (replicate 12 7), outputs sample_blob)"
proof -
  obtain c1 c2 pot where b: "build_split_coinbase_bin sample_template default_scriptsig
      (build_outputs plain_libs sample_template sample_blob) = (c1, c2, pot)"
    by (metis prod_cases3)
  have "inputs_ok sample_template default_scriptsig" "blob_ok plain_libs sample_template sample_blob"
    by (simp_all add: inputs_ok_def default_scriptsig_def ascii_def blob_ok_def commitment_decodes_def
        sample_template_def sample_blob_def commitment_output_def)
  from coinbase_pays_coinbaser [OF this _ b] show ?thesis
    using b by (simp add: EXTRANONCE_PLACEHOLDER_LEN_def commitment_output_def sample_template_def)
qed

section \<open>The PoT byte\<close>

lemma coinb1_layout:
  assumes "build_split_coinbase_bin t s outs = (c1, c2, pot)" "inputs_ok t s"
  shows "\<exists>pre. c1 = pre @ 0x03 # pot_placeholder s # [ucast (coinbase_unique_id s AND 0xFF),
       ucast (drop_bit 8 (coinbase_unique_id s) AND 0xFF)] @ [0x0E] @ le_bytes 2 (enprefix s)
     \<and> unat pot = length pre + 1
     \<and> (\<forall>p. build_split_coinbase_bin t (s\<lparr>pot_placeholder := p\<rparr>) outs
          = (pre @ 0x03 # p # [ucast (coinbase_unique_id s AND 0xFF),
               ucast (drop_bit 8 (coinbase_unique_id s) AND 0xFF)] @ [0x0E] @ le_bytes 2 (enprefix s), c2, pot))"
proof -
  define vb where "vb = push_varint (of_nat (length (bip34_height_script (t_height t))
            + length (build_tag_push_block (coinbase_tag_primary s) (coinbase_tag_secondary s)) + 4 + 1 + 2 + 12))"
  define pre where "pre = le_bytes 4 (1 :: u32) @ [0x01] @ replicate 32 0 @ le_bytes 4 (0xFFFFFFFF :: u32)
     @ vb @ scriptsig_head t s"
  have "length vb \<le> 9" by (simp add: vb_def push_varint_def)
  then have "length pre + 1 < 2 ^ 16"
    using assms(2) bip34_length [of "t_height t"]
      tag_block_length [of "coinbase_tag_primary s" "coinbase_tag_secondary s"]
    by (simp add: pre_def inputs_ok_def scriptsig_head_def)
  then have u: "unat (of_nat (length pre + 1) :: u16) = length pre + 1"
    by (simp only: unat_of_nat) simp
  have b: "build_split_coinbase_bin t (s\<lparr>pot_placeholder := p\<rparr>) outs
     = (pre @ 0x03 # p # [ucast (coinbase_unique_id s AND 0xFF),
               ucast (drop_bit 8 (coinbase_unique_id s) AND 0xFF)] @ [0x0E] @ le_bytes 2 (enprefix s),
        le_bytes 4 (0xFFFFFFFF :: u32) @ outs @ le_bytes 4 (0 :: u32), of_nat (length pre + 1))" for p
    unfolding pre_def vb_def
    by (simp add: build_split_coinbase_bin_def build_uid_push_block_def Let_def ENPREFIX_LEN_def
        EXTRANONCE_PLACEHOLDER_LEN_def scriptsig_head_def)
  have "s\<lparr>pot_placeholder := pot_placeholder s\<rparr> = s" by simp
  then show ?thesis
    using assms(1) b [of "pot_placeholder s"] b u by (intro exI [of _ pre]) auto
qed

text \<open>The PoT byte has one place: \<open>target_pot_index\<close> is inside \<open>coinb1\<close>, holds the
  placeholder, and overwriting that one byte gives exactly the \<open>coinb1\<close> that would have been
  built with that byte as placeholder, with the same \<open>coinb2\<close> and index.\<close>

theorem pot_patch_is_rebuild:
  assumes "build_split_coinbase_bin t s outs = (c1, c2, pot)" "inputs_ok t s"
  shows "unat pot < length c1 \<and> c1 ! unat pot = pot_placeholder s \<and>
    build_split_coinbase_bin t (s\<lparr>pot_placeholder := p\<rparr>) outs = (c1[unat pot := p], c2, pot)"
  using coinb1_layout [OF assms] by (auto simp: nth_append list_update_append)

theorem pot_patch_is_rebuild_witness:
  "\<exists>c1 c2 pot. build_split_coinbase_bin sample_template default_scriptsig [] = (c1, c2, pot) \<and>
    build_split_coinbase_bin sample_template (default_scriptsig\<lparr>pot_placeholder := 5\<rparr>) [] = (c1[unat pot := 5], c2, pot)"
proof -
  obtain c1 c2 pot where b: "build_split_coinbase_bin sample_template default_scriptsig [] = (c1, c2, pot)"
    by (metis prod_cases3)
  have "inputs_ok sample_template default_scriptsig"
    by (simp add: inputs_ok_def default_scriptsig_def ascii_def)
  from pot_patch_is_rebuild [OF b this, of 5] b show ?thesis by blast
qed

section \<open>The BIP34 height\<close>

lemma significant_bytes_value: "le_nat (significant_bytes n) = unat n"
proof (induction n rule: significant_bytes.induct)
  case (1 n)
  show ?case
  proof (cases "n = 0")
    case False
    have "unat (ucast (n AND 0xFF) :: byte) = unat n mod 256"
    proof -
      have "n AND 0xFF = take_bit 8 n" by (simp add: take_bit_eq_mask mask_eq_exp_minus_1)
      then have "unat (n AND 0xFF) = unat n mod 256" by (simp only: unat_take_bit_word) simp
      then show ?thesis by (subst unat_ucast_fits) simp_all
    qed
    moreover have "unat (drop_bit 8 n) = unat n div 256" by (simp only: unat_drop_bit) simp
    ultimately show ?thesis using 1 False by (subst significant_bytes.simps) simp
  qed (simp add: significant_bytes.simps)
qed

lemma significant_bytes_last: "n \<noteq> 0 \<Longrightarrow> significant_bytes n \<noteq> [] \<and> last (significant_bytes n) \<noteq> 0"
proof (induction n rule: significant_bytes.induct)
  case (1 n)
  have eq: "significant_bytes n = ucast (n AND 0xFF) # significant_bytes (drop_bit 8 n)"
    using 1(2) by (subst significant_bytes.simps) simp
  show ?case
  proof (cases "drop_bit 8 n = 0")
    case True
    have "le_nat (significant_bytes n) \<noteq> 0" using 1(2) by (simp add: significant_bytes_value unat_eq_zero)
    then show ?thesis using True unfolding eq by (auto simp: significant_bytes.simps [of 0])
  next
    case False
    then show ?thesis using 1 unfolding eq by simp
  qed
qed

lemma sign_bit_byte: "(b :: byte) AND 0x80 \<noteq> 0 \<longleftrightarrow> 128 \<le> unat b"
proof -
  have k7: "k < 8 \<and> 7 \<le> k \<longleftrightarrow> k = 7" for k :: nat by arith
  have m: "bit (0x80 :: byte) k \<longleftrightarrow> k = 7" for k
  proof -
    have "(0x80 :: byte) = push_bit 7 1" by simp
    then have "bit (0x80 :: byte) k \<longleftrightarrow> k < 8 \<and> 7 \<le> k \<and> k - 7 = 0"
      by (simp only: bit_push_bit_iff bit_1_iff possible_bit_word) auto
    then show ?thesis by auto
  qed
  have z: "w = 0 \<longleftrightarrow> (\<forall>k. \<not> bit w k)" for w :: byte by (auto intro!: bit_eqI)
  have "bit (b AND 0x80) k \<longleftrightarrow> k = 7 \<and> bit b 7" for k by (auto simp only: bit_and_iff m)
  then have "b AND 0x80 \<noteq> 0 \<longleftrightarrow> bit b 7" unfolding z by auto
  also have "\<dots> \<longleftrightarrow> \<not> unat b < 2 ^ 7"
  proof -
    have "bit b k \<Longrightarrow> 7 \<le> k \<Longrightarrow> k = 7" for k using k7 [of k] bit_imp_le_length [of b k] by simp
    then show ?thesis unfolding unat_lt_iff by blast
  qed
  finally show ?thesis by (simp add: not_less)
qed

definition height_bytes :: "u32 \<Rightarrow> bytes" where
  "height_bytes h = (if h = 0 then [0] else significant_bytes h)"

lemma height_bytes_props: "le_nat (height_bytes h) = unat h" "height_bytes h \<noteq> []"
    "1 \<le> length (height_bytes h)" "length (height_bytes h) \<le> 4"
proof -
  have "unat h < 256 ^ 4" using unsigned_less [of h, where 'a = nat] by simp
  then show "length (height_bytes h) \<le> 4" using significant_bytes_length [of h 4] by (simp add: height_bytes_def)
  show "le_nat (height_bytes h) = unat h" by (simp add: height_bytes_def significant_bytes_value)
  show "height_bytes h \<noteq> []" by (simp add: height_bytes_def significant_bytes_last)
  then show "1 \<le> length (height_bytes h)" by (cases "height_bytes h") simp_all
qed

text \<open>The BIP34 height push is a well-formed positive script number: its first byte is the
  length of the rest (at most five bytes), the rest denotes the height in little-endian order,
  its last byte has no sign bit, and it is minimal: the last byte is zero only for height zero
  or where the byte before it would have carried the sign.\<close>

theorem bip34_script_number:
  "\<exists>bs. bip34_height_script h = of_nat (length bs) # bs \<and> 1 \<le> length bs \<and> length bs \<le> 5
     \<and> le_nat bs = unat h \<and> unat (last bs) < 128
     \<and> (h = 0 \<or> 0 < unat (last bs) \<or> 128 \<le> unat (last (butlast bs)))"
proof -
  let ?b = "height_bytes h"
  let ?bs = "if last ?b AND 0x80 \<noteq> 0 then ?b @ [0] else ?b"
  note p = height_bytes_props [of h]
  have s: "bip34_height_script h = of_nat (length ?bs) # ?bs"
    by (simp add: bip34_height_script_def Let_def height_bytes_def [symmetric])
  have last0: "last ?b = 0 \<longleftrightarrow> h = 0"
    using significant_bytes_last [of h] by (auto simp: height_bytes_def)
  have v: "le_nat ?bs = unat h" using p by (simp add: le_nat_append)
  have b0: "128 \<le> unat (last ?b) \<Longrightarrow> h \<noteq> 0" using last0 by auto
  show ?thesis
  proof (cases "128 \<le> unat (last ?b)")
    case True
    then have bs: "?bs = ?b @ [0]" by (simp add: sign_bit_byte)
    show ?thesis
      by (rule exI [of _ "?b @ [0]"]) (use s v p True b0 in \<open>simp add: bs\<close>)
  next
    case False
    then have bs: "?bs = ?b" by (simp add: sign_bit_byte)
    have "h = 0 \<or> 0 < unat (last ?b)" using last0 by (simp add: unat_gt_0)
    then show ?thesis
      by (intro exI [of _ ?b]) (use s v p False in \<open>auto simp: bs\<close>)
  qed
qed

section \<open>Merkle paths\<close>

text \<open>The Merkle root of a block: pair the level up, doubling an odd last entry.\<close>

fun pair_level :: "libs \<Rightarrow> bytes list \<Rightarrow> bytes list" where
  "pair_level X [] = []"
| "pair_level X [a] = [double_sha256 X (a @ a)]"
| "pair_level X (a # b # r) = double_sha256 X (a @ b) # pair_level X r"

lemma pair_level_length: "length (pair_level X ls) = (length ls + 1) div 2"
  by (induction X ls rule: pair_level.induct) auto

function merkle_root :: "libs \<Rightarrow> bytes list \<Rightarrow> bytes" where
  "merkle_root X ls = (if length ls \<le> 1 then hd ls else merkle_root X (pair_level X ls))"
  by pat_completeness auto
termination by (relation "measure (\<lambda>(X, l). length l)") (auto simp: pair_level_length)

declare merkle_root.simps [simp del]

text \<open>The path of leaf 0: its sibling on every level.\<close>

function leaf0_path :: "libs \<Rightarrow> bytes list \<Rightarrow> bytes list" where
  "leaf0_path X ls = (if length ls \<le> 1 then [] else ls ! 1 # leaf0_path X (pair_level X ls))"
  by pat_completeness auto
termination by (relation "measure (\<lambda>(X, l). length l)") (auto simp: pair_level_length)

declare leaf0_path.simps [simp del]

definition climb :: "libs \<Rightarrow> bytes \<Rightarrow> bytes list \<Rightarrow> bytes" where
  "climb X leaf path = foldl (\<lambda>h b. double_sha256 X (h @ b)) leaf path"

lemma climb_leaf0: "ls \<noteq> [] \<Longrightarrow> climb X (hd ls) (leaf0_path X ls) = merkle_root X ls"
proof (induction X ls rule: leaf0_path.induct)
  case (1 X ls)
  show ?case
  proof (cases "length ls \<le> 1")
    case True
    then show ?thesis by (simp add: leaf0_path.simps merkle_root.simps climb_def)
  next
    case False
    then obtain a b r where ls: "ls = a # b # r" by (cases ls; cases "tl ls") auto
    have "climb X (hd (pair_level X ls)) (leaf0_path X (pair_level X ls)) = merkle_root X (pair_level X ls)"
      using 1 False by (simp add: ls)
    then show ?thesis using False
      by (simp add: leaf0_path.simps [of X "a # b # r"] merkle_root.simps [of X "a # b # r"] climb_def ls)
  qed
qed

definition tx_leaves :: "libs \<Rightarrow> Template \<Rightarrow> bytes list" where
  "tx_leaves X t = map (\<lambda>tx. txid_leaf X (tt_txid tx)) (transactions t)"

lemma merkle_1: "n = 2 \<Longrightarrow> merkle_rounds X [a] n = []"
  by (simp add: merkle_rounds.simps next_merkle_level_def)

lemma merkle_2: "n = 3 \<Longrightarrow> merkle_rounds X [a, b] n = [double_sha256 X (b @ b)]"
  by (simp add: merkle_rounds.simps next_merkle_level_def)

lemma merkle_3: "n = 4 \<Longrightarrow> merkle_rounds X [a, b, c] n = [double_sha256 X (b @ c)]"
  by (simp add: merkle_rounds.simps next_merkle_level_def upt_rec)

lemma merkle_4: "n = 5 \<Longrightarrow> merkle_rounds X [a, b, c, d] n =
   [double_sha256 X (b @ c), double_sha256 X (double_sha256 X (b @ c) @ double_sha256 X (d @ d))]"
  by (simp add: merkle_rounds.simps next_merkle_level_def upt_rec)

lemma build_merkle_leaves:
  "map rev (build_merkle_branches X t) =
     (if tx_leaves X t = [] then [] else tx_leaves X t ! 0 # merkle_rounds X (tx_leaves X t) (length (tx_leaves X t) + 1))"
  by (simp add: build_merkle_branches_def tx_leaves_def Let_def o_def)

lemma small_branches:
  assumes "length (transactions t) \<le> 3"
  shows "climb X coinbase (map rev (build_merkle_branches X t)) = merkle_root X (coinbase # tx_leaves X t)"
proof -
  let ?l = "tx_leaves X t"
  have path: "climb X coinbase (leaf0_path X (coinbase # ?l)) = merkle_root X (coinbase # ?l)"
    using climb_leaf0 [of "coinbase # ?l" X] by simp
  have "length ?l \<le> 3" using assms by (simp add: tx_leaves_def)
  then consider "?l = []" | a where "?l = [a]" | a b where "?l = [a, b]" | a b c where "?l = [a, b, c]"
    by (cases ?l; cases "tl ?l"; cases "tl (tl ?l)"; cases "tl (tl (tl ?l))") auto
  then have "map rev (build_merkle_branches X t) = leaf0_path X (coinbase # ?l)"
    by cases (simp_all add: build_merkle_leaves leaf0_path.simps merkle_1 merkle_2 merkle_3)
  with path show ?thesis by simp
qed

text \<open>With at most three transactions the branches are right: climbing from any coinbase
  hash along the branches (in internal byte order) gives the Merkle root of the coinbase
  followed by the template's transactions.\<close>

theorem merkle_branches_up_to_three:
  assumes "length (transactions t) \<le> 3"
  shows "climb X coinbase (map rev (build_merkle_branches X t)) = merkle_root X (coinbase # tx_leaves X t)"
  using assms by (rule small_branches)

text \<open>From four transactions on the branches are wrong: the rounds after the first keep a
  placeholder at index 0 of the level but still read the children of node i at 2i-1 and 2i, so
  with four transactions the third branch entry combines the nodes of the wrong subtree, and
  the branches are the coinbase's path exactly if SHA-256d collides on those two inputs.\<close>

theorem merkle_branches_four_wrong:
  assumes "tx_leaves X t = [a, b, c, d]"
  shows "map rev (build_merkle_branches X t) = leaf0_path X (coinbase # tx_leaves X t) \<longleftrightarrow>
    double_sha256 X (double_sha256 X (b @ c) @ double_sha256 X (d @ d)) =
    double_sha256 X (double_sha256 X (d @ d) @ double_sha256 X (d @ d))"
  by (simp add: assms build_merkle_leaves merkle_4 leaf0_path.simps)

definition sample_tx :: "char \<Rightarrow> TemplateTransaction" where
  "sample_tx c = \<lparr>tt_data = ''00'', tt_txid = replicate 64 c, tt_hash = [], tt_fee = 0, tt_sigops = 0,
     tt_weight = 4, tt_depends = []\<rparr>"

definition four_txs :: Template where
  "four_txs = sample_template\<lparr>transactions := map sample_tx ''1234''\<rparr>"

lemma sample_txid: "txid_leaf plain_libs (replicate 64 c) = replicate 32 b" if
    "ref_hex_decode [c, c] = Some [b]"
proof -
  have "ref_hex_decode (replicate (2 * n) c) = Some (replicate n b)" for n
    using that by (induction n) (auto split: option.splits)
  from this [of 32] show ?thesis by (simp add: txid_leaf_def plain_libs_def)
qed

theorem merkle_branches_up_to_three_witness:
  "climb plain_libs (replicate 32 9) (map rev (build_merkle_branches plain_libs (four_txs\<lparr>transactions := map sample_tx ''12''\<rparr>)))
   = merkle_root plain_libs (replicate 32 9 # tx_leaves plain_libs (four_txs\<lparr>transactions := map sample_tx ''12''\<rparr>))"
  by (rule merkle_branches_up_to_three) simp

theorem merkle_branches_four_wrong_witness:
  "map rev (build_merkle_branches plain_libs four_txs) \<noteq> leaf0_path plain_libs (replicate 32 9 # tx_leaves plain_libs four_txs)"
proof -
  have l: "tx_leaves plain_libs four_txs = [replicate 32 0x11, replicate 32 0x22, replicate 32 0x33, replicate 32 0x44]"
    by (simp add: tx_leaves_def four_txs_def sample_tx_def)
      (intro conjI sample_txid; simp add: digit_value_def hex_digits_def)
  show ?thesis
    unfolding merkle_branches_four_wrong [OF l]
    by (simp add: double_sha256_def plain_libs_def)
qed

section \<open>Compact targets\<close>

lemma le_nat_zeros [simp]: "le_nat (replicate n 0) = 0"
  by (induction n) simp_all

lemma mantissa_bytes:
  "ucast ((w AND 0x00FFFFFF) AND 0xFF) = le_bytes 4 (w :: u32) ! 0"
  "ucast (drop_bit 8 (w AND 0x00FFFFFF) AND 0xFF) = le_bytes 4 w ! 1"
  "ucast (drop_bit 16 (w AND 0x00FFFFFF) AND 0xFF) = le_bytes 4 w ! 2"
proof -
  have m: "(0xFF :: u32) = mask 8" "(0x00FFFFFF :: u32) = mask 24" by (simp_all add: mask_eq_exp_minus_1)
  show "ucast ((w AND 0x00FFFFFF) AND 0xFF) = le_bytes 4 (w :: u32) ! 0"
    "ucast (drop_bit 8 (w AND 0x00FFFFFF) AND 0xFF) = le_bytes 4 w ! 1"
    "ucast (drop_bit 16 (w AND 0x00FFFFFF) AND 0xFF) = le_bytes 4 w ! 2"
    unfolding m by (rule bit_word_eqI, auto simp: bit_simps)+
qed

lemma top_byte: "unat (drop_bit 24 w) = unat (le_bytes 4 (w :: u32) ! 3)"
proof -
  have "unat (drop_bit 24 w) < 256"
    using unsigned_less [of w, where 'a = nat] by (simp only: unat_drop_bit) simp
  then show ?thesis by (simp add: unat_ucast_fits)
qed

text \<open>Compact targets are decoded exactly: for a four-byte \<open>nbits\<close> with exponent byte e
  and three mantissa bytes, the 32-byte little-endian target denotes the mantissa times
  256^(e-3) when e is between 3 and 32, and is zero otherwise.\<close>

theorem nbits_target_value:
  assumes "hex_decode X s = Some [e, m2, m1, m0]"
  shows "length (nbits_to_target_le X s) = 32 \<and> le_nat (nbits_to_target_le X s) =
    (if 3 \<le> unat e \<and> unat e \<le> 32 then le_nat [m0, m1, m2] * 256 ^ (unat e - 3) else 0)"
proof -
  define nb :: u32 where "nb = be_word [e, m2, m1, m0]"
  have bs: "le_bytes 4 nb = [m0, m1, m2, e]"
    by (simp add: nb_def be_word_def le_bytes_le_word_n del: le_word.simps)
  have ex: "unat (drop_bit 24 nb) = unat e" using top_byte [of nb] by (simp add: bs)
  have m: "ucast ((nb AND 0x00FFFFFF) AND 0xFF) = m0" "ucast (drop_bit 8 (nb AND 0x00FFFFFF) AND 0xFF) = m1"
    "ucast (drop_bit 16 (nb AND 0x00FFFFFF) AND 0xFF) = m2"
    by (simp_all only: mantissa_bytes bs) simp_all
  show ?thesis
  proof (cases "3 \<le> unat e \<and> unat e \<le> 32")
    case False
    then show ?thesis by (auto simp: nbits_to_target_le_def assms Let_def nb_def [symmetric] ex)
  next
    case True
    define k where "k = unat e - 3"
    have k: "k \<le> 29" "unat e = k + 3" using True unfolding k_def by linarith+
    have t: "nbits_to_target_le X s = (replicate 32 0)[k := m0, k + 1 := m1, k + 2 := m2]"
      by (simp only: nbits_to_target_le_def assms Let_def option.case nb_def [symmetric] ex m) (use k in simp)
    have r: "replicate 32 (0 :: byte) = replicate k 0 @ [0, 0, 0] @ replicate (29 - k) 0"
    proof -
      have "replicate 32 (0 :: byte) = replicate (k + (3 + (29 - k))) 0" using k by simp
      then show ?thesis unfolding replicate_add by (simp add: numeral_eq_Suc)
    qed
    have v: "nbits_to_target_le X s = replicate k 0 @ [m0, m1, m2] @ replicate (29 - k) 0"
      unfolding t r by (simp add: list_update_append)
    show ?thesis
      unfolding v using k by (simp add: le_nat_append)
  qed
qed

theorem nbits_target_value_witness:
  "le_nat (nbits_to_target_le plain_libs ''1d00ffff'') = 0xFFFF * 256 ^ 26"
proof -
  have "hex_decode plain_libs ''1d00ffff'' = Some [0x1d, 0x00, 0xff, 0xff]"
    by (simp add: plain_libs_def digit_value_def hex_digits_def)
  from nbits_target_value [OF this] show ?thesis by simp
qed

section \<open>The Stratum prev-hash order\<close>

definition swap_words :: "bytes \<Rightarrow> bytes" where
  "swap_words bs = concat (map rev (chunks_exact 4 bs))"

lemma chunks_Cons: "length c = 4 \<Longrightarrow> chunks_exact 4 (c @ r) = c # chunks_exact 4 r"
  by (subst chunks_exact.simps) simp

lemma swap_words_step: "length c = 4 \<Longrightarrow> swap_words (c @ r) = rev c @ swap_words r"
  by (simp add: swap_words_def chunks_Cons)

lemma swap_words_involution: "length bs = 4 * n \<Longrightarrow> swap_words (swap_words bs) = bs \<and> length (swap_words bs) = 4 * n"
proof (induction n arbitrary: bs)
  case 0
  then show ?case by (simp add: swap_words_def chunks_exact.simps)
next
  case (Suc n)
  have "bs = take 4 bs @ drop 4 bs" "length (take 4 bs) = 4" using Suc.prems by simp_all
  then show ?case using Suc.IH [of "drop 4 bs"] Suc.prems swap_words_step
    by (metis (no_types, lifting) add.commute add_diff_cancel_left' length_append length_drop length_rev mult_Suc_right rev_rev_ident)
qed

lemma swap_prev_hash_words:
  assumes "hex_decode X s = Some bs" "length bs = 32"
  shows "swap_prev_hash_for_stratum X s = hex_encode X (swap_words bs)"
  using assms by (simp add: swap_prev_hash_for_stratum_def swap_words_def)

lemma swap_prev_hash_involution:
  assumes "hex_laws X" "length bs = 32"
  shows "swap_prev_hash_for_stratum X (swap_prev_hash_for_stratum X (hex_encode X bs)) = hex_encode X bs"
proof -
  have d: "hex_decode X (hex_encode X b) = Some b" for b using assms(1) by (simp add: hex_laws_def)
  show ?thesis
    using swap_words_involution [of bs 8] assms(2)
    by (simp add: swap_prev_hash_words [OF d] swap_prev_hash_words)
qed

section \<open>The template puller\<close>

record gbt_request =
  req_rules :: "string list"
  req_longpollid :: "string option"

definition fetch_request :: "string list \<Rightarrow> string option \<Rightarrow> gbt_request" where
  "fetch_request rules lp = \<lparr>req_rules = rules, req_longpollid = lp\<rparr>"

text \<open>\<open>call\<close> is the RPC client with the deserializer: a request and a timeout in seconds
  (None for the client's default).\<close>

definition fetch_once ::
  "(gbt_request \<Rightarrow> nat option \<Rightarrow> 'e + Template) \<Rightarrow> string list \<Rightarrow> string option \<Rightarrow> 'e + Template" where
  "fetch_once call rules lp =
     (let request = fetch_request rules lp in
      if lp \<noteq> None then call request (Some 75) else call request None)"

datatype puller_event = Fetched "string option" | Slept | Published Template | Exited

text \<open>The long-poll loop over the outcomes of its fetches; each comes with whether the watch
  channel still has a receiver.\<close>

fun puller_run :: "string option \<Rightarrow> (('e + Template) \<times> bool) list \<Rightarrow> puller_event list" where
  "puller_run lp [] = []"
| "puller_run lp ((Inl e, alive) # rest) = Fetched lp # Slept # puller_run None rest"
| "puller_run lp ((Inr t, alive) # rest) =
     Fetched lp # (if alive then Published t # puller_run (long_poll_id t) rest else [Exited])"

fun last_template :: "string option \<Rightarrow> puller_event list \<Rightarrow> string option" where
  "last_template lp [] = lp"
| "last_template lp (Published t # evs) = last_template (long_poll_id t) evs"
| "last_template lp (Slept # evs) = last_template None evs"
| "last_template lp (_ # evs) = last_template lp evs"

lemma puller_echoes_longpoll:
  "puller_run lp outs = evs @ Fetched q # evs' \<Longrightarrow> q = last_template lp evs"
proof (induction lp outs arbitrary: evs rule: puller_run.induct)
  case (2 lp e alive rest)
  then show ?case
    by (auto simp: Cons_eq_append_conv)
next
  case (3 lp t alive rest)
  then show ?case
    by (auto simp: Cons_eq_append_conv split: if_splits)
qed simp

end
