(* ===== verification/Utf8.thy ===== *)
theory Utf8
  imports Prelude
begin

text \<open>
  UTF-8 as the Rust standard library reads it: the validity test of \<open>str::from_utf8\<close> and
  the replacement of ill-formed parts by \<open>String::from_utf8_lossy\<close> (one U+FFFD for each
  maximal ill-formed prefix).
\<close>

definition cont_byte :: "byte \<Rightarrow> bool" where "cont_byte b \<longleftrightarrow> 0x80 \<le> b \<and> b \<le> 0xBF"

definition lead2 :: "byte \<Rightarrow> bool" where "lead2 b \<longleftrightarrow> 0xC2 \<le> b \<and> b \<le> 0xDF"
definition lead3 :: "byte \<Rightarrow> bool" where "lead3 b \<longleftrightarrow> 0xE0 \<le> b \<and> b \<le> 0xEF"
definition lead4 :: "byte \<Rightarrow> bool" where "lead4 b \<longleftrightarrow> 0xF0 \<le> b \<and> b \<le> 0xF4"

text \<open>The range of the second byte depends on the first: no overlong forms, no surrogates,
  nothing beyond U+10FFFF.\<close>

definition second_ok :: "byte \<Rightarrow> byte \<Rightarrow> bool" where
  "second_ok b c \<longleftrightarrow> cont_byte c \<and> (b = 0xE0 \<longrightarrow> 0xA0 \<le> c) \<and> (b = 0xED \<longrightarrow> c \<le> 0x9F)
     \<and> (b = 0xF0 \<longrightarrow> 0x90 \<le> c) \<and> (b = 0xF4 \<longrightarrow> c \<le> 0x8F)"

definition REPLACEMENT :: bytes where "REPLACEMENT = [0xEF, 0xBF, 0xBD]"

text \<open>The bytes of the next character, or None with the number of bytes that the ill-formed
  prefix takes.\<close>

datatype utf8_step = Char nat | Bad nat

definition third_step :: "bytes \<Rightarrow> nat \<Rightarrow> nat \<Rightarrow> utf8_step" where
  "third_step r have want =
     (case r of d # r' \<Rightarrow>
        if cont_byte d then
          (if want = have + 1 then Char want
           else (case r' of e # _ \<Rightarrow> if cont_byte e then Char want else Bad (have + 1) | [] \<Rightarrow> Bad (have + 1)))
        else Bad have
      | [] \<Rightarrow> Bad have)"

fun next_char :: "bytes \<Rightarrow> utf8_step" where
  "next_char [] = Bad 0"
| "next_char (b # r) =
     (if b < 0x80 then Char 1
      else if lead2 b then (case r of c # _ \<Rightarrow> if cont_byte c then Char 2 else Bad 1 | [] \<Rightarrow> Bad 1)
      else if lead3 b then (case r of c # r' \<Rightarrow> if second_ok b c then third_step r' 2 3 else Bad 1 | [] \<Rightarrow> Bad 1)
      else if lead4 b then (case r of c # r' \<Rightarrow> if second_ok b c then third_step r' 2 4 else Bad 1 | [] \<Rightarrow> Bad 1)
      else Bad 1)"

lemma next_char_progress: "s \<noteq> [] \<Longrightarrow> (case next_char s of Char n \<Rightarrow> 0 < n \<and> n \<le> length s | Bad n \<Rightarrow> 0 < n \<and> n \<le> length s)"
  by (cases s) (auto simp: third_step_def split: list.splits if_splits)

function utf8_valid :: "bytes \<Rightarrow> bool" where
  "utf8_valid s = (if s = [] then True else case next_char s of Char n \<Rightarrow> utf8_valid (drop n s) | Bad n \<Rightarrow> False)"
  by pat_completeness auto
termination
  using next_char_progress by (relation "measure length") (fastforce split: utf8_step.splits)+

function from_utf8_lossy :: "bytes \<Rightarrow> bytes" where
  "from_utf8_lossy s =
     (if s = [] then []
      else case next_char s of
             Char n \<Rightarrow> take n s @ from_utf8_lossy (drop n s)
           | Bad n \<Rightarrow> REPLACEMENT @ from_utf8_lossy (drop n s))"
  by pat_completeness auto
termination
  using next_char_progress by (relation "measure length") (fastforce split: utf8_step.splits)+

declare utf8_valid.simps [simp del] from_utf8_lossy.simps [simp del]

lemma lossy_of_valid: "utf8_valid s \<Longrightarrow> from_utf8_lossy s = s"
proof (induction s rule: utf8_valid.induct)
  case (1 s)
  show ?case
  proof (cases "s = []")
    case False
    with 1(2) obtain n where n: "next_char s = Char n" "utf8_valid (drop n s)"
      by (simp add: utf8_valid.simps [of s] split: utf8_step.splits)
    with 1(1) False show ?thesis by (simp add: from_utf8_lossy.simps [of s])
  qed (simp add: from_utf8_lossy.simps)
qed

lemma ascii_valid: "list_all (\<lambda>b. b < 0x80) s \<Longrightarrow> utf8_valid s"
  by (induction s) (simp_all add: utf8_valid.simps)

text \<open>A replacement character takes three bytes, so a lossy reading can be three times as long.\<close>

lemma lossy_length: "length (from_utf8_lossy s) \<le> 3 * length s"
proof (induction s rule: from_utf8_lossy.induct)
  case (1 s)
  show ?case
  proof (cases "s = []")
    case False
    note p = next_char_progress [OF False]
    show ?thesis
    proof (cases "next_char s")
      case (Char n)
      then show ?thesis using 1(1) [OF False Char] p False by (simp add: from_utf8_lossy.simps [of s]) arith
    next
      case (Bad n)
      then show ?thesis using 1(2) [OF False Bad] p False by (simp add: from_utf8_lossy.simps [of s] REPLACEMENT_def) arith
    qed
  qed (simp add: from_utf8_lossy.simps)
qed

lemma lossy_lone_continuations: "from_utf8_lossy (replicate n 0x80) = concat (replicate n REPLACEMENT)"
  by (induction n) (simp_all add: from_utf8_lossy.simps lead2_def lead3_def lead4_def)

end
