(* ===== verification/Assembler.thy ===== *)
theory Assembler
  imports Template Utf8
begin

text \<open>
  The SV1 notify assembler of \<open>crates/datum-stratum-sv1/src/assembler.rs\<close>: the
  \<open>mining.notify\<close> fields and the per-job metadata that the share relay keeps, both read
  from one template state.  Zero-padded hex formatting of the Rust standard library is
  \<open>hex8\<close>.
\<close>

unbundle bit_operations_syntax

text \<open>\<open>format!("{:08x}", w)\<close>.\<close>

definition hex8 :: "u32 \<Rightarrow> string" where "hex8 w = ref_hex_encode (be_bytes 4 w)"

record NotifyParams =
  np_job_id :: string
  np_prev_hash :: string
  np_coinb1 :: string
  np_coinb2 :: string
  np_merkle_branch :: "string list"
  np_version_hex :: string
  np_nbits_hex :: string
  np_ntime_hex :: string
  np_clean_jobs :: bool

record JobMeta =
  jm_datum_job_idx :: byte
  jm_coinbase_id :: byte
  jm_target_pot_index :: u16
  jm_version :: u32
  jm_height :: u32
  jm_coinbase_value :: u64
  jm_prevhash_bin :: bytes
  jm_nbits_bin :: bytes
  jm_merkle_branches_bin :: "bytes list"
  jm_coinb1_bin :: bytes
  jm_coinb2_bin :: bytes
  jm_datum_coinbaser_id :: byte
  jm_txn_count :: u32
  jm_txn_total_weight :: u32
  jm_txn_total_size :: u32
  jm_txn_total_sigops :: u32
  jm_block_target :: bytes
  jm_txn_data_hex :: "string list"

text \<open>The JSON array of the notify: strings, one array of strings, one boolean.\<close>

datatype json = JNull | JBool bool | JNum nat | JInt int | JStr string | JArr "json list" | JObj "(string \<times> json) list"

definition to_json_array :: "NotifyParams \<Rightarrow> json" where
  "to_json_array n = JArr [JStr (np_job_id n), JStr (np_prev_hash n), JStr (np_coinb1 n), JStr (np_coinb2 n),
     JArr (map JStr (np_merkle_branch n)), JStr (np_version_hex n), JStr (np_nbits_hex n),
     JStr (np_ntime_hex n), JBool (np_clean_jobs n)]"

definition notify_from_template_state ::
  "libs \<Rightarrow> string \<Rightarrow> byte \<Rightarrow> byte \<Rightarrow> TemplateState \<Rightarrow> bool \<Rightarrow> NotifyParams \<times> JobMeta" where
  "notify_from_template_state X job_id datum_job_idx coinbase_id state clean_jobs =
     (let prev_hash_be_hex = swap_prev_hash_for_stratum X (hex_encode X (rev (prev_hash state)));
          notify = \<lparr>np_job_id = job_id, np_prev_hash = prev_hash_be_hex,
            np_coinb1 = hex_encode X (coinb1 state), np_coinb2 = hex_encode X (coinb2 state),
            np_merkle_branch = map (hex_encode X) (merkle_branches state),
            np_version_hex = hex8 (version state), np_nbits_hex = hex_encode X (nbits state),
            np_ntime_hex = hex8 (min_ntime state), np_clean_jobs = clean_jobs\<rparr>;
          meta = \<lparr>jm_datum_job_idx = datum_job_idx, jm_coinbase_id = coinbase_id,
            jm_target_pot_index = target_pot_index state, jm_version = version state,
            jm_height = height state, jm_coinbase_value = ts_coinbase_value state,
            jm_prevhash_bin = prev_hash state, jm_nbits_bin = nbits state,
            jm_merkle_branches_bin = merkle_branches state, jm_coinb1_bin = coinb1 state,
            jm_coinb2_bin = coinb2 state, jm_datum_coinbaser_id = datum_coinbaser_id state,
            jm_txn_count = txn_count state, jm_txn_total_weight = txn_total_weight state,
            jm_txn_total_size = txn_total_size state, jm_txn_total_sigops = txn_total_sigops state,
            jm_block_target = block_target state, jm_txn_data_hex = txn_data_hex state\<rparr>
      in (notify, meta))"

definition assemble_notify_meta ::
  "libs \<Rightarrow> string \<Rightarrow> byte \<Rightarrow> byte \<Rightarrow> Template \<Rightarrow> CoinbaserBlob \<Rightarrow> ScriptSigInputs \<Rightarrow> bool
     \<Rightarrow> NotifyParams \<times> JobMeta" where
  "assemble_notify_meta X job_id datum_job_idx coinbase_id template coinbaser s clean_jobs =
     notify_from_template_state X job_id datum_job_idx coinbase_id
       (from_template_and_blob X template coinbaser s 0) clean_jobs"

definition assemble_notify_with_scriptsig ::
  "libs \<Rightarrow> string \<Rightarrow> Template \<Rightarrow> CoinbaserBlob \<Rightarrow> ScriptSigInputs \<Rightarrow> bool \<Rightarrow> NotifyParams" where
  "assemble_notify_with_scriptsig X job_id template coinbaser s clean_jobs =
     fst (assemble_notify_meta X job_id 0 0 template coinbaser s clean_jobs)"

definition assemble_notify ::
  "libs \<Rightarrow> string \<Rightarrow> Template \<Rightarrow> CoinbaserBlob \<Rightarrow> bytes \<Rightarrow> bool \<Rightarrow> NotifyParams" where
  "assemble_notify X job_id template coinbaser coinbase_tag clean_jobs =
     (let primary = (if utf8_valid coinbase_tag then coinbase_tag else ascii ''DATUM Gateway'')
      in assemble_notify_with_scriptsig X job_id template coinbaser
           (default_scriptsig\<lparr>coinbase_tag_primary := primary,
              coinbase_tag_secondary := ascii ''DATUM User''\<rparr>) clean_jobs)"

section \<open>What a miner rebuilds from a notify\<close>

text \<open>A Stratum V1 miner undoes the word swap of the \<open>prevhash\<close> field to get the bytes of
  the header.\<close>

definition miner_prevhash :: "libs \<Rightarrow> NotifyParams \<Rightarrow> bytes option" where
  "miner_prevhash X n = map_option swap_words (hex_decode X (np_prev_hash n))"

text \<open>The notify and the job metadata disagree on the previous block hash: undoing the word
  swap of the notify's \<open>prevhash\<close> gives the display-order bytes, the reverse of the
  internal-order bytes that the share relay puts in the header; they agree only for a hash that
  reads the same in both directions.\<close>

theorem notify_prevhash_reversed:
  assumes "hex_laws X" "length (prev_hash st) = 32"
    and "notify_from_template_state X job_id idx cb st clean = (notify, meta)"
  shows "miner_prevhash X notify = Some (rev (jm_prevhash_bin meta)) \<and>
    (miner_prevhash X notify = Some (jm_prevhash_bin meta) \<longleftrightarrow> rev (prev_hash st) = prev_hash st)"
proof -
  have d: "hex_decode X (hex_encode X b) = Some b" for b using assms(1) by (simp add: hex_laws_def)
  have "np_prev_hash notify = hex_encode X (swap_words (rev (prev_hash st)))" "jm_prevhash_bin meta = prev_hash st"
    using assms(2,3) swap_prev_hash_words [OF d] by (auto simp: notify_from_template_state_def Let_def)
  then show ?thesis
    using swap_words_involution [of "rev (prev_hash st)" 8] assms(2) by (simp add: miner_prevhash_def d)
qed

text \<open>Both ends of a job hold the same coinbase: the hex halves of the notify decode to the
  binary halves in the job metadata, and the merkle branches of both are the same hashes in the
  same order.\<close>

theorem notify_matches_meta:
  assumes "hex_laws X" "notify_from_template_state X job_id idx cb st clean = (notify, meta)"
  shows "hex_decode X (np_coinb1 notify) = Some (jm_coinb1_bin meta)
    \<and> hex_decode X (np_coinb2 notify) = Some (jm_coinb2_bin meta)
    \<and> map (hex_decode X) (np_merkle_branch notify) = map Some (jm_merkle_branches_bin meta)
    \<and> jm_target_pot_index meta = target_pot_index st"
  using assms by (auto simp: notify_from_template_state_def Let_def hex_laws_def)

section \<open>A concrete job\<close>

definition sample_state :: TemplateState where
  "sample_state = \<lparr>prev_hash = replicate 31 0 @ [7], height = 1, nbits = [0x20, 0x7f, 0xff, 0xff],
     min_ntime = 0x5a, ts_coinbase_value = 5000000000, coinbase_outputs = [], coinb1 = [1, 2, 3],
     coinb2 = [4, 5], merkle_branches = [replicate 32 9], version = 0x20000000, job_id_seed = 1,
     target_pot_index = 1, datum_coinbaser_id = 0, block_target = replicate 32 0xFF, txn_count = 1,
     txn_total_weight = 4, txn_total_size = 1, txn_total_sigops = 0, txn_data_hex = [''00'']\<rparr>"

theorem notify_prevhash_reversed_witness:
  "miner_prevhash plain_libs (fst (notify_from_template_state plain_libs ''1'' 0 0 sample_state True))
     = Some (7 # replicate 31 0)
   \<and> jm_prevhash_bin (snd (notify_from_template_state plain_libs ''1'' 0 0 sample_state True)) = replicate 31 0 @ [7]"
proof -
  obtain n m where nm: "notify_from_template_state plain_libs ''1'' 0 0 sample_state True = (n, m)"
    by (cases "notify_from_template_state plain_libs ''1'' 0 0 sample_state True")
  have m: "jm_prevhash_bin m = replicate 31 0 @ [7]"
    using nm by (auto simp: notify_from_template_state_def Let_def sample_state_def)
  have "length (prev_hash sample_state) = 32" by (simp add: sample_state_def)
  from notify_prevhash_reversed [OF plain_libs_laws(1) this nm] m show ?thesis by (simp add: nm)
qed

theorem notify_matches_meta_witness:
  "hex_decode plain_libs (np_coinb1 (fst (notify_from_template_state plain_libs ''1'' 0 0 sample_state True)))
     = Some [1, 2, 3]"
proof -
  obtain n m where nm: "notify_from_template_state plain_libs ''1'' 0 0 sample_state True = (n, m)"
    by (cases "notify_from_template_state plain_libs ''1'' 0 0 sample_state True")
  have "jm_coinb1_bin m = [1, 2, 3]"
    using nm by (auto simp: notify_from_template_state_def Let_def sample_state_def)
  with notify_matches_meta [OF plain_libs_laws(1) nm] show ?thesis by (simp add: nm)
qed

end
