(* ===== verification/JobTracker.thy ===== *)
theory JobTracker
  imports Assembler "HOL-Library.AList"
begin

text \<open>
  The cross-protocol job tracker of \<open>crates/datum-share-relay/src/lib.rs\<close>: a map from
  job keys to job entries with a first-in first-out eviction order, and the send-once
  flags of the DATUM 0x27 sub-blocks.  The hash map is an association list with the AList
  operations of the library; the eviction queue is a separate list, as in the code.
\<close>

datatype JobKey = Sv1 string | Sv2 u32 u32

record JobEntry =
  je_meta :: JobMeta
  je_template_seed :: u64
  server_has_merkle_branches :: bool
  server_has_coinbase :: "bool list" \<comment> \<open>\<open>[bool; 8]\<close>\<close>

record JobTracker =
  by_key :: "(JobKey \<times> JobEntry) list"
  order :: "JobKey list"
  seen_template_coinbase :: "(u64 \<times> byte) list"
  next_datum_idx :: byte

definition TRACKER_MAX :: nat where "TRACKER_MAX = 256"

definition tracker_new :: JobTracker where
  "tracker_new = \<lparr>by_key = [], order = [], seen_template_coinbase = [], next_datum_idx = 0\<rparr>"

definition next_idx :: "JobTracker \<Rightarrow> byte \<times> JobTracker" where
  "next_idx t = (next_datum_idx t, t\<lparr>next_datum_idx := next_datum_idx t + 1\<rparr>)"

definition new_entry :: "JobMeta \<Rightarrow> u64 \<Rightarrow> JobEntry" where
  "new_entry meta seed = \<lparr>je_meta = meta, je_template_seed = seed, server_has_merkle_branches = False,
     server_has_coinbase = replicate 8 False\<rparr>"

definition evict_oldest :: "JobTracker \<Rightarrow> JobTracker" where
  "evict_oldest t =
     (if TRACKER_MAX \<le> length (by_key t)
      then (case order t of
              [] \<Rightarrow> t
            | oldest # rest \<Rightarrow> t\<lparr>order := rest, by_key := AList.delete oldest (by_key t)\<rparr>)
      else t)"

definition tracker_insert :: "JobTracker \<Rightarrow> JobKey \<Rightarrow> JobMeta \<Rightarrow> u64 \<Rightarrow> JobTracker" where
  "tracker_insert t key meta seed =
     (let t1 = evict_oldest t
      in t1\<lparr>order := order t1 @ [key], by_key := AList.update key (new_entry meta seed) (by_key t1)\<rparr>)"

definition get_entry :: "JobTracker \<Rightarrow> JobKey \<Rightarrow> JobEntry option" where
  "get_entry t key = map_of (by_key t) key"

text \<open>Writing through the reference that \<open>get_mut\<close> returns.\<close>

definition set_entry :: "JobTracker \<Rightarrow> JobKey \<Rightarrow> JobEntry \<Rightarrow> JobTracker" where
  "set_entry t key entry =
     (if get_entry t key = None then t else t\<lparr>by_key := AList.update key entry (by_key t)\<rparr>)"

definition tracker_contains :: "JobTracker \<Rightarrow> JobKey \<Rightarrow> bool" where
  "tracker_contains t key = (get_entry t key \<noteq> None)"

definition cross_protocol_coinbase_already_seen :: "JobTracker \<Rightarrow> u64 \<Rightarrow> byte \<Rightarrow> bool" where
  "cross_protocol_coinbase_already_seen t seed cb = List.member (seen_template_coinbase t) (seed, cb)"

definition mark_cross_protocol_coinbase_seen :: "JobTracker \<Rightarrow> u64 \<Rightarrow> byte \<Rightarrow> JobTracker" where
  "mark_cross_protocol_coinbase_seen t seed cb =
     t\<lparr>seen_template_coinbase := List.insert (seed, cb) (seen_template_coinbase t)\<rparr>"

definition reset_send_once_flags :: "JobTracker \<Rightarrow> JobTracker" where
  "reset_send_once_flags t =
     t\<lparr>by_key := map (\<lambda>(k, e). (k, e\<lparr>server_has_merkle_branches := False,
          server_has_coinbase := replicate 8 False\<rparr>)) (by_key t),
       seen_template_coinbase := []\<rparr>"

definition tracker_len :: "JobTracker \<Rightarrow> nat" where "tracker_len t = length (by_key t)"
definition tracker_is_empty :: "JobTracker \<Rightarrow> bool" where "tracker_is_empty t = (by_key t = [])"

section \<open>The tracker as a bounded FIFO\<close>

type_synonym job = "JobKey \<times> JobMeta \<times> u64"

definition insert_job :: "JobTracker \<Rightarrow> job \<Rightarrow> JobTracker" where
  "insert_job t j = (case j of (k, m, s) \<Rightarrow> tracker_insert t k m s)"

definition job_of :: "JobTracker \<Rightarrow> JobKey \<Rightarrow> job" where
  "job_of t k = (case get_entry t k of Some e \<Rightarrow> (k, je_meta e, je_template_seed e) | None \<Rightarrow> (k, undefined))"

definition tracked_jobs :: "JobTracker \<Rightarrow> job list" where
  "tracked_jobs t = map (job_of t) (order t)"

definition tracker_ok :: "JobTracker \<Rightarrow> bool" where
  "tracker_ok t \<longleftrightarrow> distinct (map fst (by_key t)) \<and> distinct (order t)
     \<and> set (order t) = set (map fst (by_key t)) \<and> length (by_key t) \<le> TRACKER_MAX"

definition new_job :: "job \<Rightarrow> job list \<Rightarrow> bool" where
  "new_job j js \<longleftrightarrow> fst j \<notin> set (map fst js)"

lemma tracker_ok_length: "tracker_ok t \<Longrightarrow> length (order t) = length (by_key t)"
  unfolding tracker_ok_def by (metis distinct_card length_map)

lemma job_of_fst [simp]: "fst (job_of t k) = k"
  by (simp add: job_of_def split: option.splits)

lemma tracked_keys: "map fst (tracked_jobs t) = order t"
  by (simp add: tracked_jobs_def o_def)

lemma evict_ok:
  assumes "tracker_ok t"
  shows "tracker_ok (evict_oldest t)" "length (by_key (evict_oldest t)) < TRACKER_MAX"
    "order (evict_oldest t) = (if TRACKER_MAX \<le> length (order t) then tl (order t) else order t)"
    "k \<in> set (order (evict_oldest t)) \<Longrightarrow> get_entry (evict_oldest t) k = get_entry t k"
proof -
  have len: "length (order t) = length (by_key t)" by (rule tracker_ok_length [OF assms])
  have pos: "0 < TRACKER_MAX" by (simp add: TRACKER_MAX_def)
  show "order (evict_oldest t) = (if TRACKER_MAX \<le> length (order t) then tl (order t) else order t)"
    by (auto simp: evict_oldest_def len split: list.splits)
  have "tracker_ok (evict_oldest t) \<and> length (by_key (evict_oldest t)) < TRACKER_MAX \<and>
    (k \<in> set (order (evict_oldest t)) \<longrightarrow> get_entry (evict_oldest t) k = get_entry t k)"
  proof (cases "TRACKER_MAX \<le> length (by_key t)")
    case False
    then show ?thesis using assms by (simp add: evict_oldest_def)
  next
    case True
    then obtain old rest where o: "order t = old # rest" using len pos by (cases "order t") auto
    let ?m = "AList.delete old (by_key t)"
    have mk: "map fst ?m = removeAll old (map fst (by_key t))" by (rule delete_keys)
    have d: "distinct (map fst ?m)" using assms by (simp add: tracker_ok_def mk distinct_removeAll)
    have keys: "set (map fst ?m) = set rest"
      unfolding mk using assms o by (auto simp: tracker_ok_def)
    have "length ?m = length rest" using d keys assms o
      by (metis distinct.simps(2) distinct_card length_map tracker_ok_def)
    then have "length ?m < TRACKER_MAX" "length ?m \<le> TRACKER_MAX" using len o True assms by (auto simp: tracker_ok_def)
    then show ?thesis using True o d keys assms
      by (auto simp: evict_oldest_def tracker_ok_def get_entry_def delete_conv')
  qed
  then show "tracker_ok (evict_oldest t)" "length (by_key (evict_oldest t)) < TRACKER_MAX"
    "k \<in> set (order (evict_oldest t)) \<Longrightarrow> get_entry (evict_oldest t) k = get_entry t k" by auto
qed

lemma insert_job_ok:
  assumes "tracker_ok t" "new_job j (tracked_jobs t)"
  shows "tracker_ok (insert_job t j)"
    "tracked_jobs (insert_job t j) =
      (if TRACKER_MAX \<le> length (tracked_jobs t) then tl (tracked_jobs t) else tracked_jobs t) @ [j]"
proof -
  obtain k m s where j: "j = (k, m, s)" by (cases j)
  let ?t = "evict_oldest t"
  note e = evict_ok [OF assms(1)]
  have "k \<notin> set (order t)"
    using assms(2) unfolding new_job_def tracked_keys j by simp
  then have ko: "k \<notin> set (order ?t)" unfolding e(3) by (cases "order t") auto
  then have kk: "k \<notin> set (map fst (by_key ?t))" using e(1) by (simp add: tracker_ok_def)
  have upd: "map fst (AList.update k (new_entry m s) (by_key ?t)) = map fst (by_key ?t) @ [k]"
    using kk by (simp add: update_keys)
  have len: "length (AList.update k (new_entry m s) (by_key ?t)) = length (by_key ?t) + 1"
    using arg_cong [OF upd, of length] by simp
  show "tracker_ok (insert_job t j)"
    using e(1,2) ko kk len
    by (auto simp: tracker_ok_def j insert_job_def tracker_insert_def Let_def upd)
  have job: "job_of (insert_job t j) k' = (if k' = k then j else job_of t k')" if "k' \<in> set (order ?t) \<or> k' = k" for k'
    using that e(4) [of k']
    by (auto simp: job_of_def get_entry_def j insert_job_def tracker_insert_def Let_def update_conv' new_entry_def
        split: option.splits)
  have "tracked_jobs (insert_job t j) = map (job_of (insert_job t j)) (order ?t) @ [job_of (insert_job t j) k]"
    by (simp add: tracked_jobs_def j insert_job_def tracker_insert_def Let_def)
  also have "map (job_of (insert_job t j)) (order ?t) = map (job_of t) (order ?t)"
    using job ko by (intro map_cong) auto
  finally show "tracked_jobs (insert_job t j) =
      (if TRACKER_MAX \<le> length (tracked_jobs t) then tl (tracked_jobs t) else tracked_jobs t) @ [j]"
    using job [of k] by (simp add: e(3) tracked_jobs_def map_tl)
qed

interpretation jobs: bounded_fifo insert_job tracked_jobs tracker_ok new_job TRACKER_MAX
  by unfold_locales (auto simp: TRACKER_MAX_def insert_job_ok new_job_def)

lemma tracker_new_ok: "tracker_ok tracker_new" "tracked_jobs tracker_new = []"
  by (simp_all add: tracker_ok_def tracker_new_def tracked_jobs_def)

lemma fresh_after_distinct: "distinct (map fst (seen @ js)) \<Longrightarrow> jobs.fresh_after seen js"
  by (induction js arbitrary: seen) (simp_all add: new_job_def)

lemma push_all_fold: "jobs.push_all t js = foldl insert_job t js"
  by (induction js arbitrary: t) simp_all

text \<open>C34: With distinct job keys the tracker is a FIFO of the last 256 jobs: after any sequence of
  inserts with pairwise distinct keys it holds exactly the last 256 of them in insertion order,
  each with the metadata and seed it was inserted with, and never more than 256 entries.\<close>

theorem tracker_keeps_last_256:
  assumes "distinct (map fst js)"
  shows "tracked_jobs (foldl insert_job tracker_new js) = drop (length js - TRACKER_MAX) js
    \<and> tracker_len (foldl insert_job tracker_new js) = min (length js) TRACKER_MAX"
proof -
  let ?t = "foldl insert_job tracker_new js"
  have p: "tracker_ok ?t \<and> tracked_jobs ?t = drop (length js - TRACKER_MAX) js"
    using jobs.push_all_items [of tracker_new "[]" js] fresh_after_distinct [of "[]" js] assms tracker_new_ok
    by (simp add: push_all_fold)
  from arg_cong [OF p [THEN conjunct2], of length]
  have "length (order ?t) = length js - (length js - TRACKER_MAX)" by (simp add: tracked_jobs_def)
  then show ?thesis using p tracker_ok_length [of ?t] by (simp add: tracker_len_def min_def)
qed

definition sample_meta :: "byte \<Rightarrow> JobMeta" where
  "sample_meta i = \<lparr>jm_datum_job_idx = i, jm_coinbase_id = 0, jm_target_pot_index = 2, jm_version = 0x20000000,
     jm_height = 1, jm_coinbase_value = 5000000000, jm_prevhash_bin = replicate 32 0,
     jm_nbits_bin = [0x20, 0x7f, 0xff, 0xff], jm_merkle_branches_bin = [], jm_coinb1_bin = replicate 5 1,
     jm_coinb2_bin = [2, 2], jm_datum_coinbaser_id = 0, jm_txn_count = 0, jm_txn_total_weight = 0,
     jm_txn_total_size = 0, jm_txn_total_sigops = 0, jm_block_target = replicate 32 0xFF, jm_txn_data_hex = []\<rparr>"

definition numbered_job :: "nat \<Rightarrow> job" where
  "numbered_job i = (Sv1 (replicate i CHR ''x''), sample_meta (of_nat i), of_nat i)"

lemma numbered_distinct: "distinct (map fst (map numbered_job [0..<n]))"
  by (auto simp: distinct_map numbered_job_def inj_on_def o_def)

theorem tracker_keeps_last_256_witness:
  "tracked_jobs (foldl insert_job tracker_new (map numbered_job [0..<300])) = map numbered_job [44..<300]
   \<and> tracker_len (foldl insert_job tracker_new (map numbered_job [0..<300])) = 256"
  using tracker_keeps_last_256 [OF numbered_distinct [of 300]] by (simp add: TRACKER_MAX_def drop_map)

section \<open>Repeated keys\<close>

text \<open>A stale entry at the head of the eviction queue: the next insert frees no slot.\<close>

lemma stale_head_grows:
  assumes "order t = old # rest" "old \<notin> set (map fst (by_key t))" "k \<notin> set (map fst (by_key t))"
    and "TRACKER_MAX \<le> tracker_len t"
  shows "tracker_len (tracker_insert t k m s) = tracker_len t + 1"
proof -
  have "AList.delete old (by_key t) = by_key t" using assms(2) by (intro delete_id) auto
  then have e: "by_key (evict_oldest t) = by_key t"
    using assms(1,4) by (simp add: evict_oldest_def tracker_len_def)
  have "length (map fst (AList.update k (new_entry m s) (by_key t))) = length (by_key t) + 1"
    using assms(3) by (simp only: update_keys) simp
  then show ?thesis by (simp add: tracker_insert_def Let_def tracker_len_def e)
qed

lemma insert_below_max:
  assumes "tracker_len t < TRACKER_MAX" "k \<notin> set (map fst (by_key t))"
  shows "order (tracker_insert t k m s) = order t @ [k]"
    "map fst (by_key (tracker_insert t k m s)) = map fst (by_key t) @ [k]"
  using assms by (simp_all add: tracker_insert_def evict_oldest_def tracker_len_def Let_def update_keys)

lemma insert_job_tuple: "insert_job t (k, m, s) = tracker_insert t k m s"
  by (simp add: insert_job_def)

lemma fill_below_max:
  "\<lbrakk>tracker_len t + length js \<le> TRACKER_MAX; distinct (map fst js); set (map fst js) \<inter> set (map fst (by_key t)) = {}\<rbrakk> \<Longrightarrow>
     order (foldl insert_job t js) = order t @ map fst js \<and>
     map fst (by_key (foldl insert_job t js)) = map fst (by_key t) @ map fst js"
proof (induction js arbitrary: t)
  case (Cons j js)
  obtain k m s where j: "j = (k, m, s)" by (cases j)
  have "tracker_len t < TRACKER_MAX" "k \<notin> set (map fst (by_key t))" using Cons.prems by (auto simp: j)
  note b = insert_below_max [OF this, of m s]
  have l: "tracker_len (insert_job t j) = tracker_len t + 1"
    using arg_cong [OF b(2), of length] by (simp add: tracker_len_def insert_job_def j)
  have "order (foldl insert_job (insert_job t j) js) = order (insert_job t j) @ map fst js \<and>
     map fst (by_key (foldl insert_job (insert_job t j) js)) = map fst (by_key (insert_job t j)) @ map fst js"
    by (rule Cons.IH) (use Cons.prems l b(2) in \<open>auto simp: insert_job_tuple j\<close>)
  then show ?case using b by (simp add: insert_job_tuple j)
qed simp

definition repeated_inserts :: "job list" where
  "repeated_inserts = [numbered_job 0, numbered_job 0] @ map numbered_job [1..<256]
     @ [numbered_job 256, numbered_job 257]"

definition job_key :: "nat \<Rightarrow> JobKey" where "job_key i = fst (numbered_job i)"

lemma job_key_eq [simp]: "job_key i = job_key j \<longleftrightarrow> i = j"
  by (auto simp: numbered_job_def job_key_def)

lemma numbered_job_tuple: "numbered_job i = (job_key i, sample_meta (of_nat i), of_nat i)"
  by (simp add: job_key_def numbered_job_def)

lemma insert_numbered: "insert_job t (numbered_job i) = tracker_insert t (job_key i) (sample_meta (of_nat i)) (of_nat i)"
  by (simp add: insert_job_def numbered_job_tuple)

lemma map_fst_numbered: "map fst (map numbered_job xs) = map job_key xs"
  by (simp add: job_key_def)

lemma tracker_len_keys: "tracker_len t = length (map fst (by_key t))"
  by (simp add: tracker_len_def)

lemma repeated_start:
  "order (foldl insert_job tracker_new [numbered_job 0, numbered_job 0]) = [job_key 0, job_key 0]"
  "map fst (by_key (foldl insert_job tracker_new [numbered_job 0, numbered_job 0])) = [job_key 0]"
  by (simp_all add: insert_numbered tracker_insert_def evict_oldest_def tracker_new_def TRACKER_MAX_def Let_def)

lemma repeated_fill:
  assumes "order t = [job_key 0, job_key 0]" "map fst (by_key t) = [job_key 0]"
  shows "order (foldl insert_job t (map numbered_job [1..<256])) = job_key 0 # job_key 0 # map job_key [1..<256]"
    "map fst (by_key (foldl insert_job t (map numbered_job [1..<256]))) = job_key 0 # map job_key [1..<256]"
proof -
  have le: "tracker_len t + length (map numbered_job [1..<256]) \<le> TRACKER_MAX"
    by (simp add: tracker_len_keys assms TRACKER_MAX_def del: length_map) simp
  have d: "distinct (map fst (map numbered_job [1..<256]))"
    unfolding map_fst_numbered by (simp add: distinct_map inj_on_def del: upt_rec_numeral)
  have disj: "set (map fst (map numbered_job [1..<256])) \<inter> set (map fst (by_key t)) = {}"
    unfolding map_fst_numbered assms by (auto simp del: upt_rec_numeral)
  note f = fill_below_max [OF le d disj, unfolded map_fst_numbered assms append_Cons append_Nil]
  show "order (foldl insert_job t (map numbered_job [1..<256])) = job_key 0 # job_key 0 # map job_key [1..<256]"
    "map fst (by_key (foldl insert_job t (map numbered_job [1..<256]))) = job_key 0 # map job_key [1..<256]"
    using f by blast+
qed

lemma stale_evict:
  assumes "order t = a # a # as" "map fst (by_key t) = a # as" "a \<notin> set as" "k \<notin> set as"
    and "length (a # as) = TRACKER_MAX"
  shows "order (tracker_insert t k m s) = a # as @ [k]"
    "map fst (by_key (tracker_insert t k m s)) = as @ [k]"
proof -
  have l: "length (by_key t) = TRACKER_MAX" using arg_cong [OF assms(2), of length] assms(5) by simp
  have r: "removeAll a as = as" using assms(3) by simp
  show "order (tracker_insert t k m s) = a # as @ [k]"
    "map fst (by_key (tracker_insert t k m s)) = as @ [k]"
    using assms(4) by (simp_all add: tracker_insert_def evict_oldest_def Let_def l assms(1,2) update_keys delete_keys r)
qed

text \<open>Repeating a key breaks the capacity: inserting one key twice queues it twice, so once
  the tracker is full the stale queue entry is evicted in place of a live job, and the tracker
  holds 257 jobs although its maximum is 256.\<close>

theorem repeated_key_exceeds_max:
  "tracker_len (foldl insert_job tracker_new repeated_inserts) = TRACKER_MAX + 1"
proof -
  define t2 where "t2 = foldl insert_job tracker_new [numbered_job 0, numbered_job 0]"
  define t3 where "t3 = foldl insert_job t2 (map numbered_job [1..<256])"
  define t4 where "t4 = insert_job t3 (numbered_job 256)"
  have t3: "order t3 = job_key 0 # job_key 0 # map job_key [1..<256]"
    "map fst (by_key t3) = job_key 0 # map job_key [1..<256]"
    unfolding t3_def by (rule repeated_fill; simp only: t2_def repeated_start)+
  have t4: "order t4 = job_key 0 # map job_key [1..<256] @ [job_key 256]"
    "map fst (by_key t4) = map job_key [1..<256] @ [job_key 256]"
    unfolding t4_def insert_numbered
    by (rule stale_evict [OF t3]; simp add: TRACKER_MAX_def image_iff del: upt_rec_numeral)+
  have l4: "tracker_len t4 = TRACKER_MAX"
    unfolding tracker_len_keys t4(2) by (simp add: TRACKER_MAX_def del: upt_rec_numeral)
  have "tracker_len (insert_job t4 (numbered_job 257)) = tracker_len t4 + 1"
    unfolding insert_numbered
    by (rule stale_head_grows [OF t4(1)]; auto simp: t4(2) l4 simp del: upt_rec_numeral)
  moreover have "foldl insert_job tracker_new repeated_inserts = insert_job t4 (numbered_job 257)"
    unfolding repeated_inserts_def foldl_append t2_def [symmetric] t3_def [symmetric]
    by (simp only: foldl.simps t4_def)
  ultimately show ?thesis by (simp only: l4)
qed

end
