(* ===== verification/ShareEncoder.thy ===== *)
theory ShareEncoder
  imports Messages JobTracker
begin

text \<open>
  The DATUM \<open>0x27\<close> body builder of \<open>crates/datum-share-relay/src/share_encoder.rs\<close>,
  shared by both share relays: the proof-of-target byte, the header reconstruction, the
  block test, the send-once sub-blocks, the padding and the \<open>submitblock\<close> payload.
  User names are UTF-8 bytes; the process-wide padding generator is an explicit state.
\<close>

unbundle bit_operations_syntax

record ShareUserConfig =
  pool_address :: bytes
  pass_full_users :: bool
  pass_workers :: bool

record SubmittedShareInputs =
  si_username :: bytes
  si_extranonce :: bytes \<comment> \<open>\<open>[u8; 12]\<close>\<close>
  si_ntime :: u32
  si_nonce :: u32
  si_version :: u32
  si_current_diff :: u64
  si_patched_coinb1 :: "bytes option"

record BlockSubmissionPayload =
  block_hex :: string
  block_hash_hex :: string

record ShareEncoded =
  se_body :: bytes
  se_block_submission :: "BlockSubmissionPayload option"

definition FLAG_IS_BLOCK :: byte where "FLAG_IS_BLOCK = 0x01"

section \<open>Helpers\<close>

definition floor_pot :: "u64 \<Rightarrow> byte" where
  "floor_pot x = (if x = 0 then 0 else of_nat (63 - leading_zeros x))"

definition format_share_username :: "bytes \<Rightarrow> ShareUserConfig \<Rightarrow> bytes" where
  "format_share_username miner_user cfg =
     (let starts_with_dot = (miner_user \<noteq> [] \<and> hd miner_user = 0x2E);
          s = (if (\<not> pass_full_users cfg \<and> \<not> pass_workers cfg) \<or> miner_user = [] then pool_address cfg
               else if pass_full_users cfg \<and> \<not> starts_with_dot then miner_user
               else if pass_full_users cfg \<or> pass_workers cfg
               then pool_address cfg @ (if starts_with_dot then [] else [0x2E]) @ miner_user
               else pool_address cfg)
      in take 384 s)"

definition compute_merkle_root :: "libs \<Rightarrow> bytes \<Rightarrow> bytes \<Rightarrow> bytes \<Rightarrow> bytes list \<Rightarrow> bytes" where
  "compute_merkle_root X coinb1_patched extranonce c2 branches =
     foldl (\<lambda>acc sib. double_sha256 X (acc @ rev sib))
       (double_sha256 X (coinb1_patched @ extranonce @ c2)) branches"

text \<open>\<open>for i in (0..n).rev()\<close> with its three outcomes.\<close>

fun meets_below :: "nat \<Rightarrow> bytes \<Rightarrow> bytes \<Rightarrow> bool" where
  "meets_below 0 h t = True"
| "meets_below (Suc i) h t = (if h ! i < t ! i then True else if h ! i > t ! i then False else meets_below i h t)"

definition hash_meets_target :: "bytes \<Rightarrow> bytes \<Rightarrow> bool" where
  "hash_meets_target h t = meets_below 32 h t"

definition push_varint_hex :: "libs \<Rightarrow> u64 \<Rightarrow> string" where
  "push_varint_hex X v =
     (if v < 0xfd then hex_of_byte (ucast v)
      else if v \<le> 0xffff then ''fd'' @ hex_of_byte (ucast v) @ hex_of_byte (ucast (drop_bit 8 v))
      else if v \<le> 0xffffffff then ''fe'' @ hex_encode X (le_bytes 4 (ucast v :: u32))
      else ''ff'' @ hex_encode X (le_bytes 8 v))"

definition PADDING_SEED :: u64 where "PADDING_SEED = 0x9E3779B97F4A7C15"

definition padding_byte :: "u64 \<Rightarrow> byte \<times> u64" where
  "padding_byte s =
     (let x = s XOR push_bit 13 s; x = x XOR drop_bit 7 x; x = x XOR push_bit 17 x
      in (ucast (x AND 0xFF), x))"

section \<open>The submission\<close>

definition coinb1_of_share :: "JobMeta \<Rightarrow> SubmittedShareInputs \<Rightarrow> bytes" where
  "coinb1_of_share m share =
     (case si_patched_coinb1 share of
        Some b \<Rightarrow> b
      | None \<Rightarrow>
          let b = jm_coinb1_bin m; pot_index = unat (jm_target_pot_index m)
          in if pot_index < length b then b[pot_index := floor_pot (si_current_diff share)] else b)"

definition share_header :: "libs \<Rightarrow> JobMeta \<Rightarrow> SubmittedShareInputs \<Rightarrow> bytes" where
  "share_header X m share =
     le_bytes 4 (si_version share) @ jm_prevhash_bin m
     @ compute_merkle_root X (coinb1_of_share m share) (si_extranonce share) (jm_coinb2_bin m)
         (jm_merkle_branches_bin m)
     @ le_bytes 4 (si_ntime share) @ rev (jm_nbits_bin m) @ le_bytes 4 (si_nonce share)"

definition job_block :: "JobMeta \<Rightarrow> bytes" where
  "job_block m =
     [0x01] @ jm_prevhash_bin m @ le_bytes 2 (jm_target_pot_index m) @ rev (jm_nbits_bin m)
     @ [jm_datum_coinbaser_id m] @ le_bytes 4 (jm_height m) @ le_bytes 8 (jm_coinbase_value m)
     @ le_bytes 4 (jm_txn_count m) @ le_bytes 4 (jm_txn_total_weight m) @ le_bytes 4 (jm_txn_total_size m)
     @ le_bytes 4 (jm_txn_total_sigops m) @ [of_nat (length (jm_merkle_branches_bin m))]
     @ concat (map rev (jm_merkle_branches_bin m))"

definition coinbase_block :: "JobMeta \<Rightarrow> bytes" where
  "coinbase_block m =
     [0x02, jm_coinbase_id m] @ le_bytes 2 (of_nat (length (jm_coinb1_bin m)) :: u16)
     @ le_bytes 2 (of_nat (length (jm_coinb2_bin m)) :: u16) @ jm_coinb1_bin m @ jm_coinb2_bin m"

definition full_block_hex :: "libs \<Rightarrow> JobMeta \<Rightarrow> SubmittedShareInputs \<Rightarrow> string" where
  "full_block_hex X m share =
     hex_encode X (share_header X m share) @ push_varint_hex X (ucast (jm_txn_count m) + 1)
     @ hex_encode X (coinb1_of_share m share @ si_extranonce share @ jm_coinb2_bin m)
     @ concat (jm_txn_data_hex m)"

definition build_share_submission ::
  "libs \<Rightarrow> SubmittedShareInputs \<Rightarrow> JobEntry \<Rightarrow> ShareUserConfig \<Rightarrow> bool \<Rightarrow> u64
     \<Rightarrow> ShareEncoded \<times> JobEntry \<times> u64" where
  "build_share_submission X share entry user_cfg cross_seen pad_state =
     (let m = je_meta entry;
          share_hash = double_sha256 X (share_header X m share);
          is_block = hash_meets_target share_hash (jm_block_target m);
          flags = (if is_block then FLAG_IS_BLOCK else 0);
          prefix = \<lparr>sp_job_id = jm_datum_job_idx m, sp_coinbase_id = jm_coinbase_id m, sp_flags = flags,
             sp_target_byte = floor_pot (si_current_diff share), sp_ntime = si_ntime share,
             sp_nonce = si_nonce share, sp_version = si_version share, sp_extranonce = si_extranonce share\<rparr>;
          send_job = \<not> server_has_merkle_branches entry;
          entry1 = (if send_job then entry\<lparr>server_has_merkle_branches := True\<rparr> else entry);
          cb_id = unat (jm_coinbase_id m);
          already_sent_per_key = (cb_id < length (server_has_coinbase entry) \<and> server_has_coinbase entry ! cb_id);
          send_coinbase = (\<not> already_sent_per_key \<and> \<not> cross_seen);
          entry2 = (if send_coinbase \<and> cb_id < length (server_has_coinbase entry1)
                    then entry1\<lparr>server_has_coinbase := (server_has_coinbase entry1)[cb_id := True]\<rparr> else entry1);
          (rb, pad_state') = padding_byte pad_state;
          body = share_prefix_encode prefix @ format_share_username (si_username share) user_cfg @ [0]
             @ replicate 4 0
             @ (if send_job then job_block m else [])
             @ (if send_coinbase then coinbase_block m else [])
             @ [0xFE] @ replicate (1 + unat rb mod 80) rb;
          block = (if is_block
                   then Some \<lparr>block_hex = full_block_hex X m share, block_hash_hex = hex_encode X (rev share_hash)\<rparr>
                   else None)
      in (\<lparr>se_body = body, se_block_submission = block\<rparr>, entry2, pad_state'))"

section \<open>Values\<close>

lemma floor_pot_range:
  assumes "x \<noteq> 0"
  shows "2 ^ unat (floor_pot x) \<le> unat x \<and> unat x < 2 ^ (unat (floor_pot x) + 1)"
proof -
  let ?p = "63 - leading_zeros x"
  have "leading_zeros x < 64" "bit x ?p" and z: "\<And>k. ?p < k \<Longrightarrow> \<not> bit x k"
    using leading_zeros_top [OF assms] by simp_all
  then have p: "unat (floor_pot x) = ?p" using assms unfolding floor_pot_def by (simp only: if_False) (simp add: unat_of_nat del: of_nat_diff)
  have "unat x < 2 ^ (?p + 1)" unfolding unat_lt_iff using z by simp
  moreover have "\<not> unat x < 2 ^ ?p" unfolding unat_lt_iff using \<open>bit x ?p\<close> by auto
  ultimately show ?thesis by (simp only: p) simp
qed

lemma meets_below_take:
  "\<lbrakk>n \<le> length h; n \<le> length t\<rbrakk> \<Longrightarrow> meets_below n h t \<longleftrightarrow> le_nat (take n h) \<le> le_nat (take n t)"
proof (induction n)
  case (Suc n)
  have b: "le_nat (take n xs) < 256 ^ n" if "n \<le> length xs" for xs :: bytes
    using le_nat_bound [of "take n xs"] that by simp
  have s: "le_nat (take (Suc n) xs) = le_nat (take n xs) + 256 ^ n * unat (xs ! n)" if "n < length xs" for xs :: bytes
    using that by (simp add: take_Suc_conv_app_nth le_nat_append)
  have less: "a + 256 ^ n * x < b + 256 ^ n * y" if "x < y" "a < 256 ^ n" for a b x y :: nat
  proof -
    have "256 ^ n * (x + 1) \<le> 256 ^ n * y" using that(1) by (intro mult_le_mono2) simp
    then show ?thesis using that(2) by simp
  qed
  have hn: "le_nat (take n h) < 256 ^ n" "le_nat (take n t) < 256 ^ n" using Suc.prems b by simp_all
  consider "unat (h ! n) < unat (t ! n)" | "unat (h ! n) > unat (t ! n)" | "unat (h ! n) = unat (t ! n)" by linarith
  then show ?case
  proof cases
    case 1
    then show ?thesis using less [OF 1 hn(1), of "le_nat (take n t)"] Suc.prems
      by (simp add: s word_less_nat_alt)
  next
    case 2
    then show ?thesis using less [OF 2 hn(2), of "le_nat (take n h)"] Suc.prems
      by (simp add: s word_less_nat_alt)
  next
    case 3
    then show ?thesis using Suc by (simp add: s word_less_nat_alt)
  qed
qed simp

lemma hash_meets_target_le:
  "\<lbrakk>length h = 32; length t = 32\<rbrakk> \<Longrightarrow> hash_meets_target h t \<longleftrightarrow> le_nat h \<le> le_nat t"
  using meets_below_take [of 32 h t] by (simp add: hash_meets_target_def)

lemma push_varint_hex_decode:
  assumes "hex_laws X"
  shows "hex_decode X (push_varint_hex X v) = Some (push_varint v)"
proof -
  note d = hex_lawsD [OF assms]
  have b1: "hex_decode X (hex_of_byte b) = Some [b]" for b
    using d(6) [of "[b]"] by (simp add: ref_hex_encode_def)
  have dig: "''fd'' = hex_of_byte 0xFD" "''fe'' = hex_of_byte 0xFE" "''ff'' = hex_of_byte 0xFF"
    by (simp_all add: hex_of_byte_def digit_def hex_digits_def)
  have l2: "le_bytes 2 (ucast v :: u16) = [ucast v, ucast (drop_bit 8 v)]" if "v \<le> 0xFFFF"
  proof -
    have "le_bytes 2 (ucast v :: u16) = [ucast (ucast v :: u16), ucast (drop_bit 8 (ucast v :: u16))]"
      by (simp add: le_bytes_def upt_rec)
    moreover have "ucast (ucast v :: u16) = (ucast v :: byte)" "ucast (drop_bit 8 (ucast v :: u16)) = (ucast (drop_bit 8 v) :: byte)"
      by (rule bit_word_eqI, auto simp: bit_simps)+
    ultimately show ?thesis by simp
  qed
  show ?thesis
    unfolding push_varint_hex_def push_varint_def dig
    using d(5) [OF b1 b1] d(5) [OF b1 d(5) [OF b1 b1]] d(5) [OF b1 d(1)] b1 l2 by simp
qed

section \<open>The pool's reading of a submission\<close>

record JobBlock =
  jb_prevhash :: bytes
  jb_pot_index :: u16
  jb_nbits :: bytes
  jb_coinbaser_id :: byte
  jb_height :: u32
  jb_value :: u64
  jb_totals :: "u32 list"
  jb_branches :: "bytes list"

record CoinbaseBlock =
  cb_id :: byte
  cb_coinb1 :: bytes
  cb_coinb2 :: bytes

record Submission =
  sub_prefix :: ShareSubmissionPrefix
  sub_user :: bytes
  sub_job :: "JobBlock option"
  sub_coinbase :: "CoinbaseBlock option"

definition read_le :: "nat \<Rightarrow> bytes \<Rightarrow> ('a::len word \<times> bytes) option" where
  "read_le n s = map_option (apfst le_word) (read_exact n s)"

fun read_chunks :: "nat \<Rightarrow> nat \<Rightarrow> bytes \<Rightarrow> (bytes list \<times> bytes) option" where
  "read_chunks w 0 s = Some ([], s)"
| "read_chunks w (Suc n) s = Option.bind (read_exact w s) (\<lambda>(c, r).
     Option.bind (read_chunks w n r) (\<lambda>(cs, r). Some (c # cs, r)))"

definition read_job_block :: "bytes \<Rightarrow> (JobBlock \<times> bytes) option" where
  "read_job_block s =
     Option.bind (read_exact 32 s) (\<lambda>(ph, r). Option.bind (read_le 2 r) (\<lambda>(pot, r).
     Option.bind (read_exact 4 r) (\<lambda>(nb, r). Option.bind (read_le 1 r) (\<lambda>(cid, r).
     Option.bind (read_le 4 r) (\<lambda>(h, r). Option.bind (read_le 8 r) (\<lambda>(v, r).
     Option.bind (read_chunks 4 4 r) (\<lambda>(tot, r). Option.bind (read_exact 1 r) (\<lambda>(n, r).
     Option.bind (read_chunks 32 (le_nat n) r) (\<lambda>(bs, r).
       Some (\<lparr>jb_prevhash = ph, jb_pot_index = pot, jb_nbits = nb, jb_coinbaser_id = cid, jb_height = h,
              jb_value = v, jb_totals = map le_word tot, jb_branches = bs\<rparr>, r))))))))))"

definition read_coinbase_block :: "bytes \<Rightarrow> (CoinbaseBlock \<times> bytes) option" where
  "read_coinbase_block s =
     Option.bind (read_le 1 s) (\<lambda>(i, r). Option.bind (read_exact 2 r) (\<lambda>(n1, r).
     Option.bind (read_exact 2 r) (\<lambda>(n2, r). Option.bind (read_exact (le_nat n1) r) (\<lambda>(c1, r).
     Option.bind (read_exact (le_nat n2) r) (\<lambda>(c2, r).
       Some (\<lparr>cb_id = i, cb_coinb1 = c1, cb_coinb2 = c2\<rparr>, r))))))"

text \<open>A block that is there only when its tag is the next byte.\<close>

definition read_tagged :: "byte \<Rightarrow> (bytes \<Rightarrow> ('b \<times> bytes) option) \<Rightarrow> bytes \<Rightarrow> ('b option \<times> bytes) option" where
  "read_tagged tag rd s =
     (case s of [] \<Rightarrow> Some (None, s)
      | b # r \<Rightarrow> if b = tag then map_option (apfst Some) (rd r) else Some (None, s))"

definition read_nul :: "bytes \<Rightarrow> (bytes \<times> bytes) option" where
  "read_nul s = (let u = takeWhile (\<lambda>b. b \<noteq> 0) s
     in if length u < length s then Some (u, drop (length u + 1) s) else None)"

definition read_submission :: "bytes \<Rightarrow> Submission option" where
  "read_submission body =
     Option.bind (read_exact 30 body) (\<lambda>(p, r). Option.bind (share_prefix_option p) (\<lambda>prefix.
     Option.bind (read_nul r) (\<lambda>(user, r). Option.bind (read_exact 4 r) (\<lambda>(z, r).
     Option.bind (read_tagged 0x01 read_job_block r) (\<lambda>(job, r).
     Option.bind (read_tagged 0x02 read_coinbase_block r) (\<lambda>(cb, r).
       case r of
         [] \<Rightarrow> None
       | b # pad \<Rightarrow> if b = 0xFE
           then Some \<lparr>sub_prefix = prefix, sub_user = user, sub_job = job, sub_coinbase = cb\<rparr> else None))))))"

definition job_of_meta :: "JobMeta \<Rightarrow> JobBlock" where
  "job_of_meta m = \<lparr>jb_prevhash = jm_prevhash_bin m, jb_pot_index = jm_target_pot_index m,
     jb_nbits = rev (jm_nbits_bin m), jb_coinbaser_id = jm_datum_coinbaser_id m, jb_height = jm_height m,
     jb_value = jm_coinbase_value m,
     jb_totals = [jm_txn_count m, jm_txn_total_weight m, jm_txn_total_size m, jm_txn_total_sigops m],
     jb_branches = map rev (jm_merkle_branches_bin m)\<rparr>"

definition coinbase_of_meta :: "JobMeta \<Rightarrow> CoinbaseBlock" where
  "coinbase_of_meta m = \<lparr>cb_id = jm_coinbase_id m, cb_coinb1 = jm_coinb1_bin m, cb_coinb2 = jm_coinb2_bin m\<rparr>"

text \<open>The array widths of the Rust types, and the counts that the one- and two-byte length
  fields of the sub-blocks can carry.\<close>

definition meta_fits :: "JobMeta \<Rightarrow> bool" where
  "meta_fits m \<longleftrightarrow> length (jm_prevhash_bin m) = 32 \<and> length (jm_nbits_bin m) = 4
     \<and> list_all (\<lambda>b. length b = 32) (jm_merkle_branches_bin m) \<and> length (jm_merkle_branches_bin m) < 256
     \<and> length (jm_coinb1_bin m) < 2 ^ 16 \<and> length (jm_coinb2_bin m) < 2 ^ 16"

lemma read_le_append [simp]:
  "LENGTH('a) \<le> 8 * n \<Longrightarrow> read_le n (le_bytes n (w :: 'a::len word) @ r) = Some (w, r)"
  by (simp add: read_le_def le_word_le_bytes_full)

lemma read_chunks_append:
  "list_all (\<lambda>b. length b = w) cs \<Longrightarrow> n = length cs \<Longrightarrow> read_chunks w n (concat cs @ r) = Some (cs, r)"
  by (induction cs arbitrary: n) auto

lemma le_nat_length_field: "n < 2 ^ 16 \<Longrightarrow> le_nat (le_bytes 2 (of_nat n :: u16)) = n"
  by (simp add: le_nat_le_bytes unat_of_nat)

lemma read_le_byte [simp]: "read_le 1 (b # r) = Some (b :: byte, r)"
  by (simp add: read_le_def read_exact_def)

lemma read_nul_append: "0 \<notin> set u \<Longrightarrow> read_nul (u @ 0 # r) = Some (u, r)"
proof -
  assume "0 \<notin> set u"
  then have "takeWhile (\<lambda>b. b \<noteq> 0) (u @ 0 # r) = u" by (subst takeWhile_append2) auto
  then show ?thesis by (simp add: read_nul_def)
qed

lemma read_coinbase_block_written:
  "meta_fits m \<Longrightarrow> read_tagged 0x02 read_coinbase_block (coinbase_block m @ r) = Some (Some (coinbase_of_meta m), r)"
  by (simp add: read_tagged_def coinbase_block_def read_coinbase_block_def meta_fits_def le_nat_length_field
      coinbase_of_meta_def read_le_byte [unfolded One_nat_def])

lemma read_totals: "read_chunks 4 4 (le_bytes 4 a @ le_bytes 4 b @ le_bytes 4 c @ le_bytes 4 d @ r)
    = Some ([le_bytes 4 a, le_bytes 4 b, le_bytes 4 c, le_bytes 4 d], r)"
  using read_chunks_append [of 4 "[le_bytes 4 a, le_bytes 4 b, le_bytes 4 c, le_bytes 4 d]" 4 r] by simp

lemma read_job_block_written:
  assumes "meta_fits m"
  shows "read_tagged 0x01 read_job_block (job_block m @ r) = Some (Some (job_of_meta m), r)"
proof -
  have "list_all (\<lambda>b. length b = 32) (map rev (jm_merkle_branches_bin m))"
    using assms by (simp add: meta_fits_def list_all_iff)
  note c = read_chunks_append [OF this refl]
  have n: "read_exact 1 (of_nat (length (jm_merkle_branches_bin m)) # s) = Some ([of_nat (length (jm_merkle_branches_bin m))], s)" for s
    by (simp add: read_exact_def)
  have u: "unat (of_nat (length (jm_merkle_branches_bin m)) :: byte) = length (jm_merkle_branches_bin m)"
    using assms by (simp add: meta_fits_def unat_of_nat)
  show ?thesis
    using assms c [of r] u
    by (simp add: read_tagged_def job_block_def read_job_block_def meta_fits_def n [unfolded One_nat_def]
        read_totals job_of_meta_def read_le_byte [unfolded One_nat_def] le_word_le_bytes_full)
qed

section \<open>The parts of a built submission\<close>

definition share_is_block :: "libs \<Rightarrow> JobMeta \<Rightarrow> SubmittedShareInputs \<Rightarrow> bool" where
  "share_is_block X m share \<longleftrightarrow>
     hash_meets_target (double_sha256 X (share_header X m share)) (jm_block_target m)"

definition share_prefix_of :: "libs \<Rightarrow> JobMeta \<Rightarrow> SubmittedShareInputs \<Rightarrow> ShareSubmissionPrefix" where
  "share_prefix_of X m share =
     \<lparr>sp_job_id = jm_datum_job_idx m, sp_coinbase_id = jm_coinbase_id m,
      sp_flags = (if share_is_block X m share then FLAG_IS_BLOCK else 0),
      sp_target_byte = floor_pot (si_current_diff share), sp_ntime = si_ntime share,
      sp_nonce = si_nonce share, sp_version = si_version share, sp_extranonce = si_extranonce share\<rparr>"

text \<open>The per-key flag of the entry's coinbase slot; there are eight.\<close>

definition coinbase_sent :: "JobEntry \<Rightarrow> bool" where
  "coinbase_sent e = (unat (jm_coinbase_id (je_meta e)) < length (server_has_coinbase e)
     \<and> server_has_coinbase e ! unat (jm_coinbase_id (je_meta e)))"

lemma build_parts:
  assumes "build_share_submission X share entry cfg seen s = (enc, entry', s')"
  shows "\<exists>pad. pad \<noteq> [] \<and> length pad \<le> 80 \<and>
    se_body enc = share_prefix_encode (share_prefix_of X (je_meta entry) share)
      @ format_share_username (si_username share) cfg @ [0] @ replicate 4 0
      @ (if server_has_merkle_branches entry then [] else job_block (je_meta entry))
      @ (if coinbase_sent entry \<or> seen then [] else coinbase_block (je_meta entry))
      @ 0xFE # pad"
    and "se_block_submission enc = (if share_is_block X (je_meta entry) share
      then Some \<lparr>block_hex = full_block_hex X (je_meta entry) share,
        block_hash_hex = hex_encode X (rev (double_sha256 X (share_header X (je_meta entry) share)))\<rparr> else None)"
    and "je_meta entry' = je_meta entry" "server_has_merkle_branches entry'"
    and "length (server_has_coinbase entry') = length (server_has_coinbase entry)"
    and "coinbase_sent entry' = (coinbase_sent entry \<or>
      (\<not> seen \<and> unat (jm_coinbase_id (je_meta entry)) < length (server_has_coinbase entry)))"
proof -
  obtain rb s'' where p: "padding_byte s = (rb, s'')" by (cases "padding_byte s")
  note b = assms [unfolded build_share_submission_def Let_def p prod.case]
  have "unat rb mod 80 < 80" by simp
  then show "\<exists>pad. pad \<noteq> [] \<and> length pad \<le> 80 \<and>
    se_body enc = share_prefix_encode (share_prefix_of X (je_meta entry) share)
      @ format_share_username (si_username share) cfg @ [0] @ replicate 4 0
      @ (if server_has_merkle_branches entry then [] else job_block (je_meta entry))
      @ (if coinbase_sent entry \<or> seen then [] else coinbase_block (je_meta entry))
      @ 0xFE # pad"
    by (intro exI [of _ "replicate (1 + unat rb mod 80) rb"])
      (use b in \<open>auto simp: share_prefix_of_def share_is_block_def coinbase_sent_def\<close>)
  show "se_block_submission enc = (if share_is_block X (je_meta entry) share
      then Some \<lparr>block_hex = full_block_hex X (je_meta entry) share,
        block_hash_hex = hex_encode X (rev (double_sha256 X (share_header X (je_meta entry) share)))\<rparr> else None)"
    using b by (auto simp: share_is_block_def)
  show "je_meta entry' = je_meta entry" "server_has_merkle_branches entry'"
    "length (server_has_coinbase entry') = length (server_has_coinbase entry)"
    "coinbase_sent entry' = (coinbase_sent entry \<or>
      (\<not> seen \<and> unat (jm_coinbase_id (je_meta entry)) < length (server_has_coinbase entry)))"
    using b by (auto simp: coinbase_sent_def split: if_splits)
qed

lemma share_prefix_option_encode:
  "length (sp_extranonce p) = 12 \<Longrightarrow> share_prefix_option (share_prefix_encode p) = Some p"
  by (rule share_prefix.decode_encode)

lemma read_back:
  assumes "build_share_submission X share entry cfg seen s = (enc, entry', s')"
    and "meta_fits (je_meta entry)" "length (si_extranonce share) = 12"
    and "0 \<notin> set (format_share_username (si_username share) cfg)"
  shows "read_submission (se_body enc) = Some
    \<lparr>sub_prefix = share_prefix_of X (je_meta entry) share,
     sub_user = format_share_username (si_username share) cfg,
     sub_job = (if server_has_merkle_branches entry then None else Some (job_of_meta (je_meta entry))),
     sub_coinbase = (if coinbase_sent entry \<or> seen then None else Some (coinbase_of_meta (je_meta entry)))\<rparr>"
proof -
  let ?m = "je_meta entry" and ?u = "format_share_username (si_username share) cfg"
    and ?p = "share_prefix_of X (je_meta entry) share"
  obtain pad where body: "se_body enc = share_prefix_encode ?p @ ?u @ 0 # replicate 4 0
      @ (if server_has_merkle_branches entry then [] else job_block ?m)
      @ (if coinbase_sent entry \<or> seen then [] else coinbase_block ?m) @ 0xFE # pad"
    using build_parts(1) [OF assms(1)] by auto
  have x: "length (sp_extranonce ?p) = 12" using assms(3) by (simp add: share_prefix_of_def)
  have pl: "length (share_prefix_encode ?p) = 30" using share_prefix.encode_width [of ?p] x by simp
  have cb: "read_tagged 0x02 read_coinbase_block ((if coinbase_sent entry \<or> seen then [] else coinbase_block ?m) @ 0xFE # pad)
    = Some (if coinbase_sent entry \<or> seen then None else Some (coinbase_of_meta ?m), 0xFE # pad)"
    using read_coinbase_block_written [OF assms(2)] by (simp add: read_tagged_def)
  have jb: "read_tagged 0x01 read_job_block ((if server_has_merkle_branches entry then [] else job_block ?m)
      @ (if coinbase_sent entry \<or> seen then [] else coinbase_block ?m) @ 0xFE # pad)
    = Some (if server_has_merkle_branches entry then None else Some (job_of_meta ?m),
        (if coinbase_sent entry \<or> seen then [] else coinbase_block ?m) @ 0xFE # pad)"
  proof (cases "server_has_merkle_branches entry")
    case True
    then show ?thesis by (auto simp: read_tagged_def coinbase_block_def)
  qed (simp add: read_job_block_written [OF assms(2)])
  have z: "read_exact 4 (replicate 4 0 @ r) = Some (replicate 4 0, r)" for r :: bytes
    by (rule read_exact_append) simp
  show ?thesis
    unfolding body read_submission_def read_exact_append [OF pl]
    by (simp only: bind.bind_lunit prod.case share_prefix_option_encode [OF x] read_nul_append [OF assms(4)] z jb cb)
      simp
qed

text \<open>C13: A pool that reads a submission back gets exactly what the relay put in, provided that the
  formatted user name contains no NUL byte, the job's hashes and halves have the widths of their types
  and fit their length fields, and the extranonce has twelve bytes: the prefix, the formatted user
  name, the job block exactly when the entry had not announced its job, and the coinbase block
  exactly when neither the entry nor the cross-protocol sentinel had sent it; a reader never depends
  on the random padding.  Without the first condition this is false (\<open>username_forges_coinbase\<close>).\<close>

theorem submission_read_back:
  assumes "build_share_submission X share entry cfg seen s = (enc, entry', s')"
    and "meta_fits (je_meta entry)" "length (si_extranonce share) = 12"
    and "0 \<notin> set (format_share_username (si_username share) cfg)"
  shows "read_submission (se_body enc) = Some
    \<lparr>sub_prefix = share_prefix_of X (je_meta entry) share,
     sub_user = format_share_username (si_username share) cfg,
     sub_job = (if server_has_merkle_branches entry then None else Some (job_of_meta (je_meta entry))),
     sub_coinbase = (if coinbase_sent entry \<or> seen then None else Some (coinbase_of_meta (je_meta entry)))\<rparr>"
  using assms by (rule read_back)

section \<open>The pool's check of a share\<close>

text \<open>What a pool computes from the job block, the coinbase block and the prefix: it writes the
  prefix's target byte at the job's proof-of-target offset and hashes up the branches.\<close>

definition pool_coinbase :: "JobBlock \<Rightarrow> CoinbaseBlock \<Rightarrow> ShareSubmissionPrefix \<Rightarrow> bytes" where
  "pool_coinbase j c p =
     (cb_coinb1 c)[unat (jb_pot_index j) := sp_target_byte p] @ sp_extranonce p @ cb_coinb2 c"

definition pool_header :: "libs \<Rightarrow> JobBlock \<Rightarrow> CoinbaseBlock \<Rightarrow> ShareSubmissionPrefix \<Rightarrow> bytes" where
  "pool_header X j c p =
     le_bytes 4 (sp_version p) @ jb_prevhash j
     @ climb X (double_sha256 X (pool_coinbase j c p)) (jb_branches j)
     @ le_bytes 4 (sp_ntime p) @ jb_nbits j @ le_bytes 4 (sp_nonce p)"

lemma merkle_root_climb:
  "compute_merkle_root X c1 xn c2 bs = climb X (double_sha256 X (c1 @ xn @ c2)) (map rev bs)"
  by (simp add: compute_merkle_root_def climb_def foldl_map)

lemma rebuilds_header:
  assumes "case si_patched_coinb1 share of None \<Rightarrow> True
     | Some b \<Rightarrow> b = (jm_coinb1_bin m)[unat (jm_target_pot_index m) := floor_pot (si_current_diff share)]"
  shows "pool_header X (job_of_meta m) (coinbase_of_meta m) (share_prefix_of X m share) = share_header X m share"
proof -
  have c1: "coinb1_of_share m share = (jm_coinb1_bin m)[unat (jm_target_pot_index m) := floor_pot (si_current_diff share)]"
    using assms by (auto simp: coinb1_of_share_def Let_def list_update_beyond split: option.splits)
  show ?thesis
    by (simp add: pool_header_def pool_coinbase_def share_header_def merkle_root_climb c1
        job_of_meta_def coinbase_of_meta_def share_prefix_of_def)
qed


section \<open>Blocks\<close>

lemma double_sha256_length: "sha_laws X \<Longrightarrow> length (double_sha256 X b) = 32"
  by (simp add: double_sha256_def sha_laws_def)

lemma hex_decode_concat:
  "\<lbrakk>hex_laws X; map (hex_decode X) ss = map Some bs\<rbrakk> \<Longrightarrow> hex_decode X (concat ss) = Some (concat bs)"
proof (induction ss arbitrary: bs)
  case Nil
  then show ?case using hex_lawsD(6) [of X "[]"] by (simp add: ref_hex_encode_def)
next
  case (Cons s ss)
  then show ?case by (cases bs) (auto intro: hex_lawsD(5))
qed

text \<open>C7: A share is submitted as a block exactly when it is one: the builder returns a payload,
  and sets the block bit of the body, if and only if the little-endian value of the header's
  double SHA-256 is at most the target's; the payload's hex decodes to the header, the count of
  transactions plus one, the coinbase that was hashed and the template's transactions, and the
  hash hex to the hash in display order.\<close>

theorem block_submission_exact:
  assumes "hex_laws X" "sha_laws X" "length (jm_block_target (je_meta entry)) = 32"
    and "map (hex_decode X) (jm_txn_data_hex (je_meta entry)) = map Some txs"
    and "build_share_submission X share entry cfg seen s = (enc, entry', s')"
  shows "case se_block_submission enc of
      None \<Rightarrow> le_nat (jm_block_target (je_meta entry)) < le_nat (double_sha256 X (share_header X (je_meta entry) share))
        \<and> se_body enc ! 3 = 0
    | Some p \<Rightarrow> le_nat (double_sha256 X (share_header X (je_meta entry) share)) \<le> le_nat (jm_block_target (je_meta entry))
        \<and> se_body enc ! 3 = FLAG_IS_BLOCK
        \<and> hex_decode X (block_hash_hex p) = Some (rev (double_sha256 X (share_header X (je_meta entry) share)))
        \<and> hex_decode X (block_hex p) = Some (share_header X (je_meta entry) share
            @ push_varint (ucast (jm_txn_count (je_meta entry)) + 1)
            @ (coinb1_of_share (je_meta entry) share @ si_extranonce share @ jm_coinb2_bin (je_meta entry))
            @ concat txs)"
proof -
  let ?m = "je_meta entry"
  note d = hex_lawsD [OF assms(1)]
  have flag: "se_body enc ! 3 = (if share_is_block X ?m share then FLAG_IS_BLOCK else 0)"
    using build_parts(1) [OF assms(5)] by (auto simp: share_prefix_encode_def share_prefix_of_def)
  have target: "share_is_block X ?m share \<longleftrightarrow> le_nat (double_sha256 X (share_header X ?m share)) \<le> le_nat (jm_block_target ?m)"
    unfolding share_is_block_def using assms(3) double_sha256_length [OF assms(2)] by (intro hash_meets_target_le)
  have "hex_decode X (full_block_hex X ?m share) = Some (share_header X ?m share
      @ push_varint (ucast (jm_txn_count ?m) + 1)
      @ (coinb1_of_share ?m share @ si_extranonce share @ jm_coinb2_bin ?m) @ concat txs)"
    unfolding full_block_hex_def
    by (intro d(5) d(1) push_varint_hex_decode [OF assms(1)] hex_decode_concat [OF assms(1,4)])
  then show ?thesis
    using build_parts(2) [OF assms(5)] flag target d(1) by simp
qed

section \<open>Forged sub-blocks\<close>

text \<open>The user name can forge a sub-block: nothing keeps a NUL byte out of it, so a miner
  whose full user name is forwarded can end the user field early and write a coinbase block of
  its own; on a share that needs no block of the relay's, the pool reads the miner's coinbase
  for the relay's job.  The name can be plain ASCII.\<close>

theorem username_forges_coinbase:
  assumes "build_share_submission X share entry cfg seen s = (enc, entry', s')"
    and "server_has_merkle_branches entry" "coinbase_sent entry \<or> seen"
    and "pass_full_users cfg" "u \<noteq> []" "hd u \<noteq> 0x2E" "0 \<notin> set u"
    and "meta_fits forged" "coinbase_block forged = blk @ replicate 5 0"
    and "si_username share = u @ replicate 5 0 @ blk" "length (si_username share) \<le> 384"
    and "length (si_extranonce share) = 12"
  shows "read_submission (se_body enc) = Some
    \<lparr>sub_prefix = share_prefix_of X (je_meta entry) share, sub_user = u, sub_job = None,
     sub_coinbase = Some (coinbase_of_meta forged)\<rparr>"
proof -
  let ?p = "share_prefix_of X (je_meta entry) share"
  have f: "format_share_username (si_username share) cfg = u @ replicate 5 0 @ blk"
    using assms(4-6,10,11) by (auto simp: format_share_username_def Let_def)
  have r5: "replicate 5 (0 :: byte) = 0 # replicate 4 0" "replicate 5 (0 :: byte) = [0] @ replicate 4 0"
    by (simp_all add: eval_nat_numeral)
  obtain pad where "se_body enc = share_prefix_encode ?p @ (u @ replicate 5 0 @ blk) @ [0] @ replicate 4 0 @ [] @ [] @ 0xFE # pad"
    using build_parts(1) [OF assms(1)] assms(2,3) by (auto simp: f)
  also have "\<dots> = share_prefix_encode ?p @ u @ replicate 5 0 @ (blk @ replicate 5 0) @ 0xFE # pad"
    by (simp add: r5(2))
  also have "\<dots> = share_prefix_encode ?p @ u @ 0 # replicate 4 0 @ coinbase_block forged @ 0xFE # pad"
    using assms(9) by (simp add: r5(1))
  finally have body: "se_body enc = share_prefix_encode ?p @ u @ 0 # replicate 4 0 @ coinbase_block forged @ 0xFE # pad" .
  have x: "length (sp_extranonce ?p) = 12" using assms(12) by (simp add: share_prefix_of_def)
  have pl: "length (share_prefix_encode ?p) = 30" using share_prefix.encode_width [of ?p] x by simp
  have z: "read_exact 4 (replicate 4 0 @ r) = Some (replicate 4 0, r)" for r :: bytes
    by (rule read_exact_append) simp
  have jb: "read_tagged 0x01 read_job_block (coinbase_block forged @ 0xFE # pad) = Some (None, coinbase_block forged @ 0xFE # pad)"
    by (simp add: read_tagged_def coinbase_block_def)
  show ?thesis
    unfolding body read_submission_def read_exact_append [OF pl]
    by (simp only: bind.bind_lunit prod.case share_prefix_option_encode [OF x] read_nul_append [OF assms(7)] z jb
        read_coinbase_block_written [OF assms(8)]) simp
qed

section \<open>Concrete submissions\<close>

definition sample_share :: SubmittedShareInputs where
  "sample_share = \<lparr>si_username = ascii ''rig'', si_extranonce = replicate 12 3, si_ntime = 0x5a, si_nonce = 7,
     si_version = 0x20000000, si_current_diff = 1024, si_patched_coinb1 = Some [1, 1, 10, 1, 1]\<rparr>"

definition sample_cfg :: ShareUserConfig where
  "sample_cfg = \<lparr>pool_address = ascii ''bc1q'', pass_full_users = True, pass_workers = False\<rparr>"

lemma floor_pot_unique:
  assumes "2 ^ p \<le> unat x" "unat x < 2 ^ (p + 1)"
  shows "unat (floor_pot x) = p"
proof -
  have "x \<noteq> 0" using assms(1) by auto
  note r = floor_pot_range [OF this]
  have "(2 :: nat) ^ unat (floor_pot x) < 2 ^ (p + 1)" "(2 :: nat) ^ p < 2 ^ (unat (floor_pot x) + 1)"
    using r assms by (auto intro: le_less_trans)
  then have "unat (floor_pot x) < p + 1" "p < unat (floor_pot x) + 1"
    by (auto intro: power_less_imp_less_exp [of "2 :: nat"] simp del: power_Suc add_2_eq_Suc' simp flip: Suc_eq_plus1)
  then show ?thesis by simp
qed

lemma floor_pot_1024: "floor_pot 1024 = 10"
  using floor_pot_unique [of 10 1024] by (simp add: word_unat_eq_iff)

lemma sample_meta_fits: "meta_fits (sample_meta i)"
  by (simp add: meta_fits_def sample_meta_def)

lemma sample_xn: "length (si_extranonce sample_share) = 12" by (simp add: sample_share_def)

theorem submission_read_back_witness:
  "map_option sub_user (read_submission (se_body (fst (build_share_submission plain_libs sample_share
      (new_entry (sample_meta 3) 1) sample_cfg False PADDING_SEED)))) = Some (ascii ''rig'')
   \<and> map_option sub_job (read_submission (se_body (fst (build_share_submission plain_libs sample_share
      (new_entry (sample_meta 3) 1) sample_cfg False PADDING_SEED)))) = Some (Some (job_of_meta (sample_meta 3)))"
proof -
  obtain enc e s where b: "build_share_submission plain_libs sample_share (new_entry (sample_meta 3) 1) sample_cfg
      False PADDING_SEED = (enc, e, s)" by (rule prod_cases3)
  have m: "je_meta (new_entry (sample_meta 3) 1) = sample_meta 3" "\<not> server_has_merkle_branches (new_entry (sample_meta 3) 1)"
    by (simp_all add: new_entry_def)
  have u: "format_share_username (si_username sample_share) sample_cfg = ascii ''rig''"
    by (simp add: format_share_username_def sample_share_def sample_cfg_def ascii_def)
  have "0 \<notin> set (format_share_username (si_username sample_share) sample_cfg)" unfolding u by (simp add: ascii_def)
  from submission_read_back [OF b _ _ this] show ?thesis
    using m sample_meta_fits sample_xn by (simp add: b u)
qed


theorem block_submission_exact_witness:
  "\<exists>p. se_block_submission (fst (build_share_submission plain_libs sample_share (new_entry (sample_meta 3) 1)
      sample_cfg False PADDING_SEED)) = Some p \<and>
    hex_decode plain_libs (block_hex p) = Some (share_header plain_libs (sample_meta 3) sample_share
      @ push_varint 1 @ (coinb1_of_share (sample_meta 3) sample_share @ si_extranonce sample_share @ [2, 2]))"
proof -
  obtain enc e s where b: "build_share_submission plain_libs sample_share (new_entry (sample_meta 3) 1) sample_cfg
      False PADDING_SEED = (enc, e, s)" by (rule prod_cases3)
  have m: "je_meta (new_entry (sample_meta 3) 1) = sample_meta 3" by (simp add: new_entry_def)
  have t: "length (jm_block_target (sample_meta 3)) = 32" "map (hex_decode plain_libs) (jm_txn_data_hex (sample_meta 3)) = map Some []"
    "jm_txn_count (sample_meta 3) = 0" "jm_coinb2_bin (sample_meta 3) = [2, 2]"
    "jm_block_target (sample_meta 3) = replicate 32 0xFF"
    by (simp_all add: sample_meta_def)
  have max: "le_nat h \<le> le_nat (replicate 32 0xFF)" if "length h = 32" for h
    using le_nat_bound [of h] le_nat_max [of 32] that by simp
  note h = max [OF double_sha256_length [OF plain_libs_laws(2)]]
  show ?thesis
    using block_submission_exact [OF plain_libs_laws, of "new_entry (sample_meta 3) 1" "[]", unfolded m, OF t(1,2) b] h
    by (auto simp: b t not_less [symmetric] split: option.splits)
qed

definition forged_meta :: JobMeta where
  "forged_meta = (sample_meta 3)\<lparr>jm_coinb1_bin := ascii ''pay'', jm_coinb2_bin := ascii ''me'' @ replicate 5 0\<rparr>"

definition forged_name :: bytes where
  "forged_name = ascii ''u'' @ replicate 5 0 @ ([0x02, 0, 3, 0, 7, 0] @ ascii ''payme'')"

theorem username_forges_coinbase_witness:
  "list_all (\<lambda>b. b < 0x80) forged_name \<and>
   map_option sub_coinbase (read_submission (se_body (fst (build_share_submission plain_libs
      (sample_share\<lparr>si_username := forged_name\<rparr>) ((new_entry (sample_meta 3) 1)\<lparr>server_has_merkle_branches := True\<rparr>)
      sample_cfg True PADDING_SEED)))) = Some (Some (coinbase_of_meta forged_meta))"
proof -
  let ?e = "(new_entry (sample_meta 3) 1)\<lparr>server_has_merkle_branches := True\<rparr>"
  obtain enc e s where b: "build_share_submission plain_libs (sample_share\<lparr>si_username := forged_name\<rparr>) ?e sample_cfg
      True PADDING_SEED = (enc, e, s)" by (rule prod_cases3)
  have blk: "coinbase_block forged_meta = ([0x02, 0, 3, 0, 7, 0] @ ascii ''payme'') @ replicate 5 0"
    by (simp add: coinbase_block_def forged_meta_def sample_meta_def ascii_def le_bytes_def upt_rec)
  have fits: "meta_fits forged_meta" by (simp add: meta_fits_def forged_meta_def sample_meta_def ascii_def)
  have n: "forged_name = ascii ''u'' @ replicate 5 0 @ ([0x02, 0, 3, 0, 7, 0] @ ascii ''payme'')"
    by (simp only: forged_name_def)
  have len: "length forged_name = 17" by (simp add: n ascii_def)
  have "list_all (\<lambda>b. b < 0x80) forged_name"
    by (simp add: n ascii_def list_all_iff)
  moreover have "read_submission (se_body enc) = Some
    \<lparr>sub_prefix = share_prefix_of plain_libs (je_meta ?e) (sample_share\<lparr>si_username := forged_name\<rparr>), sub_user = ascii ''u'',
     sub_job = None, sub_coinbase = Some (coinbase_of_meta forged_meta)\<rparr>"
    by (rule username_forges_coinbase [OF b _ _ _ _ _ _ fits blk])
      (simp_all add: len, simp_all add: sample_cfg_def ascii_def sample_share_def n)
  ultimately show ?thesis by (simp add: b)
qed

end
