(* ===== verification/Sv1Server.thy ===== *)
theory Sv1Server
  imports ShareEncoder
begin

text \<open>
  The SV1 connection task of \<open>crates/datum-stratum-sv1/src/server.rs\<close> and the message
  types of \<open>lib.rs\<close>: one function per arm of the select loop and per request method, over
  the connection's local state.  What the task reads from its watch channels (the latest
  notify job, the pool's minimum difficulty) is an argument; what it writes to the socket and
  to the submit channel is a result.  Parsing a line as JSON is serde's: a line is given as
  its parse.  A failed write ends the task, which is an event sequence that stops.
\<close>

unbundle bit_operations_syntax

section \<open>JSON and text\<close>

fun as_array :: "json \<Rightarrow> json list option" where
  "as_array (JArr xs) = Some xs" | "as_array _ = None"

fun as_object :: "json \<Rightarrow> (string \<times> json) list option" where
  "as_object (JObj m) = Some m" | "as_object _ = None"

fun as_str :: "json \<Rightarrow> string option" where
  "as_str (JStr s) = Some s" | "as_str _ = None"

definition nth_opt :: "'a list \<Rightarrow> nat \<Rightarrow> 'a option" where
  "nth_opt xs i = (if i < length xs then Some (xs ! i) else None)"

text \<open>\<open>u32::from_str_radix(s, 16)\<close>.\<close>

definition radix16_digit :: "char \<Rightarrow> nat option" where
  "radix16_digit c =
     (case digit_index ''0123456789abcdef'' c of
        Some d \<Rightarrow> Some d | None \<Rightarrow> digit_index ''0123456789ABCDEF'' c)"

fun radix16 :: "nat \<Rightarrow> string \<Rightarrow> nat option" where
  "radix16 acc [] = Some acc"
| "radix16 acc (c # cs) =
     (case radix16_digit c of None \<Rightarrow> None
      | Some d \<Rightarrow> if 16 * acc + d < 2 ^ 32 then radix16 (16 * acc + d) cs else None)"

definition from_str_radix16 :: "string \<Rightarrow> u32 option" where
  "from_str_radix16 s =
     (case s of [] \<Rightarrow> None
      | c # r \<Rightarrow> map_option of_nat (radix16 0 (if c = CHR ''+'' \<and> r \<noteq> [] then r else s)))"

text \<open>\<open>s.trim_start_matches("0x")\<close>.\<close>

fun trim_0x :: "string \<Rightarrow> string" where
  "trim_0x (c # d # s) = (if c = CHR ''0'' \<and> d = CHR ''x'' then trim_0x s else c # d # s)"
| "trim_0x s = s"

definition extranonce1 :: "u16 \<Rightarrow> u32 \<Rightarrow> u32" where
  "extranonce1 thread_id client_id = push_bit 22 (ucast thread_id) OR (client_id XOR 0xB10CF00D)"

record StratumRequest =
  rq_id :: json
  rq_method :: string
  rq_params :: json

datatype out = Reply json json json \<comment> \<open>id, result, error\<close> | Push string json \<comment> \<open>method, params\<close>

definition reply_ok :: "json \<Rightarrow> json \<Rightarrow> out" where "reply_ok i r = Reply i r JNull"

definition reply_err :: "json \<Rightarrow> int \<Rightarrow> string \<Rightarrow> out" where
  "reply_err i code message = Reply i JNull (JArr [JInt code, JStr message, JNull])"

section \<open>State\<close>

definition POOL_VERSION_MASK :: u32 where "POOL_VERSION_MASK = 0x1fffe000"

record NotifyJob =
  nj_params :: json
  nj_target_pot_index :: u16
  nj_coinb1_bin :: bytes
  nj_job_id :: string

definition notify_job_new :: "json \<Rightarrow> u16 \<Rightarrow> NotifyJob" where
  "notify_job_new params pot = \<lparr>nj_params = params, nj_target_pot_index = pot, nj_coinb1_bin = [], nj_job_id = []\<rparr>"

definition notify_job_with_coinb1 :: "json \<Rightarrow> u16 \<Rightarrow> bytes \<Rightarrow> string \<Rightarrow> NotifyJob" where
  "notify_job_with_coinb1 params pot c1 job_id =
     \<lparr>nj_params = params, nj_target_pot_index = pot, nj_coinb1_bin = c1, nj_job_id = job_id\<rparr>"

record SubmittedShare =
  ss_username :: string
  ss_job_id :: string
  ss_extranonce2_hex :: string
  ss_ntime_hex :: string
  ss_nonce_hex :: string
  ss_extranonce1 :: bytes \<comment> \<open>\<open>[u8; 4]\<close>\<close>
  ss_version_rolling :: u32
  ss_current_diff :: u64
  ss_patched_coinb1 :: "bytes option"

record VardiffParams =
  vd_min :: u64
  vd_target_shares_min :: u32
  vd_recheck_secs :: u64
  vd_max :: u64

definition default_vardiff :: VardiffParams where
  "default_vardiff = \<lparr>vd_min = 1, vd_target_shares_min = 8, vd_recheck_secs = 30, vd_max = 2 ^ 40\<rparr>"

record ServerState =
  sv_thread_id :: u16
  sv_submit_wired :: bool
  sv_vardiff :: VardiffParams

definition server_new :: ServerState where
  "server_new = \<lparr>sv_thread_id = 0, sv_submit_wired = False, sv_vardiff = default_vardiff\<rparr>"

definition with_submit_tx :: "ServerState \<Rightarrow> ServerState" where "with_submit_tx st = st\<lparr>sv_submit_wired := True\<rparr>"

definition with_vardiff :: "VardiffParams \<Rightarrow> ServerState \<Rightarrow> ServerState" where "with_vardiff v st = st\<lparr>sv_vardiff := v\<rparr>"

record EmittedJob =
  ej_job_id :: string
  ej_patched_coinb1 :: bytes
  ej_diff :: u64

record Conn =
  cn_client_id :: u32
  cn_xn1 :: u32
  cn_subscribed :: bool
  cn_authorized :: bool
  cn_username :: string
  cn_rolling_enabled :: bool
  cn_rolling_mask :: u32
  cn_min_diff_acked :: bool
  cn_xn_sub_acked :: bool
  cn_diff :: u64
  cn_shares :: u32
  cn_ring :: "EmittedJob option \<times> EmittedJob option"
  cn_pool_min_alive :: bool

text \<open>The current contents of the two watch channels.\<close>

record World =
  latest_job :: "NotifyJob option"
  pool_min :: u64

definition new_conn :: "ServerState \<Rightarrow> World \<Rightarrow> u32 \<Rightarrow> Conn" where
  "new_conn st w client_id =
     \<lparr>cn_client_id = client_id, cn_xn1 = extranonce1 (sv_thread_id st) client_id, cn_subscribed = False,
      cn_authorized = False, cn_username = [], cn_rolling_enabled = False, cn_rolling_mask = 0,
      cn_min_diff_acked = False, cn_xn_sub_acked = False, cn_diff = max (vd_min (sv_vardiff st)) (pool_min w),
      cn_shares = 0, cn_ring = (None, None), cn_pool_min_alive = True\<rparr>"

section \<open>Emitting a job\<close>

definition ring_push :: "EmittedJob option \<times> EmittedJob option \<Rightarrow> EmittedJob \<Rightarrow> EmittedJob option \<times> EmittedJob option" where
  "ring_push ring e = (Some e, fst ring)"

definition ring_items :: "EmittedJob option \<times> EmittedJob option \<Rightarrow> EmittedJob list" where
  "ring_items ring = concat (map (\<lambda>s. case s of None \<Rightarrow> [] | Some e \<Rightarrow> [e]) [fst ring, snd ring])"

definition ring_lookup :: "EmittedJob option \<times> EmittedJob option \<Rightarrow> string \<Rightarrow> EmittedJob option" where
  "ring_lookup ring job_id = find (\<lambda>e. ej_job_id e = job_id) (ring_items ring)"

definition sv1_floor_pot :: "u64 \<Rightarrow> byte" where
  "sv1_floor_pot x = (if x = 0 then 0 else of_nat (63 - leading_zeros x))"

definition patch_coinb1_bytes :: "bytes \<Rightarrow> u16 \<Rightarrow> u64 \<Rightarrow> bytes" where
  "patch_coinb1_bytes c1 pot diff =
     (if pot = 0 then c1
      else if unat pot < length c1 then c1[unat pot := sv1_floor_pot diff] else c1)"

definition patch_coinb1_pot_byte :: "json \<Rightarrow> u16 \<Rightarrow> u64 \<Rightarrow> json" where
  "patch_coinb1_pot_byte params pot diff =
     (if pot = 0 then params
      else case as_array params of None \<Rightarrow> params
        | Some arr \<Rightarrow> (case Option.bind (nth_opt arr 2) as_str of None \<Rightarrow> params
            | Some h \<Rightarrow>
                let hex_offset = unat pot * 2 in
                if hex_offset + 2 > length h then params
                else JArr (arr[2 := JStr (take hex_offset h @ hex_of_byte (sv1_floor_pot diff) @ drop (hex_offset + 2) h)])))"

definition send_notify :: "NotifyJob \<Rightarrow> u64 \<Rightarrow> out" where
  "send_notify job diff = Push ''mining.notify'' (patch_coinb1_pot_byte (nj_params job) (nj_target_pot_index job) diff)"

definition send_set_difficulty :: "u64 \<Rightarrow> out" where
  "send_set_difficulty diff = Push ''mining.set_difficulty'' (JArr [JNum (unat diff)])"

definition send_set_version_mask :: "u32 \<Rightarrow> out" where
  "send_set_version_mask m = Push ''mining.set_version_mask'' (JArr [JStr (hex8 m)])"

definition emitted :: "NotifyJob \<Rightarrow> u64 \<Rightarrow> EmittedJob" where
  "emitted job diff = \<lparr>ej_job_id = nj_job_id job,
     ej_patched_coinb1 = patch_coinb1_bytes (nj_coinb1_bin job) (nj_target_pot_index job) diff, ej_diff = diff\<rparr>"

text \<open>The pending job, if any: remember what is emitted, then send it.\<close>

definition emit_pending :: "World \<Rightarrow> Conn \<Rightarrow> Conn \<times> out list" where
  "emit_pending w c =
     (case latest_job w of None \<Rightarrow> (c, [])
      | Some job \<Rightarrow> (c\<lparr>cn_ring := ring_push (cn_ring c) (emitted job (cn_diff c))\<rparr>, [send_notify job (cn_diff c)]))"

section \<open>Requests\<close>

definition requested_mask :: "(string \<times> json) list option \<Rightarrow> u32" where
  "requested_mask opts =
     (case Option.bind (Option.bind (Option.bind opts (\<lambda>m. map_of m ''version-rolling.mask'')) as_str)
             (\<lambda>s. from_str_radix16 (trim_0x s)) of
        Some m \<Rightarrow> m | None \<Rightarrow> POOL_VERSION_MASK)"

definition configure_ext ::
  "(string \<times> json) list option \<Rightarrow> json \<Rightarrow> Conn \<times> (string \<times> json) list \<times> u32 option
     \<Rightarrow> Conn \<times> (string \<times> json) list \<times> u32 option" where
  "configure_ext opts ext acc =
     (case acc of (c, obj, neg) \<Rightarrow>
      (case as_str ext of None \<Rightarrow> acc
       | Some name \<Rightarrow>
           if name = ''version-rolling'' then
             let m = requested_mask opts AND POOL_VERSION_MASK
             in (c\<lparr>cn_rolling_enabled := True, cn_rolling_mask := m\<rparr>,
                 AList.update ''version-rolling.mask'' (JStr (hex8 m)) (AList.update ''version-rolling'' (JBool True) obj),
                 Some m)
           else if name = ''minimum-difficulty'' then
             (c\<lparr>cn_min_diff_acked := True\<rparr>, AList.update ''minimum-difficulty'' (JBool True) obj, neg)
           else if name = ''subscribe-extranonce'' then
             (c\<lparr>cn_xn_sub_acked := True\<rparr>, AList.update ''subscribe-extranonce'' (JBool True) obj, neg)
           else acc))"

definition handle_configure :: "StratumRequest \<Rightarrow> Conn \<Rightarrow> Conn \<times> out list" where
  "handle_configure req c =
     (let arr = as_array (rq_params req);
          names = Option.bind (Option.bind arr (\<lambda>a. nth_opt a 0)) as_array;
          opts = Option.bind (Option.bind arr (\<lambda>a. nth_opt a 1)) as_object
      in case names of
           None \<Rightarrow> (c, [reply_err (rq_id req) 20 ''Malformed mining.configure params''])
         | Some ns \<Rightarrow>
             (let (c', obj, neg) = foldl (\<lambda>acc e. configure_ext opts e acc) (c, [], None) ns
              in (c', reply_ok (rq_id req) (JObj obj)
                    # (case neg of None \<Rightarrow> [] | Some m \<Rightarrow> [send_set_version_mask m]))))"

definition handle_subscribe :: "StratumRequest \<Rightarrow> Conn \<Rightarrow> Conn \<times> out list" where
  "handle_subscribe req c =
     (let result = JArr [JArr [JArr [JStr ''mining.set_difficulty'', JStr ''1''],
                               JArr [JStr ''mining.notify'', JStr (hex8 (cn_client_id c))]],
                         JStr (hex8 (cn_xn1 c)), JNum 8]
      in (c\<lparr>cn_subscribed := True\<rparr>, [reply_ok (rq_id req) result, send_set_difficulty (cn_diff c)]))"

definition handle_authorize :: "World \<Rightarrow> StratumRequest \<Rightarrow> Conn \<Rightarrow> Conn \<times> out list" where
  "handle_authorize w req c =
     (let c1 = (case Option.bind (Option.bind (as_array (rq_params req)) (\<lambda>a. nth_opt a 0)) as_str of
                  Some name \<Rightarrow> c\<lparr>cn_username := name\<rparr> | None \<Rightarrow> c);
          (c2, outs) = emit_pending w (c1\<lparr>cn_authorized := True\<rparr>)
      in (c2, reply_ok (rq_id req) (JBool True) # outs))"

record ParsedSubmit =
  ps_username :: string
  ps_job_id :: string
  ps_extranonce2_hex :: string
  ps_ntime_hex :: string
  ps_nonce_hex :: string
  ps_version_rolling_raw :: "u32 option"

definition parse_submit_params :: "json \<Rightarrow> ParsedSubmit option" where
  "parse_submit_params params =
     Option.bind (as_array params) (\<lambda>arr.
       if length arr < 5 then None
       else Option.bind (as_str (arr ! 0)) (\<lambda>username. Option.bind (as_str (arr ! 1)) (\<lambda>job_id.
            Option.bind (as_str (arr ! 2)) (\<lambda>xn2. Option.bind (as_str (arr ! 3)) (\<lambda>ntime.
            Option.bind (as_str (arr ! 4)) (\<lambda>nonce.
              Some \<lparr>ps_username = username, ps_job_id = job_id, ps_extranonce2_hex = xn2, ps_ntime_hex = ntime,
                ps_nonce_hex = nonce,
                ps_version_rolling_raw = Option.bind (Option.bind (nth_opt arr 5) as_str)
                  (\<lambda>s. from_str_radix16 (trim_0x s))\<rparr>))))))"

text \<open>The rolled version bits of a submit; None where the share is refused.\<close>

definition rolled_version :: "Conn \<Rightarrow> ParsedSubmit \<Rightarrow> u32 option" where
  "rolled_version c s =
     (if cn_rolling_enabled c
      then (case ps_version_rolling_raw s of
              Some nv \<Rightarrow> if nv AND NOT (cn_rolling_mask c) = 0 then Some (nv AND cn_rolling_mask c) else None
            | None \<Rightarrow> None)
      else Some 0)"

definition submitted_share :: "Conn \<Rightarrow> ParsedSubmit \<Rightarrow> u32 \<Rightarrow> SubmittedShare" where
  "submitted_share c s version_rolling =
     (let e = ring_lookup (cn_ring c) (ps_job_id s)
      in \<lparr>ss_username = (if ps_username s = [] then cn_username c else ps_username s),
          ss_job_id = ps_job_id s, ss_extranonce2_hex = ps_extranonce2_hex s, ss_ntime_hex = ps_ntime_hex s,
          ss_nonce_hex = ps_nonce_hex s, ss_extranonce1 = be_bytes 4 (cn_xn1 c),
          ss_version_rolling = version_rolling,
          ss_current_diff = (case e of Some x \<Rightarrow> ej_diff x | None \<Rightarrow> cn_diff c),
          ss_patched_coinb1 = map_option ej_patched_coinb1 e\<rparr>)"

definition handle_submit :: "ServerState \<Rightarrow> StratumRequest \<Rightarrow> Conn \<Rightarrow> Conn \<times> out list \<times> SubmittedShare list" where
  "handle_submit st req c =
     (if \<not> cn_subscribed c then (c, [reply_err (rq_id req) 25 ''Not subscribed''], [])
      else if \<not> cn_authorized c then (c, [reply_err (rq_id req) 24 ''Unauthorized worker''], [])
      else case parse_submit_params (rq_params req) of
        None \<Rightarrow> (c, [reply_err (rq_id req) 20 ''Malformed mining.submit params''], [])
      | Some s \<Rightarrow>
          (case rolled_version c s of
             None \<Rightarrow> (c, [reply_err (rq_id req) 23 ''Bad version''], [])
           | Some v \<Rightarrow>
               (c\<lparr>cn_shares := saturating_add (cn_shares c) 1\<rparr>, [reply_ok (rq_id req) (JBool True)],
                if sv_submit_wired st then [submitted_share c s v] else [])))"

definition handle_request ::
  "ServerState \<Rightarrow> World \<Rightarrow> StratumRequest \<Rightarrow> Conn \<Rightarrow> Conn \<times> out list \<times> SubmittedShare list" where
  "handle_request st w req c =
     (let quiet = (\<lambda>(c', outs). (c', outs, []))
      in if rq_method req = ''mining.configure'' then quiet (handle_configure req c)
         else if rq_method req = ''mining.subscribe'' then quiet (handle_subscribe req c)
         else if rq_method req = ''mining.authorize'' then quiet (handle_authorize w req c)
         else if rq_method req = ''mining.submit'' then handle_submit st req c
         else if rq_method req = ''mining.suggest_difficulty''
              then (c, [reply_ok (rq_id req) (JBool True)], [])
         else (c, [reply_err (rq_id req) 20 (''Unknown method: '' @ rq_method req)], []))"

section \<open>Variable difficulty\<close>

definition expected_shares :: "VardiffParams \<Rightarrow> u64 \<Rightarrow> u64" where
  "expected_shares v elapsed =
     max (div_ceil (ucast (vd_target_shares_min v) * max elapsed 1) 60) 1"

definition diff_floor :: "ServerState \<Rightarrow> World \<Rightarrow> u64" where
  "diff_floor st w = max (vd_min (sv_vardiff st)) (pool_min w)"

definition vardiff_new :: "ServerState \<Rightarrow> World \<Rightarrow> u64 \<Rightarrow> Conn \<Rightarrow> u64" where
  "vardiff_new st w elapsed c =
     (let v = sv_vardiff st; expected = expected_shares v elapsed; observed = ucast (cn_shares c) :: u64;
          new_diff = (if 16 \<le> observed \<and> observed > saturating_mul expected 2
                      then min (saturating_mul (cn_diff c) 2) (vd_max v)
                      else if saturating_mul observed 2 < expected \<and> vd_recheck_secs v \<le> elapsed
                      then max (cn_diff c div 2) (vd_min v)
                      else cn_diff c)
      in if new_diff < diff_floor st w then diff_floor st w else new_diff)"

text \<open>A new difficulty is announced, and the current job sent again under it.\<close>

definition change_diff :: "World \<Rightarrow> u64 \<Rightarrow> Conn \<Rightarrow> Conn \<times> out list" where
  "change_diff w d c =
     (let c1 = c\<lparr>cn_diff := d\<rparr>;
          (c2, outs) = (if cn_authorized c1 then emit_pending w c1 else (c1, []))
      in (c2, send_set_difficulty d # outs))"

definition handle_tick :: "ServerState \<Rightarrow> World \<Rightarrow> u64 \<Rightarrow> Conn \<Rightarrow> Conn \<times> out list" where
  "handle_tick st w elapsed c =
     (let new_diff = vardiff_new st w elapsed c;
          (c1, outs) = (if new_diff \<noteq> cn_diff c \<and> cn_subscribed c then change_diff w new_diff c else (c, []))
      in (c1\<lparr>cn_shares := 0\<rparr>, outs))"

definition handle_pool_min :: "ServerState \<Rightarrow> World \<Rightarrow> Conn \<Rightarrow> Conn \<times> out list" where
  "handle_pool_min st w c =
     (if \<not> cn_pool_min_alive c then (c, [])
      else if diff_floor st w > cn_diff c \<and> cn_subscribed c then change_diff w (diff_floor st w) c
      else (c, []))"

definition handle_notify :: "World \<Rightarrow> Conn \<Rightarrow> Conn \<times> out list" where
  "handle_notify w c = (if cn_subscribed c \<and> cn_authorized c then emit_pending w c else (c, []))"

section \<open>The connection task\<close>

datatype line = Blank | Unparsed | Request StratumRequest

datatype event =
  Line line | PeerClosed
| NotifyChanged | NotifySenderDropped
| PoolMinChanged | PoolMinSenderDropped
| DiffTick u64 \<comment> \<open>whole seconds since the last snapshot\<close>

definition step :: "ServerState \<Rightarrow> World \<Rightarrow> event \<Rightarrow> Conn \<Rightarrow> Conn option \<times> out list \<times> SubmittedShare list" where
  "step st w ev c =
     (let quiet = (\<lambda>(c', outs). (Some c', outs, []))
      in case ev of
           Line l \<Rightarrow>
             (case l of
                Blank \<Rightarrow> (Some c, [], [])
              | Unparsed \<Rightarrow> (Some c, [reply_err JNull (- 32700) ''Parse error''], [])
              | Request req \<Rightarrow> (let (c', outs, shares) = handle_request st w req c in (Some c', outs, shares)))
         | PeerClosed \<Rightarrow> (None, [], [])
         | NotifyChanged \<Rightarrow> quiet (handle_notify w c)
         | NotifySenderDropped \<Rightarrow> (None, [], [])
         | PoolMinChanged \<Rightarrow> quiet (handle_pool_min st w c)
         | PoolMinSenderDropped \<Rightarrow> (Some (c\<lparr>cn_pool_min_alive := False\<rparr>), [], [])
         | DiffTick elapsed \<Rightarrow> quiet (handle_tick st w elapsed c))"

fun run_conn :: "ServerState \<Rightarrow> Conn \<Rightarrow> (World \<times> event) list \<Rightarrow> Conn option \<times> out list \<times> SubmittedShare list" where
  "run_conn st c [] = (Some c, [], [])"
| "run_conn st c ((w, ev) # rest) =
     (case step st w ev c of
        (None, outs, shares) \<Rightarrow> (None, outs, shares)
      | (Some c', outs, shares) \<Rightarrow>
          (let (r, outs', shares') = run_conn st c' rest in (r, outs @ outs', shares @ shares')))"

section \<open>The accept loop\<close>

text \<open>The shutdown channel changes (None where its sender is gone), a connection is accepted, or
  accepting fails.\<close>

datatype accept_event = ShutdownSeen "bool option" | ConnAccepted | AcceptError

text \<open>The number of connection tasks spawned, and whether the loop has returned.\<close>

fun server_run :: "accept_event list \<Rightarrow> nat \<times> bool" where
  "server_run [] = (0, False)"
| "server_run (ShutdownSeen r # evs) = (if r \<noteq> Some False then (0, True) else server_run evs)"
| "server_run (ConnAccepted # evs) = apfst Suc (server_run evs)"
| "server_run (AcceptError # evs) = server_run evs"

fun stops_server :: "accept_event \<Rightarrow> bool" where
  "stops_server (ShutdownSeen r) \<longleftrightarrow> r \<noteq> Some False"
| "stops_server ev \<longleftrightarrow> False"

text \<open>A failed accept never ends the loop; the first shutdown does, and a dropped sender with it.\<close>

theorem server_run_until_shutdown:
  "server_run evs = (count_list (takeWhile (\<lambda>ev. \<not> stops_server ev) evs) ConnAccepted, list_ex stops_server evs)"
  by (induction evs rule: server_run.induct) auto

section \<open>Requests are answered once\<close>

fun is_push :: "out \<Rightarrow> bool" where
  "is_push (Push m p) = True" | "is_push (Reply i r e) = False"

lemma emit_pending_push: "list_all is_push (snd (emit_pending w c))"
  by (simp add: emit_pending_def send_notify_def split: option.splits)

lemmas handler_defs = handle_configure_def handle_subscribe_def handle_authorize_def handle_submit_def
  reply_ok_def reply_err_def send_set_difficulty_def send_set_version_mask_def

lemma handle_request_reply:
  assumes "handle_request st w req c = (c', outs, shares)"
  shows "\<exists>res er pushes. outs = Reply (rq_id req) res er # pushes \<and> list_all is_push pushes"
proof -
  have a: "\<exists>res er pushes. snd (handle_configure req c) = Reply (rq_id req) res er # pushes \<and> list_all is_push pushes"
    by (simp add: handler_defs Let_def split: option.splits prod.splits)
  have b: "\<exists>res er pushes. snd (handle_authorize w req c) = Reply (rq_id req) res er # pushes \<and> list_all is_push pushes"
    using emit_pending_push by (auto simp: handler_defs Let_def split: prod.splits) (metis snd_conv)+
  show ?thesis
    using assms a b by (auto simp: handle_request_def handler_defs Let_def split: if_splits prod.splits option.splits)
qed

text \<open>Every request line is answered exactly once: whatever the method and the state of the
  connection, the task keeps running and writes one reply carrying the request's id, followed
  only by server pushes; a line that is not JSON gets the parse error with a null id.\<close>

theorem one_reply_per_request:
  "(\<exists>c' res er pushes shares. step st w (Line (Request req)) c = (Some c', Reply (rq_id req) res er # pushes, shares)
      \<and> list_all is_push pushes)
   \<and> step st w (Line Unparsed) c = (Some c, [Reply JNull JNull (JArr [JInt (- 32700), JStr ''Parse error'', JNull])], [])"
proof -
  obtain c' outs shares where h: "handle_request st w req c = (c', outs, shares)" by (rule prod_cases3)
  from handle_request_reply [OF h] show ?thesis by (auto simp: step_def h reply_err_def)
qed

section \<open>Invariants of a connection\<close>

definition conn_ok :: "ServerState \<Rightarrow> u32 \<Rightarrow> NotifyJob set \<Rightarrow> Conn \<Rightarrow> bool" where
  "conn_ok st cid jobs c \<longleftrightarrow>
     cn_client_id c = cid \<and> cn_xn1 c = extranonce1 (sv_thread_id st) cid
     \<and> cn_rolling_mask c AND NOT POOL_VERSION_MASK = 0
     \<and> vd_min (sv_vardiff st) \<le> cn_diff c
     \<and> (\<forall>e \<in> set (ring_items (cn_ring c)). vd_min (sv_vardiff st) \<le> ej_diff e \<and> (\<exists>job \<in> jobs. e = emitted job (ej_diff e)))"

lemma emitted_sel [simp]: "ej_diff (emitted job d) = d" "ej_job_id (emitted job d) = nj_job_id job"
  by (simp_all add: emitted_def)

lemma ring_push_items: "set (ring_items (ring_push r e)) \<subseteq> insert e (set (ring_items r))"
  by (cases r; cases "fst r"; cases "snd r") (auto simp: ring_items_def ring_push_def)

lemma conn_ok_mono: "conn_ok st cid jobs c \<Longrightarrow> jobs \<subseteq> jobs' \<Longrightarrow> conn_ok st cid jobs' c"
  unfolding conn_ok_def by (meson subsetD)

lemma emit_pending_fields:
  assumes "emit_pending w c = (c', outs)"
  shows "cn_client_id c' = cn_client_id c" "cn_xn1 c' = cn_xn1 c" "cn_rolling_mask c' = cn_rolling_mask c"
    "cn_diff c' = cn_diff c" "cn_subscribed c' = cn_subscribed c" "cn_authorized c' = cn_authorized c"
    "cn_pool_min_alive c' = cn_pool_min_alive c"
  using assms by (auto simp: emit_pending_def split: option.splits)

lemma emit_pending_ok:
  assumes "conn_ok st cid jobs c" "emit_pending w c = (c', outs)"
  shows "conn_ok st cid (jobs \<union> set_option (latest_job w)) c'"
proof -
  have "\<forall>e \<in> set (ring_items (cn_ring c')). vd_min (sv_vardiff st) \<le> ej_diff e \<and>
      (\<exists>job \<in> jobs \<union> set_option (latest_job w). e = emitted job (ej_diff e))"
  proof
    fix e assume e: "e \<in> set (ring_items (cn_ring c'))"
    show "vd_min (sv_vardiff st) \<le> ej_diff e \<and>
      (\<exists>job \<in> jobs \<union> set_option (latest_job w). e = emitted job (ej_diff e))"
      using assms e ring_push_items [of "cn_ring c"]
      by (fastforce simp: emit_pending_def conn_ok_def split: option.splits)
  qed
  then show ?thesis using assms(1) emit_pending_fields [OF assms(2)] by (simp add: conn_ok_def)
qed

lemma configure_ok:
  assumes "conn_ok st cid jobs c"
  shows "conn_ok st cid jobs (fst (foldl (\<lambda>acc e. configure_ext opts e acc) (c, obj, neg) es))"
  using assms
proof (induction es arbitrary: c obj neg)
  case (Cons e es)
  obtain c' obj' neg' where x: "configure_ext opts e (c, obj, neg) = (c', obj', neg')" by (rule prod_cases3)
  have "(requested_mask opts AND POOL_VERSION_MASK) AND NOT POOL_VERSION_MASK = 0"
    by (rule bit_word_eqI) (simp add: bit_simps)
  then have "conn_ok st cid jobs c'"
    using x Cons.prems by (auto simp: configure_ext_def conn_ok_def Let_def split: option.splits if_splits)
  then show ?case using Cons.IH x by simp
qed simp

lemma change_diff_ok:
  assumes "conn_ok st cid jobs c" "vd_min (sv_vardiff st) \<le> d"
  shows "conn_ok st cid (jobs \<union> set_option (latest_job w)) (fst (change_diff w d c))"
    "cn_diff (fst (change_diff w d c)) = d"
proof -
  have c1: "conn_ok st cid jobs (c\<lparr>cn_diff := d\<rparr>)" using assms by (simp add: conn_ok_def)
  obtain c2 outs where e: "emit_pending w (c\<lparr>cn_diff := d\<rparr>) = (c2, outs)" by fastforce
  show "conn_ok st cid (jobs \<union> set_option (latest_job w)) (fst (change_diff w d c))"
    "cn_diff (fst (change_diff w d c)) = d"
    using emit_pending_ok [OF c1 e] emit_pending_fields [OF e] conn_ok_mono [OF c1]
    by (simp_all add: change_diff_def Let_def e)
qed

lemma vardiff_at_least_floor: "diff_floor st w \<le> vardiff_new st w elapsed c"
  by (simp add: vardiff_new_def Let_def not_less)

lemma step_ok:
  assumes "conn_ok st cid jobs c" "step st w ev c = (Some c', outs, shares)"
  shows "conn_ok st cid (jobs \<union> set_option (latest_job w)) c'"
proof -
  let ?J = "jobs \<union> set_option (latest_job w)"
  have m: "conn_ok st cid ?J c" using assms(1) by (rule conn_ok_mono) simp
  have up: "conn_ok st cid ?J (c\<lparr>cn_subscribed := True\<rparr>)" "conn_ok st cid ?J (c\<lparr>cn_shares := k\<rparr>)"
    "conn_ok st cid ?J (c\<lparr>cn_pool_min_alive := False\<rparr>)" for k using m by (simp_all add: conn_ok_def)
  have sh: "conn_ok st cid ?J d \<Longrightarrow> conn_ok st cid ?J (d\<lparr>cn_shares := k\<rparr>)" for d k by (simp add: conn_ok_def)
  have em: "conn_ok st cid ?J (fst (emit_pending w d))" if "conn_ok st cid jobs d" for d
    using emit_pending_ok [OF that, of w] by (cases "emit_pending w d") simp
  have fl: "vd_min (sv_vardiff st) \<le> diff_floor st w" by (simp add: diff_floor_def)
  have cfg: "conn_ok st cid ?J (fst (handle_configure req c))" for req
    using configure_ok [OF m] m by (auto simp: handle_configure_def Let_def split: option.splits prod.splits) (metis fst_conv)+
  have auth: "conn_ok st cid ?J (fst (handle_authorize w req c))" for req
  proof -
    have "conn_ok st cid jobs ((case Option.bind (Option.bind (as_array (rq_params req)) (\<lambda>a. nth_opt a 0)) as_str of
                  Some name \<Rightarrow> c\<lparr>cn_username := name\<rparr> | None \<Rightarrow> c)\<lparr>cn_authorized := True\<rparr>)"
      using assms(1) by (simp add: conn_ok_def split: option.splits)
    from em [OF this] show ?thesis by (simp add: handle_authorize_def Let_def case_prod_unfold)
  qed
  have sub: "conn_ok st cid ?J (fst (handle_submit st req c))" for req
    using m up by (simp add: handle_submit_def split: option.splits)
  have req: "conn_ok st cid ?J (fst (handle_request st w req c))" for req
    using m up cfg [of req] auth [of req] sub [of req]
    by (simp add: handle_request_def Let_def handle_subscribe_def case_prod_unfold)
  have tick: "conn_ok st cid ?J (fst (handle_tick st w e c))" for e
    using change_diff_ok(1) [OF assms(1) order.trans [OF fl vardiff_at_least_floor]] m sh
    by (simp add: handle_tick_def Let_def case_prod_unfold)
  have pm: "conn_ok st cid ?J (fst (handle_pool_min st w c))"
    using change_diff_ok(1) [OF assms(1) fl] m by (simp add: handle_pool_min_def)
  have nt: "conn_ok st cid ?J (fst (handle_notify w c))"
    using em [OF assms(1)] m by (simp add: handle_notify_def)
  show ?thesis
  proof (cases ev)
    case (Line l)
    then show ?thesis
      using assms(2) m req by (cases l) (auto simp: step_def Let_def case_prod_unfold)
  qed (use assms(2) m up tick pm nt in \<open>auto simp: step_def Let_def case_prod_unfold\<close>)
qed

section \<open>Forwarded shares\<close>

lemma new_conn_ok: "conn_ok st cid {} (new_conn st w cid)"
  by (simp add: conn_ok_def new_conn_def ring_items_def)

definition share_ok :: "ServerState \<Rightarrow> u32 \<Rightarrow> NotifyJob set \<Rightarrow> SubmittedShare \<Rightarrow> bool" where
  "share_ok st cid jobs s \<longleftrightarrow>
     ss_extranonce1 s = be_bytes 4 (extranonce1 (sv_thread_id st) cid)
     \<and> ss_version_rolling s AND NOT POOL_VERSION_MASK = 0
     \<and> vd_min (sv_vardiff st) \<le> ss_current_diff s
     \<and> (\<forall>b. ss_patched_coinb1 s = Some b \<longrightarrow> (\<exists>job \<in> jobs. nj_job_id job = ss_job_id s
          \<and> b = patch_coinb1_bytes (nj_coinb1_bin job) (nj_target_pot_index job) (ss_current_diff s)))"

lemma step_shares:
  assumes "step st w ev c = (r, outs, shares)" "s \<in> set shares"
  shows "\<exists>req p v. ev = Line (Request req) \<and> rq_method req = ''mining.submit'' \<and> cn_subscribed c \<and> cn_authorized c
    \<and> rolled_version c p = Some v \<and> s = submitted_share c p v \<and> r = Some (c\<lparr>cn_shares := saturating_add (cn_shares c) 1\<rparr>)"
proof (cases ev)
  case (Line l)
  then obtain req where l: "l = Request req" using assms by (cases l) (auto simp: step_def)
  then show ?thesis
    using assms by (fastforce simp: Line step_def Let_def case_prod_unfold handle_request_def handle_submit_def
        split: if_splits option.splits)
qed (use assms in \<open>auto simp: step_def case_prod_unfold\<close>)

lemma submitted_share_ok:
  assumes "conn_ok st cid jobs c" "rolled_version c p = Some v"
  shows "share_ok st cid jobs (submitted_share c p v)"
proof -
  have v: "v AND NOT POOL_VERSION_MASK = 0"
  proof (cases "cn_rolling_enabled c")
    case True
    then obtain nv where "v = nv AND cn_rolling_mask c"
      using assms(2) by (auto simp: rolled_version_def split: option.splits if_splits)
    moreover have "(nv AND cn_rolling_mask c) AND NOT POOL_VERSION_MASK = nv AND (cn_rolling_mask c AND NOT POOL_VERSION_MASK)"
      by (simp only: and.assoc)
    ultimately show ?thesis using assms(1) by (simp add: conn_ok_def)
  qed (use assms(2) in \<open>simp add: rolled_version_def\<close>)
  have e: "ring_lookup (cn_ring c) i = Some e \<Longrightarrow> e \<in> set (ring_items (cn_ring c)) \<and> ej_job_id e = i" for i e
    by (auto simp: ring_lookup_def find_Some_iff in_set_conv_nth)
  show ?thesis
  proof (cases "ring_lookup (cn_ring c) (ps_job_id p)")
    case None
    then show ?thesis using assms(1) v by (simp add: share_ok_def submitted_share_def conn_ok_def)
  next
    case (Some e')
    then obtain job where "job \<in> jobs" "e' = emitted job (ej_diff e')" "vd_min (sv_vardiff st) \<le> ej_diff e'"
      "ej_job_id e' = ps_job_id p"
      using e [OF Some] assms(1) by (auto simp: conn_ok_def)
    moreover from this have "nj_job_id job = ps_job_id p"
      "ej_patched_coinb1 e' = patch_coinb1_bytes (nj_coinb1_bin job) (nj_target_pot_index job) (ej_diff e')"
      by (metis emitted_sel(2), metis EmittedJob.select_convs(2) emitted_def)
    ultimately show ?thesis
      using assms(1) v Some by (auto simp: share_ok_def submitted_share_def Let_def conn_ok_def)
  qed
qed

lemma share_ok_mono: "share_ok st cid jobs s \<Longrightarrow> jobs \<subseteq> jobs' \<Longrightarrow> share_ok st cid jobs' s"
  unfolding share_ok_def by (meson subsetD)

definition jobs_seen :: "(World \<times> event) list \<Rightarrow> NotifyJob set" where
  "jobs_seen evs = (\<Union>(w, ev) \<in> set evs. set_option (latest_job w))"

lemma jobs_seen_Cons: "jobs_seen ((w, ev) # evs) = set_option (latest_job w) \<union> jobs_seen evs"
  by (auto simp: jobs_seen_def)

lemma run_shares_ok:
  "\<lbrakk>conn_ok st cid jobs c; run_conn st c evs = (r, outs, shares); s \<in> set shares\<rbrakk> \<Longrightarrow>
     share_ok st cid (jobs \<union> jobs_seen evs) s"
proof (induction st c evs arbitrary: jobs r outs shares rule: run_conn.induct)
  case (2 st c w ev rest)
  obtain oc o1 s1 where st: "step st w ev c = (oc, o1, s1)" by (rule prod_cases3)
  have here: "share_ok st cid (jobs \<union> jobs_seen ((w, ev) # rest)) s" if "s \<in> set s1"
  proof -
    obtain p v where "rolled_version c p = Some v" "s = submitted_share c p v"
      using step_shares [OF st \<open>s \<in> set s1\<close>] by blast
    then show ?thesis
      using submitted_share_ok [OF "2.prems"(1)] by (auto intro: share_ok_mono)
  qed
  show ?case
  proof (cases oc)
    case None
    then show ?thesis using "2.prems" here st by simp
  next
    case (Some c')
    obtain r' o2 s2 where rest: "run_conn st c' rest = (r', o2, s2)" by (rule prod_cases3)
    have sh: "shares = s1 @ s2" using "2.prems"(2) st Some rest by simp
    have "s \<in> set s2 \<Longrightarrow> share_ok st cid (jobs \<union> jobs_seen ((w, ev) # rest)) s"
      using "2.IH" [OF st [symmetric] Some refl step_ok [OF "2.prems"(1) st [unfolded Some]] rest]
      by (simp add: jobs_seen_Cons Un_assoc)
    then show ?thesis using here "2.prems"(3) sh by auto
  qed
qed simp

text \<open>C5: Every share that a connection forwards, in any run of requests, jobs and difficulty
  changes, is sound: it carries the connection's own extranonce1, rolls only version bits that
  the pool allows, is stamped with a difficulty of at least the configured minimum, and any
  coinbase half it carries is that of a job the connection was given under the cited id, with
  the proof-of-target byte of exactly the difficulty the share is stamped with.\<close>

theorem forwarded_shares_sound:
  assumes "run_conn st (new_conn st w0 cid) evs = (r, outs, shares)" "s \<in> set shares"
  shows "share_ok st cid (jobs_seen evs) s"
  using run_shares_ok [OF new_conn_ok assms] by simp

definition requested :: "string \<Rightarrow> (World \<times> event) list \<Rightarrow> bool" where
  "requested method evs \<longleftrightarrow> (\<exists>w req. (w, Line (Request req)) \<in> set evs \<and> rq_method req = method)"

lemma change_diff_session:
  "cn_subscribed (fst (change_diff w d c)) = cn_subscribed c" "cn_authorized (fst (change_diff w d c)) = cn_authorized c"
  by (auto simp: change_diff_def Let_def case_prod_unfold emit_pending_def split: option.splits)

lemma configure_session:
  "cn_subscribed (fst (foldl (\<lambda>acc e. configure_ext opts e acc) acc es)) = cn_subscribed (fst acc)
   \<and> cn_authorized (fst (foldl (\<lambda>acc e. configure_ext opts e acc) acc es)) = cn_authorized (fst acc)"
proof (induction es arbitrary: acc)
  case (Cons e es)
  have "cn_subscribed (fst (configure_ext opts e acc)) = cn_subscribed (fst acc)
    \<and> cn_authorized (fst (configure_ext opts e acc)) = cn_authorized (fst acc)"
    by (simp add: configure_ext_def Let_def split: prod.splits option.splits)
  then show ?case using Cons by simp
qed simp

lemma step_session:
  assumes "step st w ev c = (Some c', outs, shares)"
  shows "cn_subscribed c' \<Longrightarrow> cn_subscribed c \<or> (\<exists>req. ev = Line (Request req) \<and> rq_method req = ''mining.subscribe'')"
    "cn_authorized c' \<Longrightarrow> cn_authorized c \<or> (\<exists>req. ev = Line (Request req) \<and> rq_method req = ''mining.authorize'')"
proof -
  have em: "cn_subscribed (fst (emit_pending w d)) = cn_subscribed d" "cn_authorized (fst (emit_pending w d)) = cn_authorized d" for d
    by (simp_all add: emit_pending_def split: option.splits)
  have cf: "cn_subscribed (fst (handle_configure req c)) = cn_subscribed c"
    "cn_authorized (fst (handle_configure req c)) = cn_authorized c" for req
    using configure_session by (simp_all add: handle_configure_def Let_def case_prod_unfold split: option.splits)
  have au: "cn_subscribed (fst (handle_authorize w req c)) = cn_subscribed c" for req
    by (simp add: handle_authorize_def Let_def case_prod_unfold em split: option.splits)
  note defs = step_def Let_def case_prod_unfold handle_request_def handle_subscribe_def handle_submit_def
    handle_notify_def handle_pool_min_def handle_tick_def em cf au change_diff_session
  have "(cn_subscribed c' \<longrightarrow> cn_subscribed c \<or> (\<exists>req. ev = Line (Request req) \<and> rq_method req = ''mining.subscribe'')) \<and>
    (cn_authorized c' \<longrightarrow> cn_authorized c \<or> (\<exists>req. ev = Line (Request req) \<and> rq_method req = ''mining.authorize''))"
  proof (cases ev)
    case (Line l)
    then show ?thesis using assms by (cases l) (auto simp: defs split: if_splits option.splits)
  qed (use assms in \<open>auto simp: defs split: if_splits\<close>)
  then show "cn_subscribed c' \<Longrightarrow> cn_subscribed c \<or> (\<exists>req. ev = Line (Request req) \<and> rq_method req = ''mining.subscribe'')"
    "cn_authorized c' \<Longrightarrow> cn_authorized c \<or> (\<exists>req. ev = Line (Request req) \<and> rq_method req = ''mining.authorize'')"
    by blast+
qed

lemma requested_Cons: "requested m ((w, ev) # evs) \<longleftrightarrow> (\<exists>req. ev = Line (Request req) \<and> rq_method req = m) \<or> requested m evs"
  by (auto simp: requested_def)

lemma run_needs_session:
  "\<lbrakk>run_conn st c evs = (r, outs, shares); shares \<noteq> []\<rbrakk> \<Longrightarrow>
     (cn_subscribed c \<or> requested ''mining.subscribe'' evs) \<and> (cn_authorized c \<or> requested ''mining.authorize'' evs)"
proof (induction st c evs arbitrary: r outs shares rule: run_conn.induct)
  case (2 st c w ev rest)
  obtain oc o1 s1 where st: "step st w ev c = (oc, o1, s1)" by (rule prod_cases3)
  show ?case
  proof (cases "s1 = []")
    case False
    then obtain s where "s \<in> set s1" by (cases s1) auto
    from step_shares [OF st this] show ?thesis by auto
  next
    case True
    with "2.prems" st obtain c' where c': "oc = Some c'" by (cases oc) auto
    obtain r' o2 s2 where rest: "run_conn st c' rest = (r', o2, s2)" by (rule prod_cases3)
    have "s2 \<noteq> []" using "2.prems" st c' rest True by simp
    from "2.IH" [OF st [symmetric] c' refl rest this] step_session [OF st [unfolded c']]
    show ?thesis unfolding requested_Cons by blast
  qed
qed simp

text \<open>No share is forwarded before the session is set up: in any run of a new connection a
  forwarded share needs an earlier or present subscribe request and an authorize request.\<close>

theorem shares_need_session:
  assumes "run_conn st (new_conn st w0 cid) evs = (r, outs, shares)" "shares \<noteq> []"
  shows "requested ''mining.subscribe'' evs \<and> requested ''mining.authorize'' evs"
  using run_needs_session [OF assms] by (simp add: new_conn_def)

section \<open>The two patches of a job agree\<close>

lemma sv1_floor_pot_eq: "sv1_floor_pot x = floor_pot x"
  by (simp add: sv1_floor_pot_def floor_pot_def)

lemma hex_split:
  assumes "hex_laws X" "n < length b"
  shows "hex_encode X b = hex_encode X (take n b) @ hex_encode X [b ! n] @ hex_encode X (drop (n + 1) b)"
    "take (2 * n) (hex_encode X b) = hex_encode X (take n b)"
    "drop (2 * n + 2) (hex_encode X b) = hex_encode X (drop (n + 1) b)"
proof -
  have "b = take n b @ [b ! n] @ drop (n + 1) b" using assms(2) by (simp add: Cons_nth_drop_Suc)
  then show e: "hex_encode X b = hex_encode X (take n b) @ hex_encode X [b ! n] @ hex_encode X (drop (n + 1) b)"
    by (metis hex_lawsD(4) [OF assms(1)])
  have l: "length (hex_encode X (take n b)) = 2 * n" "length (hex_encode X [b ! n]) = 2"
    using hex_lawsD(2) [OF assms(1)] assms(2) by simp_all
  show "take (2 * n) (hex_encode X b) = hex_encode X (take n b)"
    "drop (2 * n + 2) (hex_encode X b) = hex_encode X (drop (n + 1) b)"
    unfolding e using l by simp_all
qed

lemma notify_patched:
  assumes "hex_laws X" "nj_params job = to_json_array np" "np_coinb1 np = hex_encode X (nj_coinb1_bin job)"
  shows "\<exists>h. send_notify job d = Push ''mining.notify'' (to_json_array (np\<lparr>np_coinb1 := h\<rparr>))
    \<and> hex_decode X h = Some (ej_patched_coinb1 (emitted job d))"
proof -
  define c1 where "c1 = nj_coinb1_bin job"
  define pot where "pot = nj_target_pot_index job"
  define arr where "arr = [JStr (np_job_id np), JStr (np_prev_hash np), JStr (np_coinb1 np), JStr (np_coinb2 np),
     JArr (map JStr (np_merkle_branch np)), JStr (np_version_hex np), JStr (np_nbits_hex np),
     JStr (np_ntime_hex np), JBool (np_clean_jobs np)]"
  have p: "nj_params job = JArr arr" and nth: "nth_opt arr 2 = Some (JStr (hex_encode X c1))"
    using assms by (simp_all add: arr_def to_json_array_def c1_def nth_opt_def)
  have set: "JArr (arr[2 := JStr h]) = to_json_array (np\<lparr>np_coinb1 := h\<rparr>)" for h
    by (simp add: arr_def to_json_array_def numeral_2_eq_2)
  have e: "ej_patched_coinb1 (emitted job d) = patch_coinb1_bytes c1 pot d"
    by (simp add: emitted_def c1_def pot_def)
  note hex = hex_lawsD [OF assms(1)]
  have len: "2 * unat pot + 2 \<le> length (hex_encode X c1) \<longleftrightarrow> unat pot < length c1" by (auto simp: hex(2))
  show ?thesis
  proof (cases "pot = 0 \<or> \<not> unat pot < length c1")
    case True
    then have "patch_coinb1_pot_byte (JArr arr) pot d = JArr arr"
      using len by (auto simp: patch_coinb1_pot_byte_def nth Let_def ac_simps)
    then have "send_notify job d = Push ''mining.notify'' (to_json_array np)"
      using p by (simp add: send_notify_def pot_def [symmetric] assms(2) [symmetric])
    moreover have "np\<lparr>np_coinb1 := np_coinb1 np\<rparr> = np" by simp
    moreover have "hex_decode X (np_coinb1 np) = Some (ej_patched_coinb1 (emitted job d))"
      using True hex(1) by (auto simp: e patch_coinb1_bytes_def assms(3) c1_def)
    ultimately show ?thesis by metis
  next
    case False
    let ?h = "hex_encode X (take (unat pot) c1) @ hex_of_byte (sv1_floor_pot d) @ hex_encode X (drop (unat pot + 1) c1)"
    have lt: "unat pot < length c1" using False by simp
    have "patch_coinb1_pot_byte (JArr arr) pot d = JArr (arr[2 := JStr ?h])"
      using False len hex_split(2,3) [OF assms(1) lt]
      by (auto simp: patch_coinb1_pot_byte_def nth Let_def ac_simps)
    moreover have "hex_decode X ?h = Some (take (unat pot) c1 @ [sv1_floor_pot d] @ drop (unat pot + 1) c1)"
      using hex(6) [of "[sv1_floor_pot d]"] by (intro hex(5) hex(1)) (simp add: ref_hex_encode_def)
    moreover have "take (unat pot) c1 @ [sv1_floor_pot d] @ drop (unat pot + 1) c1 = patch_coinb1_bytes c1 pot d"
      using False lt by (simp add: patch_coinb1_bytes_def upd_conv_take_nth_drop)
    ultimately show ?thesis
      by (intro exI [of _ ?h]) (simp add: send_notify_def p pot_def [symmetric] e set)
  qed
qed

text \<open>The miner hashes the bytes the server remembers: for a job whose notify carries the hex of its
  coinbase half, the coinbase half in the notify that is sent decodes to exactly the bytes put in
  the emit ring, proof-of-target byte included, for every difficulty and offset.\<close>

theorem notify_carries_ring_bytes:
  assumes "hex_laws X" "nj_params job = to_json_array np" "np_coinb1 np = hex_encode X (nj_coinb1_bin job)"
  shows "\<exists>arr h. send_notify job d = Push ''mining.notify'' (JArr arr) \<and> length arr = 9 \<and> arr ! 2 = JStr h
    \<and> hex_decode X h = Some (ej_patched_coinb1 (emitted job d))"
proof -
  obtain h where h: "send_notify job d = Push ''mining.notify'' (to_json_array (np\<lparr>np_coinb1 := h\<rparr>))"
    "hex_decode X h = Some (ej_patched_coinb1 (emitted job d))" using notify_patched [OF assms] by blast
  then show ?thesis by (simp add: to_json_array_def)
qed

section \<open>The emit ring\<close>

definition ring_oldest_first :: "EmittedJob option \<times> EmittedJob option \<Rightarrow> EmittedJob list" where
  "ring_oldest_first r = rev (ring_items r)"

definition ring_ok :: "EmittedJob option \<times> EmittedJob option \<Rightarrow> bool" where
  "ring_ok r \<longleftrightarrow> fst r = None \<longrightarrow> snd r = None"

interpretation ring: bounded_fifo ring_push ring_oldest_first ring_ok "\<lambda>_ _. True" 2
  by unfold_locales (auto simp: ring_ok_def ring_push_def ring_oldest_first_def ring_items_def split: option.splits)

lemma ring_push_all: "ring.push_all r es = foldl ring_push r es"
  by (induction es arbitrary: r) simp_all

lemma ring_fresh: "ring.fresh_after seen es"
  by (induction es arbitrary: seen) simp_all

text \<open>The ring resolves a share to the job the miner was last given under that id: after any
  sequence of emits it holds the last two, and looking up an id gives the newest of those two
  with that id, or nothing when neither has it.\<close>

theorem ring_resolves_last_two:
  "ring_items (foldl ring_push (None, None) es) = rev (drop (length es - 2) es)
   \<and> ring_lookup (foldl ring_push (None, None) es) i = find (\<lambda>e. ej_job_id e = i) (rev (drop (length es - 2) es))"
proof -
  have "ring_oldest_first (foldl ring_push (None, None) es) = drop (length es - 2) es"
    using ring.push_all_items [of "(None, None)" "[]" es] ring_fresh
    by (simp add: ring_push_all ring_ok_def ring_oldest_first_def ring_items_def)
  then have "ring_items (foldl ring_push (None, None) es) = rev (drop (length es - 2) es)"
    by (simp add: ring_oldest_first_def rev_swap)
  then show ?thesis by (simp add: ring_lookup_def)
qed

section \<open>Difficulty changes\<close>

lemma change_diff_ring:
  assumes "cn_authorized c" "latest_job w = Some job"
  shows "ring_lookup (cn_ring (fst (change_diff w d c))) (nj_job_id job) = Some (emitted job d)"
  using assms by (simp add: change_diff_def emit_pending_def ring_push_def ring_lookup_def ring_items_def)

text \<open>A share in flight across a difficulty change is misattributed: when the difficulty
  changes, the current job is emitted again under the same id, so a submit for that id, whose
  miner may still be working on the previous emit, is forwarded with the new difficulty and the
  new proof-of-target byte; the second ring slot, which still holds the old emit, is not reached.\<close>

theorem inflight_share_gets_new_patch:
  assumes "cn_subscribed c" "cn_authorized c" "latest_job w = Some job" "sv_submit_wired st"
    and "vardiff_new st w elapsed c \<noteq> cn_diff c"
    and "rq_method req = ''mining.submit''" "parse_submit_params (rq_params req) = Some p"
    and "ps_job_id p = nj_job_id job" "rolled_version c p = Some v"
  shows "\<exists>c' outs s. run_conn st c [(w, DiffTick elapsed), (w, Line (Request req))] = (Some c', outs, [s])
    \<and> ss_current_diff s = vardiff_new st w elapsed c
    \<and> ss_patched_coinb1 s = Some (patch_coinb1_bytes (nj_coinb1_bin job) (nj_target_pot_index job) (vardiff_new st w elapsed c))"
proof -
  let ?d = "vardiff_new st w elapsed c"
  let ?c = "(fst (change_diff w ?d c))\<lparr>cn_shares := 0\<rparr>"
  have t: "step st w (DiffTick elapsed) c = (Some ?c, snd (change_diff w ?d c), [])"
    using assms(1,5) by (simp add: step_def handle_tick_def Let_def case_prod_unfold)
  have f: "cn_subscribed ?c" "cn_authorized ?c" using assms(1,2) change_diff_session by simp_all
  have ring: "ring_lookup (cn_ring ?c) (nj_job_id job) = Some (emitted job ?d)"
    using change_diff_ring [OF assms(2,3)] by simp
  have "cn_rolling_enabled ?c = cn_rolling_enabled c" "cn_rolling_mask ?c = cn_rolling_mask c"
    by (simp_all add: change_diff_def Let_def case_prod_unfold emit_pending_def split: option.splits)
  then have "rolled_version ?c p = rolled_version c p" by (simp only: rolled_version_def)
  then have rv: "rolled_version ?c p = Some v" using assms(9) by simp
  have s: "step st w (Line (Request req)) ?c = (Some (?c\<lparr>cn_shares := saturating_add (cn_shares ?c) 1\<rparr>),
      [reply_ok (rq_id req) (JBool True)], [submitted_share ?c p v])"
    by (simp only: step_def Let_def event.case line.case handle_request_def assms(6) handle_submit_def f if_True
        if_False not_True_eq_False assms(7,4) option.case rv prod.case) simp
  have p: "ss_current_diff (submitted_share ?c p v) = ?d"
    "ss_patched_coinb1 (submitted_share ?c p v) = Some (ej_patched_coinb1 (emitted job ?d))"
    by (simp_all only: submitted_share_def Let_def assms(8) ring) simp_all
  show ?thesis
    using t s p by (simp add: emitted_def)
qed

text \<open>The pool's minimum difficulty is applied at once to a subscribed miner: the difficulty
  becomes the maximum of the old one and the floor, announced to the miner when it changed; a
  connection that has not subscribed yet ignores the change.\<close>

theorem pool_min_refloors:
  assumes "cn_pool_min_alive c"
  shows "cn_diff (fst (handle_pool_min st w c)) = (if cn_subscribed c then max (cn_diff c) (diff_floor st w) else cn_diff c)
    \<and> (cn_diff (fst (handle_pool_min st w c)) \<noteq> cn_diff c \<longrightarrow>
        hd (snd (handle_pool_min st w c)) = send_set_difficulty (diff_floor st w))"
proof -
  have "cn_diff (fst (change_diff w d c)) = d" "hd (snd (change_diff w d c)) = send_set_difficulty d" for d
    by (auto simp: change_diff_def Let_def case_prod_unfold emit_pending_def split: option.splits)
  then show ?thesis using assms by (auto simp: handle_pool_min_def max_def)
qed

text \<open>A pool minimum that arrives before the miner subscribes is lost until the next timer
  tick: the connection keeps the difficulty it started with and announces that one on subscribe,
  however high the pool's minimum is by then.\<close>

theorem early_pool_min_lost:
  assumes "rq_method req = ''mining.subscribe''"
  shows "\<exists>c reply. run_conn st (new_conn st w0 cid) [(w, PoolMinChanged), (w, Line (Request req))]
      = (Some c, [reply, send_set_difficulty (diff_floor st w0)], []) \<and> cn_diff c = diff_floor st w0"
  using assms by (simp add: step_def handle_pool_min_def new_conn_def handle_request_def handle_subscribe_def Let_def diff_floor_def)

section \<open>The vardiff rule in natural numbers\<close>

text \<open>C24: The difficulty rule is the intended one, with no overflow: at each tick the new
  difficulty is, in natural numbers, the floor or what the share rate asks for if that is more:
  double (at most the configured maximum) after at least 16 shares and more than twice the expected
  number, half (at least the configured minimum) after a full window with less than half the
  expected number, unchanged otherwise; expected is the target rate times the window, rounded up.\<close>

theorem vardiff_exact:
  fixes st w elapsed c
  defines "e \<equiv> max ((unat (vd_target_shares_min (sv_vardiff st)) * max (unat elapsed) 1 + 59) div 60) 1"
    and "n \<equiv> unat (cn_shares c)" and "d \<equiv> unat (cn_diff c)"
  assumes "unat (vd_target_shares_min (sv_vardiff st)) * max (unat elapsed) 1 < 2 ^ 64"
  shows "unat (vardiff_new st w elapsed c) =
    max (max (unat (vd_min (sv_vardiff st))) (unat (pool_min w)))
      (if 16 \<le> n \<and> 2 * e < n then min (2 * d) (unat (vd_max (sv_vardiff st)))
       else if 2 * n < e \<and> unat (vd_recheck_secs (sv_vardiff st)) \<le> unat elapsed
       then max (d div 2) (unat (vd_min (sv_vardiff st)))
       else d)"
proof -
  let ?v = "sv_vardiff st"
  have t: "unat (ucast (vd_target_shares_min ?v) :: u64) = unat (vd_target_shares_min ?v)"
    using unsigned_less [of "vd_target_shares_min ?v", where 'a = nat] by (intro unat_ucast_fits) simp
  have "unat (ucast (vd_target_shares_min ?v) * max elapsed 1 :: u64) = unat (vd_target_shares_min ?v) * max (unat elapsed) 1"
    using assms(4) unat_mult_lem [of "ucast (vd_target_shares_min ?v) :: u64" "max elapsed 1"]
    by (simp only: t unat_max unat_1) simp
  then have e: "unat (expected_shares ?v elapsed) = e"
    by (simp add: expected_shares_def unat_max unat_div_ceil_60 e_def)
  have n: "unat (ucast (cn_shares c) :: u64) = n" "n < 2 ^ 32"
    using unsigned_less [of "cn_shares c", where 'a = nat] by (simp_all add: n_def unat_ucast_fits)
  have up: "unat (saturating_mul (expected_shares ?v elapsed) 2) < n \<longleftrightarrow> 2 * e < n"
    using n(2) by (auto simp: unat_saturating_mul e min_def)
  have dn: "unat (saturating_mul (ucast (cn_shares c)) (2 :: u64)) = 2 * n"
    using n by (simp add: unat_saturating_mul)
  have dbl: "unat (min (saturating_mul (cn_diff c) 2) (vd_max ?v)) = min (2 * d) (unat (vd_max ?v))"
    using unat_u64_less [of "vd_max ?v"] by (simp add: unat_min unat_saturating_mul d_def)
  have hlv: "unat (max (cn_diff c div 2) (vd_min ?v)) = max (d div 2) (unat (vd_min ?v))"
    by (simp add: unat_max unat_div d_def)
  define x where "x = (if 16 \<le> n \<and> 2 * e < n then min (saturating_mul (cn_diff c) 2) (vd_max ?v)
      else if 2 * n < e \<and> vd_recheck_secs ?v \<le> elapsed then max (cn_diff c div 2) (vd_min ?v) else cn_diff c)"
  have m: "(if y < f then f else y) = max f y" for y f :: u64 by (auto simp: max_def)
  have c1: "(16 \<le> (ucast (cn_shares c) :: u64) \<and> saturating_mul (expected_shares ?v elapsed) 2 < ucast (cn_shares c)) = (16 \<le> n \<and> 2 * e < n)"
    using up by (simp add: word_less_nat_alt word_le_nat_alt n)
  have c2: "(saturating_mul (ucast (cn_shares c)) 2 < expected_shares ?v elapsed) = (2 * n < e)"
    by (simp only: word_less_nat_alt dn e)
  have "vardiff_new st w elapsed c = max (diff_floor st w) x"
    unfolding vardiff_new_def Let_def x_def m c1 c2 ..
  moreover have "unat x = (if 16 \<le> n \<and> 2 * e < n then min (2 * d) (unat (vd_max ?v))
       else if 2 * n < e \<and> unat (vd_recheck_secs ?v) \<le> unat elapsed then max (d div 2) (unat (vd_min ?v)) else d)"
    by (simp add: x_def dbl hlv word_le_nat_alt d_def)
  ultimately show ?thesis by (simp only: unat_max diff_floor_def)
qed

section \<open>Extranonces\<close>

text \<open>Connections of one server never share an extranonce1 as long as the thread id is the
  one the server is created with: the ids of two clients are equal only if the clients are; but
  the thread id is OR-ed over bits that the client mask already sets, so distinct threads can
  collide: thread 4 and thread 0 give every client with an id below 2^22 the same extranonce1.\<close>

theorem extranonce1_unique:
  "(extranonce1 0 a = extranonce1 0 b \<longleftrightarrow> a = b) \<and> extranonce1 4 (ucast (c :: 22 word)) = extranonce1 0 (ucast c)"
proof
  have "a XOR 0xB10CF00D = b XOR 0xB10CF00D \<longleftrightarrow> a = b"
  proof
    assume "a XOR 0xB10CF00D = b XOR 0xB10CF00D"
    then have "(a XOR 0xB10CF00D) XOR 0xB10CF00D = (b XOR 0xB10CF00D) XOR 0xB10CF00D" by simp
    then show "a = b" by (simp only: xor.assoc xor_self_eq xor.right_neutral)
  qed simp
  then show "extranonce1 0 a = extranonce1 0 b \<longleftrightarrow> a = b" by (simp add: extranonce1_def)
  define k m :: u32 where "k = push_bit 24 1" and "m = 0xB10CF00D"
  have k: "bit k n \<longleftrightarrow> n = 24" if "n < 32" for n
    using that unfolding k_def by (simp only: bit_push_bit_iff bit_1_iff) auto
  have m: "bit m 24" by (simp add: m_def)
  have c: "\<not> bit (ucast c :: u32) 24" by (simp add: bit_ucast_iff) (auto dest: bit_imp_le_length)
  have "push_bit 22 (ucast (4 :: u16) :: u32) = k" by (simp add: push_bit_eq_mult k_def)
  moreover have "k OR (ucast c XOR m) = ucast c XOR m"
    by (rule bit_word_eqI) (use k m c in \<open>auto simp: bit_or_iff bit_xor_iff\<close>)
  ultimately show "extranonce1 4 (ucast c) = extranonce1 0 (ucast c)" by (simp add: extranonce1_def m_def)
qed

section \<open>A concrete session\<close>

definition sample_notify :: NotifyParams where
  "sample_notify = \<lparr>np_job_id = ''j1'', np_prev_hash = [], np_coinb1 = ''0001ff02'', np_coinb2 = ''00'',
     np_merkle_branch = [], np_version_hex = ''20000000'', np_nbits_hex = ''207fffff'', np_ntime_hex = ''0000005a'',
     np_clean_jobs = True\<rparr>"

definition sample_job :: NotifyJob where
  "sample_job = notify_job_with_coinb1 (to_json_array sample_notify) 2 [0, 1, 0xFF, 2] ''j1''"

definition sample_server :: ServerState where
  "sample_server = \<lparr>sv_thread_id = 0, sv_submit_wired = True, sv_vardiff = default_vardiff\<rparr>"

definition sample_world :: World where
  "sample_world = \<lparr>latest_job = Some sample_job, pool_min = 1024\<rparr>"

definition request :: "string \<Rightarrow> json list \<Rightarrow> World \<times> event" where
  "request m ps = (sample_world, Line (Request \<lparr>rq_id = JNum 1, rq_method = m, rq_params = JArr ps\<rparr>))"

definition submit_params :: "json list" where
  "submit_params = [JStr ''rig'', JStr ''j1'', JStr ''00'', JStr ''5a'', JStr ''07'']"

definition sv1_sample_session :: "(World \<times> event) list" where
  "sv1_sample_session = [request ''mining.subscribe'' [], request ''mining.authorize'' [JStr ''rig''],
     request ''mining.submit'' submit_params]"

lemma sample_parse: "parse_submit_params (JArr submit_params) = Some \<lparr>ps_username = ''rig'', ps_job_id = ''j1'',
    ps_extranonce2_hex = ''00'', ps_ntime_hex = ''5a'', ps_nonce_hex = ''07'', ps_version_rolling_raw = None\<rparr>"
  by (simp add: parse_submit_params_def submit_params_def nth_opt_def)

lemma sample_max: "max (vd_min default_vardiff) 1024 = 1024"
  by (simp add: default_vardiff_def max_def)

lemma sample_run: "\<exists>c outs s. run_conn sample_server (new_conn sample_server sample_world 7) sv1_sample_session = (Some c, outs, [s])
   \<and> ss_current_diff s = 1024 \<and> ss_patched_coinb1 s = Some [0, 1, 10, 2]"
proof -
  have b: "patch_coinb1_bytes [0, 1, 0xFF, 2] 2 1024 = [0, 1, 10, 2]"
    by (simp add: patch_coinb1_bytes_def sv1_floor_pot_eq floor_pot_1024 numeral_2_eq_2 [symmetric])
  show ?thesis
    by (simp add: sv1_sample_session_def request_def step_def new_conn_def handle_request_def handle_subscribe_def
        nth_opt_def handle_authorize_def handle_submit_def emit_pending_def sample_world_def Let_def sample_parse rolled_version_def
        submitted_share_def ring_push_def ring_lookup_def ring_items_def emitted_def sample_job_def
        notify_job_with_coinb1_def sample_server_def sample_max b)
qed

theorem forwarded_shares_sound_witness:
  "\<exists>s. share_ok sample_server 7 (jobs_seen sv1_sample_session) s \<and> ss_patched_coinb1 s = Some [0, 1, 10, 2]"
  using sample_run forwarded_shares_sound [of sample_server sample_world 7 sv1_sample_session] by fastforce

theorem shares_need_session_witness:
  "requested ''mining.subscribe'' sv1_sample_session \<and> requested ''mining.authorize'' sv1_sample_session"
  using sample_run shares_need_session [of sample_server sample_world 7 sv1_sample_session] by fastforce

theorem notify_carries_ring_bytes_witness:
  "\<exists>arr h. send_notify (sample_job\<lparr>nj_params := to_json_array (sample_notify\<lparr>np_coinb1 := hex_encode plain_libs [0, 1, 0xFF, 2]\<rparr>)\<rparr>) 1024
      = Push ''mining.notify'' (JArr arr) \<and> length arr = 9 \<and> arr ! 2 = JStr h
    \<and> hex_decode plain_libs h = Some (ej_patched_coinb1 (emitted (sample_job\<lparr>nj_params := to_json_array
        (sample_notify\<lparr>np_coinb1 := hex_encode plain_libs [0, 1, 0xFF, 2]\<rparr>)\<rparr>) 1024))"
  by (rule notify_carries_ring_bytes [OF plain_libs_laws(1),
        where np = "sample_notify\<lparr>np_coinb1 := hex_encode plain_libs [0, 1, 0xFF, 2]\<rparr>"])
    (simp_all add: sample_job_def notify_job_with_coinb1_def)

definition live_conn :: Conn where
  "live_conn = (new_conn sample_server sample_world 7)\<lparr>cn_subscribed := True, cn_authorized := True,
     cn_diff := 4096, cn_shares := 0, cn_ring := (Some (emitted sample_job 4096), None)\<rparr>"

lemma vardiff_precondition:
  "unat (vd_target_shares_min (sv_vardiff sample_server)) * max (unat (30 :: u64)) 1 < 2 ^ 64"
  by (simp add: sample_server_def default_vardiff_def)

theorem vardiff_exact_witness: "unat (vardiff_new sample_server sample_world 30 live_conn) = 2048"
proof -
  have v: "sv_vardiff sample_server = default_vardiff" "pool_min sample_world = 1024" "unat (cn_shares live_conn) = 0"
    "unat (cn_diff live_conn) = 4096" by (simp_all add: sample_server_def sample_world_def live_conn_def)
  have d: "unat (vd_min default_vardiff) = 1" "unat (vd_recheck_secs default_vardiff) = 30"
    "unat (vd_target_shares_min default_vardiff) = 8" by (simp_all add: default_vardiff_def)
  show ?thesis
    using vardiff_exact [OF vardiff_precondition, of sample_world live_conn] by (simp add: v d)
qed

lemma live_vardiff: "vardiff_new sample_server sample_world 30 live_conn = 2048"
proof -
  have u: "(4096 :: u64) div 2 = 2048" by simp
  show ?thesis
    by (simp add: vardiff_new_def Let_def live_conn_def expected_shares_def sample_server_def default_vardiff_def
        div_ceil_def saturating_mul_def diff_floor_def sample_world_def max_def word_le_nat_alt)
qed

theorem inflight_share_gets_new_patch_witness:
  "\<exists>c' outs s. run_conn sample_server live_conn [(sample_world, DiffTick 30), request ''mining.submit'' submit_params] = (Some c', outs, [s])
    \<and> ss_patched_coinb1 s = Some [0, 1, 11, 2]
    \<and> ej_patched_coinb1 (the (fst (cn_ring live_conn))) = [0, 1, 12, 2]"
proof -
  have p: "floor_pot 2048 = 11" "floor_pot 4096 = 12"
    using floor_pot_unique [of 11 2048] floor_pot_unique [of 12 4096] by (simp_all add: word_unat_eq_iff)
  have b: "patch_coinb1_bytes [0, 1, 0xFF, 2] 2 2048 = [0, 1, 11, 2]" "patch_coinb1_bytes [0, 1, 0xFF, 2] 2 4096 = [0, 1, 12, 2]"
    by (simp_all add: patch_coinb1_bytes_def sv1_floor_pot_eq p)
  have l: "cn_subscribed live_conn" "cn_authorized live_conn" "latest_job sample_world = Some sample_job"
    "sv_submit_wired sample_server" "cn_diff live_conn = 4096" "\<not> cn_rolling_enabled live_conn"
    by (simp_all add: live_conn_def sample_world_def sample_server_def new_conn_def)
  have j: "nj_coinb1_bin sample_job = [0, 1, 0xFF, 2]" "nj_target_pot_index sample_job = 2" "nj_job_id sample_job = ''j1''"
    by (simp_all add: sample_job_def notify_job_with_coinb1_def)
  have "ej_patched_coinb1 (the (fst (cn_ring live_conn))) = [0, 1, 12, 2]"
    by (simp add: live_conn_def emitted_def j b)
  moreover have "\<exists>c' outs s. run_conn sample_server live_conn [(sample_world, DiffTick 30),
      (sample_world, Line (Request \<lparr>rq_id = JNum 1, rq_method = ''mining.submit'', rq_params = JArr submit_params\<rparr>))] = (Some c', outs, [s])
    \<and> ss_current_diff s = vardiff_new sample_server sample_world 30 live_conn
    \<and> ss_patched_coinb1 s = Some (patch_coinb1_bytes (nj_coinb1_bin sample_job) (nj_target_pot_index sample_job)
        (vardiff_new sample_server sample_world 30 live_conn))"
    by (rule inflight_share_gets_new_patch [OF l(1-4), where p = "\<lparr>ps_username = ''rig'', ps_job_id = ''j1'',
        ps_extranonce2_hex = ''00'', ps_ntime_hex = ''5a'', ps_nonce_hex = ''07'', ps_version_rolling_raw = None\<rparr>" and v = 0])
      (simp_all add: live_vardiff l j rolled_version_def sample_parse)
  ultimately show ?thesis by (simp add: request_def j b live_vardiff) blast
qed

theorem pool_min_refloors_witness:
  "cn_diff (fst (handle_pool_min sample_server (sample_world\<lparr>pool_min := 8192\<rparr>) live_conn)) = 8192"
  using pool_min_refloors [of live_conn sample_server "sample_world\<lparr>pool_min := 8192\<rparr>"]
  by (simp add: live_conn_def new_conn_def diff_floor_def sample_server_def default_vardiff_def max_def)

theorem early_pool_min_lost_witness:
  "\<exists>c reply. run_conn sample_server (new_conn sample_server (sample_world\<lparr>pool_min := 0\<rparr>) 7)
      [(sample_world, PoolMinChanged), request ''mining.subscribe'' []]
      = (Some c, [reply, send_set_difficulty 1], []) \<and> cn_diff c = 1 \<and> pool_min sample_world = 1024"
  using early_pool_min_lost [of "\<lparr>rq_id = JNum 1, rq_method = ''mining.subscribe'', rq_params = JArr []\<rparr>" sample_server
      "sample_world\<lparr>pool_min := 0\<rparr>" 7 sample_world]
  by (simp add: request_def sample_world_def diff_floor_def sample_server_def default_vardiff_def)

end
