(* ===== verification/Relay.thy ===== *)
theory Relay
  imports Sv1Server
begin

text \<open>
  The tasks of \<open>crates/datum-bin/src/main.rs\<close> that connect the components: the template
  driver (template and coinbaser into a job state), the SV1 notify assembler (job state into a
  notify and a tracked job), and the SV1 share relay (submitted share into a DATUM submission).
  Each task is the function that one turn of its loop computes.
\<close>

unbundle bit_operations_syntax

section \<open>The template driver\<close>

record Driver =
  enprefix_counter :: u16
  next_seed :: u64

definition new_driver :: Driver where "new_driver = \<lparr>enprefix_counter = 0, next_seed = 0\<rparr>"

record DriverConfig =
  cfg_tag_primary :: bytes
  cfg_tag_secondary :: bytes
  cfg_unique_id :: u32

text \<open>One wake-up: the template and the coinbaser blob that the channels hold now (if both do),
  and the pool's tag override.\<close>

definition drive_template ::
  "libs \<Rightarrow> DriverConfig \<Rightarrow> bytes option \<Rightarrow> Template option \<Rightarrow> CoinbaserBlob option \<Rightarrow> Driver
     \<Rightarrow> Driver \<times> TemplateState option" where
  "drive_template X cfg pool_override template_opt coinbaser_opt d =
     (case template_opt of
        None \<Rightarrow> (d, None)
      | Some template \<Rightarrow>
          (case coinbaser_opt of
             None \<Rightarrow> (d, None)
           | Some coinbaser \<Rightarrow>
               let primary = (case pool_override of Some b \<Rightarrow> from_utf8_lossy b | None \<Rightarrow> cfg_tag_primary cfg);
                   s = \<lparr>coinbase_tag_primary = primary, coinbase_tag_secondary = cfg_tag_secondary cfg,
                        coinbase_unique_id = ucast (cfg_unique_id cfg), enprefix = enprefix_counter d XOR 0xB10C,
                        pot_placeholder = 0xFF\<rparr>
               in (\<lparr>enprefix_counter = enprefix_counter d + 1, next_seed = next_seed d + 1\<rparr>,
                   Some (from_template_and_blob X template coinbaser s (next_seed d)))))"

section \<open>The notify assembler\<close>

definition COINBASE_ID :: byte where "COINBASE_ID = 0"

text \<open>\<open>{:08x}{:02x}{:04x}\<close> of the tick, the job index and the masked height, and \<open>{:02x}\<close> of
  the coinbase id.\<close>

definition make_job_id :: "u32 \<Rightarrow> byte \<Rightarrow> u32 \<Rightarrow> string" where
  "make_job_id tick idx h =
     (hex8 tick @ ref_hex_encode [idx] @ ref_hex_encode (be_bytes 2 ((ucast h :: u16) XOR 0xC0DE)))
     @ ref_hex_encode [COINBASE_ID]"

definition assemble_job :: "libs \<Rightarrow> TemplateState \<Rightarrow> u32 \<times> JobTracker \<Rightarrow> (u32 \<times> JobTracker) \<times> NotifyJob" where
  "assemble_job X st s =
     (case s of (tick, t) \<Rightarrow>
      let (idx, t1) = next_idx t;
          job_id = make_job_id tick idx (height st);
          (params, meta) = notify_from_template_state X job_id idx COINBASE_ID st True
      in ((tick + 1, tracker_insert t1 (Sv1 job_id) meta (job_id_seed st)),
          notify_job_with_coinb1 (to_json_array params) (jm_target_pot_index meta) (jm_coinb1_bin meta) job_id))"

section \<open>The share relay\<close>

text \<open>\<open>s.strip_prefix("0x").unwrap_or(s)\<close>.\<close>

definition strip_0x :: "string \<Rightarrow> string" where
  "strip_0x s = (case s of c # d # r \<Rightarrow> if c = CHR ''0'' \<and> d = CHR ''x'' then r else s | _ \<Rightarrow> s)"

definition parse_u32_be_hex :: "string \<Rightarrow> u32 option" where
  "parse_u32_be_hex s = from_str_radix16 (strip_0x s)"

datatype InputError = InvalidNtime | InvalidNonce | InvalidExtranonce2

definition sv1_share_to_inputs :: "libs \<Rightarrow> SubmittedShare \<Rightarrow> u32 \<Rightarrow> InputError + SubmittedShareInputs" where
  "sv1_share_to_inputs X share entry_version =
     and_then (ok_or (parse_u32_be_hex (ss_ntime_hex share)) InvalidNtime) (\<lambda>ntime.
     and_then (ok_or (parse_u32_be_hex (ss_nonce_hex share)) InvalidNonce) (\<lambda>nonce.
     and_then (ok_or (hex_decode X (ss_extranonce2_hex share)) InvalidExtranonce2) (\<lambda>xn2.
       let n = min (length xn2) 8 in
       Ok \<lparr>si_username = ascii (ss_username share),
           si_extranonce = ss_extranonce1 share @ take n xn2 @ replicate (8 - n) 0,
           si_ntime = ntime, si_nonce = nonce, si_version = entry_version OR ss_version_rolling share,
           si_current_diff = ss_current_diff share, si_patched_coinb1 = ss_patched_coinb1 share\<rparr>)))"

text \<open>One share: the tracker and the padding state after it, and the submission, or None where
  the share is dropped (no such job, or a field that does not parse).\<close>

definition relay_share ::
  "libs \<Rightarrow> ShareUserConfig \<Rightarrow> SubmittedShare \<Rightarrow> JobTracker \<times> u64 \<Rightarrow> (JobTracker \<times> u64) \<times> ShareEncoded option" where
  "relay_share X user_cfg share s =
     (case s of (t, pad) \<Rightarrow>
      let key = Sv1 (ss_job_id share) in
      case get_entry t key of
        None \<Rightarrow> (s, None)
      | Some entry \<Rightarrow>
          (case sv1_share_to_inputs X share (jm_version (je_meta entry)) of
             Inl e \<Rightarrow> (s, None)
           | Inr inputs \<Rightarrow>
               let seed = je_template_seed entry; cb = jm_coinbase_id (je_meta entry);
                   seen = cross_protocol_coinbase_already_seen t seed cb;
                   (enc, entry', pad') = build_share_submission X inputs entry user_cfg seen pad;
                   t1 = set_entry t key entry';
                   sent = (unat cb < length (server_has_coinbase entry') \<and> server_has_coinbase entry' ! unat cb);
                   t2 = (if \<not> seen \<and> sent then mark_cross_protocol_coinbase_seen t1 seed cb else t1)
               in ((t2, pad'), Some enc)))"

section \<open>The pool's slot table\<close>

text \<open>What the other end of the connection knows: the job block of each job index and the
  coinbase block of each index and coinbase id, both learnt from the submissions received.\<close>

record PoolSlots =
  pl_jobs :: "byte \<rightharpoonup> JobBlock"
  pl_coinbases :: "byte \<times> byte \<rightharpoonup> CoinbaseBlock"

definition empty_pool :: PoolSlots where "empty_pool = \<lparr>pl_jobs = Map.empty, pl_coinbases = Map.empty\<rparr>"

definition pool_learn :: "Submission \<Rightarrow> PoolSlots \<Rightarrow> PoolSlots" where
  "pool_learn sub p =
     (let i = sp_job_id (sub_prefix sub);
          p1 = (case sub_job sub of Some j \<Rightarrow> p\<lparr>pl_jobs := (pl_jobs p)(i \<mapsto> j)\<rparr> | None \<Rightarrow> p)
      in (case sub_coinbase sub of Some c \<Rightarrow> p1\<lparr>pl_coinbases := (pl_coinbases p1)((i, cb_id c) \<mapsto> c)\<rparr> | None \<Rightarrow> p1))"

text \<open>The pool after a body, and the header it checks (None where it lacks a block).\<close>

definition pool_receive :: "libs \<Rightarrow> bytes \<Rightarrow> PoolSlots \<Rightarrow> PoolSlots \<times> bytes option" where
  "pool_receive X body p =
     (case read_submission body of None \<Rightarrow> (p, None)
      | Some sub \<Rightarrow>
          let p' = pool_learn sub p; pre = sub_prefix sub
          in (p', Option.bind (pl_jobs p' (sp_job_id pre)) (\<lambda>j.
                Option.bind (pl_coinbases p' (sp_job_id pre, sp_coinbase_id pre)) (\<lambda>c. Some (pool_header X j c pre)))))"

section \<open>The gateway's side\<close>

text \<open>The assembler's tick, and what the assembler and the relay share: the tracker, and the state of the
  padding's generator.\<close>

record Gateway =
  gw_tick :: u32
  gw_tracker :: JobTracker
  gw_pad :: u64

definition gw_start :: "u64 \<Rightarrow> Gateway" where
  "gw_start pad = \<lparr>gw_tick = 0, gw_tracker = tracker_new, gw_pad = pad\<rparr>"

text \<open>One share of the relay: the job's metadata, the share's inputs and the encoded body, if it is
  relayed.\<close>

definition encode_share ::
  "libs \<Rightarrow> ShareUserConfig \<Rightarrow> SubmittedShare \<Rightarrow> Gateway \<Rightarrow> Gateway \<times> (JobMeta \<times> SubmittedShareInputs \<times> bytes) option" where
  "encode_share X cfg share g =
     (case relay_share X cfg share (gw_tracker g, gw_pad g) of
        ((t, pad), enc) \<Rightarrow>
          (g\<lparr>gw_tracker := t, gw_pad := pad\<rparr>,
           case enc of None \<Rightarrow> None
           | Some e \<Rightarrow>
               let meta = je_meta (the (get_entry (gw_tracker g) (Sv1 (ss_job_id share))));
                   inputs = (case sv1_share_to_inputs X share (jm_version meta) of Inr i \<Rightarrow> i)
               in Some (meta, inputs, se_body e)))"

text \<open>The widths of the Rust types and of the submission's length fields.\<close>

definition state_fits :: "TemplateState \<Rightarrow> bool" where
  "state_fits st \<longleftrightarrow> length (prev_hash st) = 32 \<and> length (nbits st) = 4
     \<and> list_all (\<lambda>b. length b = 32) (merkle_branches st) \<and> length (merkle_branches st) < 256
     \<and> length (coinb1 st) < 2 ^ 16 \<and> length (coinb2 st) < 2 ^ 16"

definition share_named :: "ShareUserConfig \<Rightarrow> SubmittedShare \<Rightarrow> bool" where
  "share_named cfg s \<longleftrightarrow> length (ss_extranonce1 s) = 4 \<and> 0 \<notin> set (ascii (ss_username s)) \<and> 0 \<notin> set (pool_address cfg)"

text \<open>Does the share carry the job's coinbase half, patched for its own difficulty?\<close>

definition patched_for_share :: "JobMeta \<Rightarrow> SubmittedShareInputs \<Rightarrow> bool" where
  "patched_for_share m i \<longleftrightarrow> (case si_patched_coinb1 i of None \<Rightarrow> True
     | Some b \<Rightarrow> b = (jm_coinb1_bin m)[unat (jm_target_pot_index m) := floor_pot (si_current_diff i)])"

section \<open>The tracker as jobs enter and shares leave\<close>

definition key_of :: "(nat \<Rightarrow> u32) \<Rightarrow> nat \<Rightarrow> JobKey" where
  "key_of hts i = Sv1 (make_job_id (of_nat i) (of_nat i) (hts i))"

lemma hex_of_byte_inj: "hex_of_byte a = hex_of_byte b \<Longrightarrow> a = b"
  using ref_hex_round_trip [of "[a]"] ref_hex_round_trip [of "[b]"] by (simp add: ref_hex_encode_def)

lemma hex8_length: "length (hex8 w) = 8"
  by (simp add: hex8_def hex_lawsD(2) [OF plain_libs_laws(1), unfolded plain_libs_def, simplified])

lemma hex8_inj: "hex8 a = hex8 b \<Longrightarrow> a = b"
proof -
  assume "hex8 a = hex8 b"
  then have "be_bytes 4 a = be_bytes 4 b" unfolding hex8_def by (metis ref_hex_round_trip option.inject)
  moreover have "be_word (be_bytes 4 w) = w" for w :: u32 by (simp add: be_word_be_bytes_full)
  ultimately show "a = b" by metis
qed

lemma key_of_inj:
  assumes "key_of hts i = key_of hts j" "i < j" "j \<le> i + 256"
  shows False
proof -
  have "hex8 (of_nat i) = hex8 (of_nat j)"
    using assms(1) by (simp add: key_of_def make_job_id_def append_eq_append_conv hex8_length)
  then have "(of_nat i :: u32) = of_nat j" by (rule hex8_inj)
  then have "unat (of_nat i :: u32) = unat (of_nat j :: u32)" by simp
  then have "i mod 2 ^ 32 = j mod 2 ^ 32" by (simp only: unat_of_nat) simp
  then have "(j - i) mod 2 ^ 32 = 0" using assms(2) by (metis mod_eq_dvd_iff_nat less_imp_le_nat dvd_imp_mod_0)
  then show False using assms by simp
qed

definition tracks :: "(nat \<Rightarrow> u32) \<Rightarrow> nat \<Rightarrow> JobTracker \<Rightarrow> bool" where
  "tracks hts n t \<longleftrightarrow> tracker_ok t \<and> next_datum_idx t = of_nat n \<and> length (order t) \<le> n
     \<and> order t = map (key_of hts) [n - length (order t)..<n]
     \<and> (\<forall>i \<in> {n - length (order t)..<n}. \<exists>e. get_entry t (key_of hts i) = Some e \<and> jm_datum_job_idx (je_meta e) = of_nat i)"

lemma tracks_start: "tracks hts 0 tracker_new"
  by (simp add: tracks_def tracker_new_ok(1)) (simp add: tracker_new_def)

lemma get_entry_in_order: "tracker_ok t \<Longrightarrow> get_entry t k \<noteq> None \<longleftrightarrow> k \<in> set (order t)"
  by (simp add: tracker_ok_def get_entry_def map_of_eq_None_iff)

lemma get_entry_insert:
  assumes "tracker_ok t" "k \<notin> set (order t)"
  shows "get_entry (tracker_insert t k m s) k' =
    (if k' = k then Some (new_entry m s) else if k' \<in> set (order (evict_oldest t)) then get_entry t k' else None)"
proof -
  note e = evict_ok [OF assms(1)]
  have "get_entry (tracker_insert t k m s) k' = (if k' = k then Some (new_entry m s) else get_entry (evict_oldest t) k')"
    by (simp add: tracker_insert_def Let_def get_entry_def update_conv')
  moreover have "k' \<notin> set (order (evict_oldest t)) \<Longrightarrow> get_entry (evict_oldest t) k' = None"
    using get_entry_in_order [OF e(1), of k'] by blast
  ultimately show ?thesis using e(4) [of k'] by simp
qed

lemma get_entry_set:
  "get_entry (set_entry t k e) k' = (if k' = k \<and> get_entry t k \<noteq> None then Some e else get_entry t k')"
  by (simp add: set_entry_def get_entry_def update_conv')

lemma set_entry_keys: "map fst (by_key (set_entry t k e)) = map fst (by_key t)" "order (set_entry t k e) = order t"
  "next_datum_idx (set_entry t k e) = next_datum_idx t" "seen_template_coinbase (set_entry t k e) = seen_template_coinbase t"
proof -
  have "k \<in> set (map fst (by_key t))" if "map_of (by_key t) k = Some a" for a
    using map_of_SomeD [OF that] by force
  then show "map fst (by_key (set_entry t k e)) = map fst (by_key t)"
    by (cases "map_of (by_key t) k") (simp_all add: set_entry_def get_entry_def update_keys)
qed (simp_all add: set_entry_def)

lemma tracker_ok_keys:
  "\<lbrakk>map fst (by_key t') = map fst (by_key t); order t' = order t\<rbrakk> \<Longrightarrow> tracker_ok t' = tracker_ok t"
  unfolding tracker_ok_def by (metis length_map)

lemma get_entry_reset:
  "get_entry (reset_send_once_flags t) k = map_option (\<lambda>e. e\<lparr>server_has_merkle_branches := False,
     server_has_coinbase := replicate 8 False\<rparr>) (get_entry t k)"
  unfolding get_entry_def reset_send_once_flags_def by (simp add: map_of_map)

lemma reset_keys: "map fst (by_key (reset_send_once_flags t)) = map fst (by_key t)" "order (reset_send_once_flags t) = order t"
  "next_datum_idx (reset_send_once_flags t) = next_datum_idx t"
  by (simp_all add: reset_send_once_flags_def case_prod_unfold)

lemma tracksD:
  assumes "tracks hts n t" "get_entry t k = Some e"
  obtains i where "n - length (order t) \<le> i" "i < n" "k = key_of hts i" "jm_datum_job_idx (je_meta e) = of_nat i"
proof -
  have "k \<in> set (order t)" using get_entry_in_order [of t k] assms by (simp add: tracks_def)
  moreover have "set (order t) = key_of hts ` {n - length (order t)..<n}"
    using assms(1) unfolding tracks_def by (metis set_map set_upt)
  ultimately obtain i where "i \<in> {n - length (order t)..<n}" "k = key_of hts i" by blast
  then show ?thesis using assms that [of i] by (force simp: tracks_def)
qed

lemma tracks_length: "tracks hts n t \<Longrightarrow> length (order t) \<le> 256"
  using tracker_ok_length [of t] by (simp add: tracks_def tracker_ok_def TRACKER_MAX_def)

lemma tracks_idx_inj:
  assumes "tracks hts n t" "get_entry t k = Some e" "get_entry t k' = Some e'"
    and "jm_datum_job_idx (je_meta e) = jm_datum_job_idx (je_meta e')"
  shows "k = k'"
proof -
  obtain i where i: "n - length (order t) \<le> i" "i < n" "k = key_of hts i" "jm_datum_job_idx (je_meta e) = of_nat i"
    by (rule tracksD [OF assms(1,2)])
  obtain j where j: "n - length (order t) \<le> j" "j < n" "k' = key_of hts j" "jm_datum_job_idx (je_meta e') = of_nat j"
    by (rule tracksD [OF assms(1,3)])
  have "unat (of_nat i :: byte) = unat (of_nat j :: byte)" using i(4) j(4) assms(4) by simp
  then have m: "i mod 256 = j mod 256" by (simp only: unat_of_nat) simp
  have "i = j" if "i \<le> j" "j < i + 256" "i mod 256 = j mod 256" for i j :: nat
  proof -
    have "(j - i) mod 256 = 0" using that by (metis mod_eq_dvd_iff_nat dvd_imp_mod_0)
    then show ?thesis using that by simp
  qed
  note eq = this
  have lt: "i < j + 256" "j < i + 256" using i(1,2) j(1,2) tracks_length [OF assms(1)] by linarith+
  have "i = j" using eq [of i j] eq [of j i] m lt by (cases "i \<le> j") auto
  then show ?thesis using i(3) j(3) by simp
qed

lemma tracks_same_keys:
  assumes "tracks hts n t" "map fst (by_key t') = map fst (by_key t)" "order t' = order t"
    and "next_datum_idx t' = next_datum_idx t"
    and "\<And>k e. get_entry t k = Some e \<Longrightarrow> \<exists>e'. get_entry t' k = Some e' \<and> je_meta e' = je_meta e"
  shows "tracks hts n t'"
  using assms tracker_ok_keys [OF assms(2,3)] unfolding tracks_def by metis

lemma tracks_insert:
  fixes h :: u32 and n :: nat
  assumes "tracks hts n t" "jm_datum_job_idx m = of_nat n"
  defines "k \<equiv> Sv1 (make_job_id (of_nat n) (of_nat n) h)"
  shows "k \<notin> set (order t)"
    and "tracks (hts(n := h)) (n + 1) (tracker_insert (t\<lparr>next_datum_idx := next_datum_idx t + 1\<rparr>) k m s)"
proof -
  let ?h = "hts(n := h)" and ?t = "t\<lparr>next_datum_idx := next_datum_idx t + 1\<rparr>"
  let ?t' = "tracker_insert ?t k m s"
  have k: "k = key_of ?h n" by (simp add: key_of_def k_def)
  have same: "key_of ?h i = key_of hts i" if "i < n" for i using that by (simp add: key_of_def)
  have ok: "tracker_ok ?t" using assms(1) by (simp add: tracks_def tracker_ok_def)
  define l where "l = length (order t)"
  define l' where "l' = length (order ?t')"
  have len: "l \<le> 256" "l \<le> n" using tracks_length [OF assms(1)] assms(1) by (simp_all add: tracks_def l_def)
  have "order t = map (key_of hts) [n - l..<n]" using assms(1) unfolding tracks_def l_def by blast
  also have "\<dots> = map (key_of ?h) [n - l..<n]" by (rule map_cong) (simp_all add: same)
  finally have ord: "order t = map (key_of ?h) [n - l..<n]" .
  show fresh: "k \<notin> set (order t)"
  proof
    assume "k \<in> set (order t)"
    then obtain i where "n - l \<le> i" "i < n" "key_of ?h i = key_of ?h n" unfolding ord k by auto
    then show False using key_of_inj [of ?h i n] len by linarith
  qed
  note e = evict_ok [OF ok]
  have e3: "order (evict_oldest ?t) = (if 256 \<le> l then tl (order t) else order t)"
    using e(3) by (simp add: TRACKER_MAX_def l_def)
  have ins: "order ?t' = order (evict_oldest ?t) @ [k]" by (simp add: tracker_insert_def Let_def)
  have len': "l' = min (l + 1) 256"
    unfolding l'_def ins e3 using len by (simp add: l_def min_def) linarith
  have ord'': "order (evict_oldest ?t) = map (key_of ?h) [n + 1 - l'..<n]"
  proof (cases "l = 256")
    case True
    have "tl [n - 256..<n] = [n - 255..<n]" using len True by (simp add: tl_upt Suc_diff_le [symmetric])
    moreover have "tl (order t) = map (key_of ?h) (tl [n - 256..<n])" unfolding ord True by (rule map_tl [symmetric])
    ultimately show ?thesis using True by (simp add: e3 len')
  next
    case False
    then have "n + 1 - l' = n - l" "order (evict_oldest ?t) = order t" using len by (simp_all add: len' e3)
    then show ?thesis using ord by simp
  qed
  have ord': "order ?t' = map (key_of ?h) [n + 1 - l'..<n + 1]"
    unfolding ins ord'' using len by (simp add: k len')
  have "tracker_ok ?t'"
    using insert_job_ok(1) [of ?t "(k, m, s)"] ok fresh by (simp add: insert_job_tuple new_job_def tracked_keys)
  moreover have "next_datum_idx ?t' = of_nat (n + 1)"
    using assms(1) by (simp add: tracker_insert_def Let_def tracks_def evict_oldest_def split: list.splits)
  moreover have "\<exists>e. get_entry ?t' (key_of ?h i) = Some e \<and> jm_datum_job_idx (je_meta e) = of_nat i"
    if i: "i \<in> {n + 1 - l'..<n + 1}" for i
  proof (cases "i = n")
    case True
    have "get_entry ?t' k = Some (new_entry m s)" using get_entry_insert [OF ok, of k] fresh by simp
    then show ?thesis unfolding True k [symmetric] using assms(2) by (simp add: new_entry_def)
  next
    case False
    then have lt: "i < n" and ge: "n - l \<le> i" using i len by (auto simp: len')
    have "n \<le> i + 256" using ge len by linarith
    then have "key_of ?h i \<noteq> k" using lt key_of_inj [of ?h i n] k by auto
    moreover have "key_of ?h i \<in> set (order (evict_oldest ?t))"
      unfolding ord'' using i lt by auto
    ultimately have "get_entry ?t' (key_of ?h i) = get_entry ?t (key_of ?h i)"
      using get_entry_insert [OF ok, of k] fresh by simp
    moreover have "get_entry ?t (key_of ?h i) = get_entry t (key_of hts i)" using same [OF lt] by (simp add: get_entry_def)
    moreover have "\<exists>e. get_entry t (key_of hts i) = Some e \<and> jm_datum_job_idx (je_meta e) = of_nat i"
      using assms(1) lt ge unfolding tracks_def l_def by auto
    ultimately show ?thesis by simp
  qed
  moreover have "l' \<le> n + 1" using len len' by simp
  ultimately show "tracks ?h (n + 1) ?t'" using ord' unfolding tracks_def l'_def by blast
qed

section \<open>The pool and the tracker agree\<close>

definition seen_seeds :: "JobTracker \<Rightarrow> u64 set" where
  "seen_seeds t = {s. cross_protocol_coinbase_already_seen t s 0}"

definition entry_known :: "PoolSlots \<Rightarrow> u64 set \<Rightarrow> JobEntry \<Rightarrow> bool" where
  "entry_known pool seen e \<longleftrightarrow>
     jm_coinbase_id (je_meta e) = 0 \<and> length (server_has_coinbase e) = 8 \<and> meta_fits (je_meta e)
     \<and> (server_has_merkle_branches e \<longrightarrow> pl_jobs pool (jm_datum_job_idx (je_meta e)) = Some (job_of_meta (je_meta e)))
     \<and> (coinbase_sent e \<or> je_template_seed e \<in> seen \<longrightarrow>
          pl_coinbases pool (jm_datum_job_idx (je_meta e), 0) = Some (coinbase_of_meta (je_meta e)))"

definition gw_inv :: "(nat \<Rightarrow> u32) \<Rightarrow> nat \<Rightarrow> u64 set \<Rightarrow> PoolSlots \<Rightarrow> Gateway \<Rightarrow> bool" where
  "gw_inv hts n used pool g \<longleftrightarrow>
     gw_tick g = of_nat n \<and> tracks hts n (gw_tracker g)
     \<and> seen_seeds (gw_tracker g) \<subseteq> used
     \<and> (\<forall>k e. get_entry (gw_tracker g) k = Some e \<longrightarrow>
           entry_known pool (seen_seeds (gw_tracker g)) e \<and> je_template_seed e \<in> used
           \<and> (\<forall>k' e'. get_entry (gw_tracker g) k' = Some e' \<longrightarrow> je_template_seed e' = je_template_seed e \<longrightarrow> k' = k))"

lemma gw_inv_start: "gw_inv hts 0 {} pool (gw_start pad)"
  using tracks_start
  by (simp add: gw_inv_def gw_start_def seen_seeds_def tracker_new_def cross_protocol_coinbase_already_seen_def get_entry_def)

lemma new_state_inv:
  assumes "gw_inv hts n used pool g" "state_fits st" "job_id_seed st \<notin> used"
    and a: "assemble_job X st (gw_tick g, gw_tracker g) = ((tick, tr), job)"
  shows "gw_inv (hts(n := height st)) (n + 1) (insert (job_id_seed st) used) pool (g\<lparr>gw_tick := tick, gw_tracker := tr\<rparr>)"
proof -
  let ?t = "gw_tracker g"
  let ?k = "Sv1 (make_job_id (of_nat n) (of_nat n) (height st))"
  obtain params m where nm: "notify_from_template_state X (make_job_id (of_nat n) (of_nat n) (height st)) (of_nat n) COINBASE_ID st True = (params, m)"
    by fastforce
  have m: "jm_datum_job_idx m = of_nat n" "jm_coinbase_id m = 0" "meta_fits m"
    using nm assms(2) by (auto simp: notify_from_template_state_def Let_def COINBASE_ID_def meta_fits_def state_fits_def)
  let ?t1 = "?t\<lparr>next_datum_idx := next_datum_idx ?t + 1\<rparr>"
  let ?t' = "tracker_insert ?t1 ?k m (job_id_seed st)"
  have tr: "tracks hts n ?t" "gw_tick g = of_nat n" "next_datum_idx ?t = of_nat n"
    using assms(1) by (simp_all add: gw_inv_def tracks_def)
  have g': "tick = of_nat (n + 1)" "tr = ?t'"
    using nm tr a by (auto simp: assemble_job_def next_idx_def Let_def)
  note ins = tracks_insert(1) [OF tr(1) m(1), of "height st"]
    tracks_insert(2) [OF tr(1) m(1), where h = "height st" and s = "job_id_seed st"]
  have ok: "tracker_ok ?t1" using tr(1) by (simp add: tracks_def tracker_ok_def)
  have get: "get_entry ?t' k = (if k = ?k then Some (new_entry m (job_id_seed st))
      else if k \<in> set (order (evict_oldest ?t1)) then get_entry ?t k else None)" for k
    using get_entry_insert [OF ok, of ?k m "job_id_seed st" k] ins(1) by (simp add: get_entry_def)
  have seen: "seen_seeds ?t' = seen_seeds ?t"
    by (simp add: seen_seeds_def cross_protocol_coinbase_already_seen_def tracker_insert_def Let_def evict_oldest_def split: list.splits)
  have new: "entry_known pool (seen_seeds ?t) (new_entry m (job_id_seed st))"
    using m assms(1,3) by (auto simp: entry_known_def new_entry_def coinbase_sent_def gw_inv_def)
  have seed: "je_template_seed (new_entry m s) = s" for s by (simp add: new_entry_def)
  have old: "entry_known pool (seen_seeds ?t) e \<and> je_template_seed e \<in> used" if "get_entry ?t k = Some e" for k e
    using assms(1) that by (simp add: gw_inv_def)
  have old': "je_template_seed e \<noteq> job_id_seed st" "job_id_seed st \<noteq> je_template_seed e" if "get_entry ?t k = Some e" for k e
    using old [OF that] assms(3) by auto
  have inj: "k' = k" if "get_entry ?t k = Some e" "get_entry ?t k' = Some e'" "je_template_seed e' = je_template_seed e" for k k' e e'
    using assms(1) that unfolding gw_inv_def by blast
  let ?g = "g\<lparr>gw_tick := of_nat (n + 1), gw_tracker := ?t'\<rparr>"
  show ?thesis
    unfolding g' gw_inv_def
  proof (intro conjI allI impI)
    show "gw_tick ?g = of_nat (n + 1)" by simp
    show "tracks (hts(n := height st)) (n + 1) (gw_tracker ?g)" using ins(2) by simp
    show "seen_seeds (gw_tracker ?g) \<subseteq> insert (job_id_seed st) used" using assms(1) by (auto simp: seen gw_inv_def)
  next
    fix k e assume e: "get_entry (gw_tracker ?g) k = Some e"
    then show "entry_known pool (seen_seeds (gw_tracker ?g)) e" "je_template_seed e \<in> insert (job_id_seed st) used"
      using new old by (auto simp: seen get seed split: if_splits)
    fix k' e' assume "get_entry (gw_tracker ?g) k' = Some e'" "je_template_seed e' = je_template_seed e"
    then show "k' = k" using e old' inj by (auto simp: get seed split: if_splits)
  qed
qed

text \<open>Once the flags are reset, nothing is asked of the pool: it may know anything, or nothing.\<close>

lemma reset_inv:
  assumes "gw_inv hts n used pool g"
  shows "gw_inv hts n used pool' (g\<lparr>gw_tracker := reset_send_once_flags (gw_tracker g)\<rparr>)"
proof -
  let ?t = "reset_send_once_flags (gw_tracker g)"
  have "tracks hts n ?t"
  proof (rule tracks_same_keys [OF _ reset_keys])
    show "tracks hts n (gw_tracker g)" using assms by (simp only: gw_inv_def)
  qed (simp add: get_entry_reset)
  moreover have "seen_seeds ?t = {}"
    by (simp add: seen_seeds_def cross_protocol_coinbase_already_seen_def reset_send_once_flags_def)
  moreover have "entry_known pool' {} e' \<and> je_template_seed e' \<in> used"
    if g: "get_entry ?t k = Some e'" for k e'
  proof -
    obtain e where e: "get_entry (gw_tracker g) k = Some e" "e' = e\<lparr>server_has_merkle_branches := False,
     server_has_coinbase := replicate 8 False\<rparr>" using g by (auto simp: get_entry_reset)
    have "entry_known pool (seen_seeds (gw_tracker g)) e" "je_template_seed e \<in> used"
      using assms e(1) unfolding gw_inv_def by blast+
    then show ?thesis by (auto simp: e(2) entry_known_def coinbase_sent_def)
  qed
  moreover have "k' = k" if a: "get_entry ?t k = Some e" and b: "get_entry ?t k' = Some e'"
    and c: "je_template_seed e' = je_template_seed e" for k k' e e'
  proof -
    obtain d where "get_entry (gw_tracker g) k = Some d" "je_template_seed e = je_template_seed d"
      using a by (auto simp: get_entry_reset)
    moreover obtain d' where "get_entry (gw_tracker g) k' = Some d'" "je_template_seed e' = je_template_seed d'"
      using b by (auto simp: get_entry_reset)
    ultimately have "get_entry (gw_tracker g) k = Some d" "get_entry (gw_tracker g) k' = Some d'"
      "je_template_seed d' = je_template_seed d" using c by simp_all
    then show ?thesis using assms unfolding gw_inv_def by blast
  qed
  moreover have "gw_tick g = of_nat n" using assms by (simp add: gw_inv_def)
  ultimately show ?thesis by (simp add: gw_inv_def)
qed

lemma format_no_nul: "\<lbrakk>0 \<notin> set u; 0 \<notin> set (pool_address cfg)\<rbrakk> \<Longrightarrow> 0 \<notin> set (format_share_username u cfg)"
  by (auto simp: format_share_username_def Let_def dest!: in_set_takeD split: if_splits)

lemma sv1_inputs:
  assumes "sv1_share_to_inputs X share v = Inr i" "length (ss_extranonce1 share) = 4"
  shows "length (si_extranonce i) = 12" "si_username i = ascii (ss_username share)"
  using assms by (auto simp: sv1_share_to_inputs_def and_then_Inr Let_def)

lemma pool_receive_known:
  assumes "entry_known pool seen entry" "share_named cfg share"
    and "sv1_share_to_inputs X share v = Inr i"
    and "build_share_submission X i entry cfg (je_template_seed entry \<in> seen) pad = (enc, entry', pad')"
    and "pool_receive X (se_body enc) pool = (pool', h)"
  defines "m \<equiv> je_meta entry"
  shows "pl_jobs pool' (jm_datum_job_idx m) = Some (job_of_meta m)"
    "pl_coinbases pool' (jm_datum_job_idx m, 0) = Some (coinbase_of_meta m)"
    "j \<noteq> jm_datum_job_idx m \<Longrightarrow> pl_jobs pool' j = pl_jobs pool j \<and> pl_coinbases pool' (j, c) = pl_coinbases pool (j, c)"
    "h = Some (pool_header X (job_of_meta m) (coinbase_of_meta m) (share_prefix_of X m i))"
proof -
  have k: "jm_coinbase_id m = 0" "meta_fits m"
    "server_has_merkle_branches entry \<Longrightarrow> pl_jobs pool (jm_datum_job_idx m) = Some (job_of_meta m)"
    "coinbase_sent entry \<or> je_template_seed entry \<in> seen \<Longrightarrow> pl_coinbases pool (jm_datum_job_idx m, 0) = Some (coinbase_of_meta m)"
    using assms(1) by (auto simp: entry_known_def m_def)
  have ev: "length (ss_extranonce1 share) = 4" "0 \<notin> set (format_share_username (ascii (ss_username share)) cfg)"
    using assms(2) format_no_nul by (auto simp: share_named_def)
  note in_i = sv1_inputs [OF assms(3) ev(1)]
  have rd: "read_submission (se_body enc) = Some \<lparr>sub_prefix = share_prefix_of X m i,
     sub_user = format_share_username (si_username i) cfg,
     sub_job = (if server_has_merkle_branches entry then None else Some (job_of_meta m)),
     sub_coinbase = (if coinbase_sent entry \<or> je_template_seed entry \<in> seen then None else Some (coinbase_of_meta m))\<rparr>"
    using read_back [OF assms(4) k(2) [unfolded m_def] in_i(1)] ev(2) by (simp add: in_i(2) m_def)
  have ids: "sp_job_id (share_prefix_of X m i) = jm_datum_job_idx m" "sp_coinbase_id (share_prefix_of X m i) = 0"
    "cb_id (coinbase_of_meta m) = 0" using k(1) by (simp_all add: share_prefix_of_def coinbase_of_meta_def)
  show a: "pl_jobs pool' (jm_datum_job_idx m) = Some (job_of_meta m)"
    "pl_coinbases pool' (jm_datum_job_idx m, 0) = Some (coinbase_of_meta m)"
    and "j \<noteq> jm_datum_job_idx m \<Longrightarrow> pl_jobs pool' j = pl_jobs pool j \<and> pl_coinbases pool' (j, c) = pl_coinbases pool (j, c)"
    using assms(5) k(3,4) by (auto simp: pool_receive_def rd Let_def pool_learn_def ids split: if_splits)
  show "h = Some (pool_header X (job_of_meta m) (coinbase_of_meta m) (share_prefix_of X m i))"
    using assms(5) a by (auto simp: pool_receive_def rd Let_def ids)
qed

lemma get_entry_mark: "get_entry (mark_cross_protocol_coinbase_seen t s c) k = get_entry t k"
  by (simp add: mark_cross_protocol_coinbase_seen_def get_entry_def)

lemma relay_share_Some:
  assumes "get_entry t (Sv1 (ss_job_id share)) = Some entry" "sv1_share_to_inputs X share (jm_version (je_meta entry)) = Inr i"
    and "jm_coinbase_id (je_meta entry) = 0" "length (server_has_coinbase entry) = 8"
    and "build_share_submission X i entry cfg (je_template_seed entry \<in> seen_seeds t) pad = (enc, entry', pad')"
  shows "\<exists>t2. relay_share X cfg share (t, pad) = ((t2, pad'), Some enc)
    \<and> (\<forall>k. get_entry t2 k = (if k = Sv1 (ss_job_id share) then Some entry' else get_entry t k))
    \<and> seen_seeds t2 = insert (je_template_seed entry) (seen_seeds t)
    \<and> map fst (by_key t2) = map fst (by_key t) \<and> order t2 = order t \<and> next_datum_idx t2 = next_datum_idx t"
proof -
  let ?k = "Sv1 (ss_job_id share)" and ?s = "je_template_seed entry"
  let ?t1 = "set_entry t ?k entry'"
  have seen: "cross_protocol_coinbase_already_seen t ?s 0 = (?s \<in> seen_seeds t)" by (simp add: seen_seeds_def)
  note p = build_parts [OF assms(5)]
  have sent: "0 < length (server_has_coinbase entry') \<and> server_has_coinbase entry' ! 0" if "?s \<notin> seen_seeds t"
    using p(3,5,6) assms(3,4) that by (simp add: coinbase_sent_def)
  let ?t2 = "if ?s \<in> seen_seeds t then ?t1 else mark_cross_protocol_coinbase_seen ?t1 ?s 0"
  have "relay_share X cfg share (t, pad) = ((?t2, pad'), Some enc)"
    using sent by (simp add: relay_share_def Let_def assms(1,2,3,5) seen)
  moreover have "seen_seeds ?t2 = insert ?s (seen_seeds t)"
    using set_entry_keys(4) by (auto simp: seen_seeds_def cross_protocol_coinbase_already_seen_def
        mark_cross_protocol_coinbase_seen_def)
  moreover have "get_entry ?t2 k = (if k = ?k then Some entry' else get_entry t k)" for k
    by (simp add: get_entry_mark get_entry_set assms(1))
  moreover have "map fst (by_key ?t2) = map fst (by_key t) \<and> order ?t2 = order t \<and> next_datum_idx ?t2 = next_datum_idx t"
    using set_entry_keys by (simp add: mark_cross_protocol_coinbase_seen_def)
  ultimately show ?thesis by blast
qed

text \<open>One share: a pool that receives its body ends up knowing the job, and checks the header the relay
  hashed.\<close>

lemma share_inv:
  assumes "gw_inv hts n used pool g" "share_named cfg share" "encode_share X cfg share g = (g', q)"
  shows "(q = None \<longrightarrow> gw_inv hts n used pool g')
    \<and> (\<forall>m i body pool' h. q = Some (m, i, body) \<longrightarrow> pool_receive X body pool = (pool', h) \<longrightarrow>
         gw_inv hts n used pool' g' \<and> (patched_for_share m i \<longrightarrow> h = Some (share_header X m i)))"
proof -
  let ?t = "gw_tracker g" and ?k = "Sv1 (ss_job_id share)"
  show ?thesis
  proof (cases "\<exists>entry i. get_entry ?t ?k = Some entry \<and> sv1_share_to_inputs X share (jm_version (je_meta entry)) = Inr i")
    case False
    then have "relay_share X cfg share (?t, gw_pad g) = ((?t, gw_pad g), None)"
      by (auto simp: relay_share_def Let_def split: option.splits sum.splits)
    then have "g' = g" "q = None" using assms(3) by (auto simp: encode_share_def)
    then show ?thesis using assms(1) by simp
  next
    case True
    then obtain entry i where en: "get_entry ?t ?k = Some entry"
      and i: "sv1_share_to_inputs X share (jm_version (je_meta entry)) = Inr i" by blast
    let ?m = "je_meta entry" and ?seen = "seen_seeds ?t"
    have tr: "tracks hts n ?t" and known: "\<And>k e. get_entry ?t k = Some e \<Longrightarrow> entry_known pool ?seen e \<and> je_template_seed e \<in> used"
      and inj: "\<And>k e k' e'. \<lbrakk>get_entry ?t k = Some e; get_entry ?t k' = Some e'; je_template_seed e' = je_template_seed e\<rbrakk> \<Longrightarrow> k' = k"
      using assms(1) unfolding gw_inv_def by blast+
    have ke: "entry_known pool ?seen entry" "jm_coinbase_id ?m = 0" "length (server_has_coinbase entry) = 8"
      using known [OF en] by (auto simp: entry_known_def)
    obtain enc entry' pad' where b: "build_share_submission X i entry cfg (je_template_seed entry \<in> ?seen) (gw_pad g) = (enc, entry', pad')"
      by (rule prod_cases3)
    obtain pool' h where pr: "pool_receive X (se_body enc) pool = (pool', h)" by fastforce
    note p = build_parts [OF b] and pk = pool_receive_known [OF ke(1) assms(2) i b pr]
    obtain t2 where t2: "relay_share X cfg share (?t, gw_pad g) = ((t2, pad'), Some enc)"
      and get: "\<And>k. get_entry t2 k = (if k = ?k then Some entry' else get_entry ?t k)"
      and seen: "seen_seeds t2 = insert (je_template_seed entry) ?seen"
      and keys: "map fst (by_key t2) = map fst (by_key ?t)" "order t2 = order ?t" "next_datum_idx t2 = next_datum_idx ?t"
      using relay_share_Some [OF en i ke(2,3) b] by blast
    have g': "g' = g\<lparr>gw_tracker := t2, gw_pad := pad'\<rparr>" and q: "q = Some (?m, i, se_body enc)"
      using assms(3) by (simp_all add: encode_share_def t2 en i)
    have seed': "je_template_seed entry' = je_template_seed entry"
      using b by (auto simp: build_share_submission_def Let_def split: prod.splits)
    have tr2: "tracks hts n t2"
      by (rule tracks_same_keys [OF tr keys]) (use get en p(3) in auto)
    have e': "entry_known pool' (seen_seeds t2) entry'"
      using ke p(3,4,5) pk(1,2) known [OF en] by (simp add: entry_known_def)
    have other: "entry_known pool' (seen_seeds t2) e" if "get_entry ?t k = Some e" "k \<noteq> ?k" for k e
    proof -
      have "jm_datum_job_idx (je_meta e) \<noteq> jm_datum_job_idx ?m" using tracks_idx_inj [OF tr that(1) en] that(2) by blast
      moreover have "je_template_seed e \<noteq> je_template_seed entry" using inj [OF en that(1)] that(2) by blast
      ultimately show ?thesis using known [OF that(1)] pk(3) by (simp add: entry_known_def seen)
    qed
    have "gw_inv hts n used pool' g'"
      unfolding gw_inv_def
    proof (intro conjI allI impI)
      show "gw_tick g' = of_nat n" "seen_seeds (gw_tracker g') \<subseteq> used" "tracks hts n (gw_tracker g')"
        using assms(1) known [OF en] tr2 by (simp_all add: g' gw_inv_def seen)
    next
      fix k e assume e: "get_entry (gw_tracker g') k = Some e"
      then show "entry_known pool' (seen_seeds (gw_tracker g')) e" "je_template_seed e \<in> used"
        using e' other known en seed' by (auto simp: g' get split: if_splits)
      fix k' d assume "get_entry (gw_tracker g') k' = Some d" "je_template_seed d = je_template_seed e"
      then show "k' = k" using e inj [of ?k entry] inj [of _ _ ?k entry] inj en seed' by (auto simp: g' get split: if_splits)
    qed
    moreover have "patched_for_share ?m i \<longrightarrow> h = Some (share_header X ?m i)"
      using pk(4) rebuilds_header [where share = i and m = ?m and X = X] by (auto simp: patched_for_share_def)
    ultimately show ?thesis using pr by (simp add: q)
  qed
qed

section \<open>Which shares are relayed\<close>

text \<open>The shares that the relay encodes: those of a tracked job whose fields parse.\<close>

definition relayable :: "libs \<Rightarrow> JobTracker \<Rightarrow> SubmittedShare \<Rightarrow> bool" where
  "relayable X t share \<longleftrightarrow>
     (\<exists>e. get_entry t (Sv1 (ss_job_id share)) = Some e \<and> is_ok (sv1_share_to_inputs X share (jm_version (je_meta e))))"

text \<open>Relaying a share changes the flags of an entry only.\<close>

lemma relay_keeps_meta:
  assumes "relay_share X cfg share (t, pad) = ((t', pad'), enc)"
  shows "map_option je_meta (get_entry t' k) = map_option je_meta (get_entry t k)" "enc = None \<longleftrightarrow> \<not> relayable X t share"
proof -
  have "map_option je_meta (get_entry t' k) = map_option je_meta (get_entry t k) \<and> (enc = None \<longleftrightarrow> \<not> relayable X t share)"
  proof (cases "get_entry t (Sv1 (ss_job_id share))")
    case None
    then show ?thesis using assms by (simp add: relay_share_def relayable_def Let_def)
  next
    case (Some e)
    show ?thesis
    proof (cases "sv1_share_to_inputs X share (jm_version (je_meta e))")
      case (Inl x)
      then show ?thesis using assms Some by (simp add: relay_share_def relayable_def is_ok_def Let_def)
    next
      case (Inr i)
      obtain en e' p where b: "build_share_submission X i e cfg
          (cross_protocol_coinbase_already_seen t (je_template_seed e) (jm_coinbase_id (je_meta e))) pad = (en, e', p)"
        by (rule prod_cases3)
      note m = build_parts(3) [OF b]
      show ?thesis
        using assms Some Inr m b
        by (auto simp: relay_share_def relayable_def is_ok_def get_entry_set get_entry_mark Let_def split: if_splits)
    qed
  qed
  then show "map_option je_meta (get_entry t' k) = map_option je_meta (get_entry t k)" "enc = None \<longleftrightarrow> \<not> relayable X t share" by blast+
qed

section \<open>The driver's counters\<close>

fun drive_all :: "libs \<Rightarrow> DriverConfig \<Rightarrow> (bytes option \<times> Template option \<times> CoinbaserBlob option) list \<Rightarrow> Driver
    \<Rightarrow> TemplateState list" where
  "drive_all X cfg [] d = []"
| "drive_all X cfg ((tag, t, c) # rest) d =
     (let (d', st) = drive_template X cfg tag t c d
      in (case st of None \<Rightarrow> [] | Some s \<Rightarrow> [s]) @ drive_all X cfg rest d')"

lemma coinb1_enprefix:
  "drop (length (fst (build_split_coinbase_bin t s o')) - 2) (fst (build_split_coinbase_bin t s o')) = le_bytes 2 (enprefix s)"
proof -
  obtain p where "fst (build_split_coinbase_bin t s o') = p @ le_bytes 2 (enprefix s)"
    unfolding build_split_coinbase_bin_def Let_def fst_conv append_assoc [symmetric] by blast
  then show ?thesis by simp
qed

lemma drive_all_counters:
  "map job_id_seed (drive_all X cfg ins \<lparr>enprefix_counter = of_nat e, next_seed = of_nat n\<rparr>)
     = map of_nat [n..<n + length (drive_all X cfg ins \<lparr>enprefix_counter = of_nat e, next_seed = of_nat n\<rparr>)]
   \<and> map (\<lambda>st. drop (length (coinb1 st) - 2) (coinb1 st)) (drive_all X cfg ins \<lparr>enprefix_counter = of_nat e, next_seed = of_nat n\<rparr>)
     = map (\<lambda>i. le_bytes 2 (of_nat i XOR (0xB10C :: u16))) [e..<e + length (drive_all X cfg ins \<lparr>enprefix_counter = of_nat e, next_seed = of_nat n\<rparr>)]"
proof (induction ins arbitrary: e n)
  case (Cons a ins)
  obtain tag t c where a: "a = (tag, t, c)" by (rule prod_cases3)
  show ?case
  proof (cases "t = None \<or> c = None")
    case True
    then have "drive_template X cfg tag t c \<lparr>enprefix_counter = of_nat e, next_seed = of_nat n\<rparr>
        = (\<lparr>enprefix_counter = of_nat e, next_seed = of_nat n\<rparr>, None)"
      by (auto simp: drive_template_def split: option.splits)
    then show ?thesis using Cons [of e n] by (simp add: a)
  next
    case False
    then obtain tt cc where tc: "t = Some tt" "c = Some cc" by auto
    obtain st where st: "drive_template X cfg tag t c \<lparr>enprefix_counter = of_nat e, next_seed = of_nat n\<rparr>
        = (\<lparr>enprefix_counter = of_nat (e + 1), next_seed = of_nat (n + 1)\<rparr>, Some st)"
      and "job_id_seed st = of_nat n" "drop (length (coinb1 st) - 2) (coinb1 st) = le_bytes 2 (of_nat e XOR (0xB10C :: u16))"
      using coinb1_enprefix by (simp add: tc drive_template_def Let_def from_template_and_blob_def case_prod_unfold)
    then show ?thesis using Cons [of "e + 1" "n + 1"] by (simp add: a st upt_conv_Cons del: upt_Suc)
  qed
qed simp

text \<open>Every job state that the driver publishes is distinguishable: whatever wakes it and in
  whatever order, the published states carry the seeds 0, 1, 2 and so on, and their coinbase
  halves end in the same counter masked with 0xB10C, so that no two of 65536 consecutive states
  have the same coinbase, even for an unchanged template.\<close>

theorem driver_states_fresh:
  "map job_id_seed (drive_all X cfg ins new_driver) = map of_nat [0..<length (drive_all X cfg ins new_driver)]
   \<and> map (\<lambda>st. drop (length (coinb1 st) - 2) (coinb1 st)) (drive_all X cfg ins new_driver)
     = map (\<lambda>i. le_bytes 2 (of_nat i XOR (0xB10C :: u16))) [0..<length (drive_all X cfg ins new_driver)]"
  using drive_all_counters [of X cfg ins 0 0] by (simp add: new_driver_def)

section \<open>From template to header\<close>

text \<open>C6: The header that is hashed commits to the template: for a template with at most three
  transactions, whose previous block hash and bits are the hex of 32 and 4 bytes, a share's header is
  the share's version, the template's previous block hash with its bytes reversed, the Merkle root of
  the coinbase that the miner hashed followed by the template's transaction ids, the share's time,
  the template's bits with their bytes reversed, and the share's nonce.\<close>

theorem header_commits_to_template:
  assumes "length (transactions t) \<le> 3" "st = from_template_and_blob X t blob s seed"
    and "notify_from_template_state X job_id idx cid st clean = (np, m)"
    and "hex_decode X (previous_block_hash t) = Some ph" "length ph = 32" "hex_decode X (bits t) = Some nb" "length nb = 4"
  shows "share_header X m share = le_bytes 4 (si_version share) @ rev ph
    @ merkle_root X (double_sha256 X (coinb1_of_share m share @ si_extranonce share @ coinb2 st) # tx_leaves X t)
    @ le_bytes 4 (si_ntime share) @ rev nb @ le_bytes 4 (si_nonce share)"
proof -
  have "merkle_branches st = build_merkle_branches X t" "prev_hash st = rev ph" "nbits st = nb"
    by (simp_all add: assms(2,4-7) from_template_and_blob_def Let_def case_prod_unfold exact_bytes_def)
  moreover have "jm_merkle_branches_bin m = merkle_branches st" "jm_coinb2_bin m = coinb2 st"
    "jm_prevhash_bin m = prev_hash st" "jm_nbits_bin m = nbits st"
    using assms(3) by (auto simp: notify_from_template_state_def Let_def)
  ultimately show ?thesis
    using small_branches [OF assms(1)] by (simp add: share_header_def merkle_root_climb)
qed

section \<open>Samples\<close>

definition sample_job_id :: string where "sample_job_id = make_job_id 0 0 1"

definition sample_submit :: SubmittedShare where
  "sample_submit = \<lparr>ss_username = ''rig'', ss_job_id = sample_job_id, ss_extranonce2_hex = ''00'', ss_ntime_hex = ''5a'',
     ss_nonce_hex = ''0x07'', ss_extranonce1 = [1, 2, 3, 4], ss_version_rolling = 0, ss_current_diff = 1024,
     ss_patched_coinb1 = None\<rparr>"

lemma sample_inputs: "\<exists>i. sv1_share_to_inputs plain_libs sample_submit v = Inr i \<and> si_patched_coinb1 i = None"
proof -
  have "parse_u32_be_hex ''5a'' = Some 0x5a" "parse_u32_be_hex ''0x07'' = Some 7"
    by (simp_all add: parse_u32_be_hex_def strip_0x_def from_str_radix16_def radix16_digit_def)
  moreover have "hex_decode plain_libs ''00'' = Some [0]" by (simp add: plain_libs_def digit_value_def hex_digits_def)
  ultimately show ?thesis by (simp add: sv1_share_to_inputs_def sample_submit_def Let_def)
qed

definition tip_hash :: bytes where "tip_hash = 0xAB # replicate 31 0"

definition two_txs :: Template where
  "two_txs = sample_template\<lparr>transactions := map sample_tx ''12'', previous_block_hash := ref_hex_encode tip_hash\<rparr>"

definition two_txs_meta :: JobMeta where
  "two_txs_meta = snd (notify_from_template_state plain_libs ''1'' 0 0
     (from_template_and_blob plain_libs two_txs sample_blob default_scriptsig 7) True)"

theorem header_commits_to_template_witness:
  "share_header plain_libs two_txs_meta sample_share = le_bytes 4 (si_version sample_share) @ rev tip_hash
    @ merkle_root plain_libs (double_sha256 plain_libs (coinb1_of_share two_txs_meta sample_share
        @ si_extranonce sample_share @ jm_coinb2_bin two_txs_meta) # tx_leaves plain_libs two_txs)
    @ le_bytes 4 (si_ntime sample_share) @ [0xFF, 0xFF, 0, 0x1D] @ le_bytes 4 (si_nonce sample_share)"
proof -
  let ?st = "from_template_and_blob plain_libs two_txs sample_blob default_scriptsig 7"
  obtain np where nm: "notify_from_template_state plain_libs ''1'' 0 0 ?st True = (np, two_txs_meta)"
    unfolding two_txs_meta_def by (metis surjective_pairing)
  have two: "length (transactions two_txs) \<le> 3" by (simp add: two_txs_def)
  have ph: "hex_decode plain_libs (previous_block_hash two_txs) = Some tip_hash" "length tip_hash = 32"
    by (simp_all add: two_txs_def plain_libs_def ref_hex_round_trip tip_hash_def)
  have nb: "hex_decode plain_libs (bits two_txs) = Some [0x1D, 0, 0xFF, 0xFF]" "length [0x1D :: byte, 0, 0xFF, 0xFF] = 4"
    by (simp_all add: two_txs_def sample_template_def plain_libs_def digit_value_def hex_digits_def)
  have "jm_coinb2_bin two_txs_meta = coinb2 ?st"
    by (simp add: two_txs_meta_def notify_from_template_state_def Let_def)
  then show ?thesis
    using header_commits_to_template [OF two refl nm ph nb, of sample_share] by simp
qed

end
