(* ===== verification/EndToEnd.thy ===== *)
theory EndToEnd
  imports Relay
begin

text \<open>
  The Stratum V1 path of a share from end to end: a job state is assembled into a notify and a
  tracked job, a connection sends the notify patched for its difficulty, a miner hashes what it has
  read, and the share that it submits reaches the relay, whose header is the one that the pool
  rebuilds.  The miner is the reader of the protocol (Stratum V1 with BIP 310), not code of the
  repository.
\<close>

unbundle bit_operations_syntax

section \<open>The miner\<close>

record Work =
  wk_extranonce2 :: bytes
  wk_ntime :: u32
  wk_nonce :: u32
  wk_bits :: u32 \<comment> \<open>the rolled version bits\<close>

definition read_notify :: "json \<Rightarrow> NotifyParams option" where
  "read_notify params =
     (case params of
        JArr [JStr jid, JStr prev, JStr c1, JStr c2, JArr brs, JStr ver, JStr nb, JStr tm, JBool cl] \<Rightarrow>
          map_option (\<lambda>bs. \<lparr>np_job_id = jid, np_prev_hash = prev, np_coinb1 = c1, np_coinb2 = c2, np_merkle_branch = bs,
              np_version_hex = ver, np_nbits_hex = nb, np_ntime_hex = tm, np_clean_jobs = cl\<rparr>)
            (those (map as_str brs))
      | _ \<Rightarrow> None)"

text \<open>The header that the miner hashes.  It undoes the swap of the words of the previous hash, appends
  the branches as they come, and rolls the version bits under the mask.\<close>

definition miner_header :: "libs \<Rightarrow> json \<Rightarrow> bytes \<Rightarrow> u32 \<Rightarrow> Work \<Rightarrow> bytes option" where
  "miner_header X params xn1 msk w =
     Option.bind (read_notify params) (\<lambda>np.
     Option.bind (hex_decode X (np_prev_hash np)) (\<lambda>prev.
     Option.bind (hex_decode X (np_coinb1 np)) (\<lambda>c1.
     Option.bind (hex_decode X (np_coinb2 np)) (\<lambda>c2.
     Option.bind (those (map (hex_decode X) (np_merkle_branch np))) (\<lambda>brs.
     Option.bind (from_str_radix16 (np_version_hex np)) (\<lambda>v.
     Option.bind (hex_decode X (np_nbits_hex np)) (\<lambda>nb.
       Some (le_bytes 4 ((v AND NOT msk) OR wk_bits w) @ swap_words prev
         @ climb X (double_sha256 X (c1 @ xn1 @ wk_extranonce2 w @ c2)) brs
         @ le_bytes 4 (wk_ntime w) @ rev nb @ le_bytes 4 (wk_nonce w)))))))))"

text \<open>Its submit.\<close>

definition miner_submit :: "libs \<Rightarrow> json \<Rightarrow> string \<Rightarrow> string \<Rightarrow> bool \<Rightarrow> Work \<Rightarrow> StratumRequest" where
  "miner_submit X rid user jid rolling w =
     \<lparr>rq_id = rid, rq_method = ''mining.submit'',
      rq_params = JArr ([JStr user, JStr jid, JStr (hex_encode X (wk_extranonce2 w)), JStr (hex8 (wk_ntime w)), JStr (hex8 (wk_nonce w))]
        @ (if rolling then [JStr (hex8 (wk_bits w))] else []))\<rparr>"

section \<open>Reading back what was written\<close>

lemma those_map_Some [simp]: "those (map (\<lambda>x. Some (f x)) xs) = Some (map f xs)"
  by (induction xs) simp_all

lemma read_to_json [simp]: "read_notify (to_json_array np) = Some np"
  by (simp add: read_notify_def to_json_array_def o_def)

lemma radix16_digit_digit: "n < 16 \<Longrightarrow> radix16_digit (digit n) = Some n"
  using digit_value_digit [of n] by (simp add: radix16_digit_def digit_value_def hex_digits_def)

lemma radix16_hex:
  "acc * 256 ^ length bs + le_nat (rev bs) < 2 ^ 32 \<Longrightarrow>
     radix16 acc (ref_hex_encode bs) = Some (acc * 256 ^ length bs + le_nat (rev bs))"
proof (induction bs arbitrary: acc)
  case (Cons b bs)
  have d: "unat b div 16 < 16" "unat b mod 16 < 16" using unat_byte_less [of b] by simp_all
  define h where "h = 16 * acc + unat b div 16"
  define a where "a = 16 * h + unat b mod 16"
  have "a = 256 * acc + unat b" unfolding a_def h_def using mult_div_mod_eq [of 16 "unat b"] by simp
  then have v: "acc * 256 ^ length (b # bs) + le_nat (rev (b # bs)) = a * 256 ^ length bs + le_nat (rev bs)"
    by (simp add: le_nat_append algebra_simps)
  then have "a * 256 ^ length bs < 2 ^ 32" using Cons.prems by linarith
  moreover have "a * 1 \<le> a * 256 ^ length bs" by (rule mult_le_mono2) simp
  ultimately have a: "a < 2 ^ 32" by linarith
  then have h: "h < 2 ^ 32" unfolding a_def by linarith
  have "radix16 acc (ref_hex_encode (b # bs)) = radix16 a (ref_hex_encode bs)"
    using a h by (simp add: ref_hex_encode_def hex_of_byte_def radix16_digit_digit d a_def h_def)
  then show ?case using Cons.IH [of a] Cons.prems unfolding v by simp
qed (simp add: ref_hex_encode_def)

lemma digit_plain: "n < 16 \<Longrightarrow> digit n \<noteq> CHR ''+'' \<and> digit n \<noteq> CHR ''x''"
proof -
  assume "n < 16"
  then have "digit n \<in> set hex_digits" unfolding digit_def by (intro nth_mem) (simp add: hex_digits_def)
  then show ?thesis by (auto simp: hex_digits_def)
qed

lemma hex8_head: "\<exists>c d r. hex8 w = c # d # r \<and> c \<noteq> CHR ''+'' \<and> d \<noteq> CHR ''x''"
proof -
  obtain b bs where b: "be_bytes 4 w = b # bs" using be_bytes_length [of 4 w] by (cases "be_bytes 4 w") auto
  have "unat b div 16 < 16" "unat b mod 16 < 16" using unat_byte_less [of b] by simp_all
  then show ?thesis unfolding hex8_def b by (simp add: ref_hex_encode_def hex_of_byte_def digit_plain)
qed

lemma from_str_hex8: "from_str_radix16 (hex8 w) = Some w"
proof -
  have lt: "unat w < 2 ^ 32" using unsigned_less [of w] by simp
  have "le_nat (rev (be_bytes 4 w)) = unat w" using lt by (simp add: be_bytes_def le_nat_le_bytes)
  moreover note lt
  ultimately have "radix16 0 (hex8 w) = Some (unat w)" using radix16_hex [of 0 "be_bytes 4 w"] by (simp add: hex8_def)
  moreover obtain c d r where "hex8 w = c # d # r" "c \<noteq> CHR ''+''" using hex8_head by blast
  ultimately show ?thesis by (simp add: from_str_radix16_def)
qed

lemma parse_u32_hex8: "parse_u32_be_hex (hex8 w) = Some w" "trim_0x (hex8 w) = hex8 w"
proof -
  obtain c d r where h: "hex8 w = c # d # r" "d \<noteq> CHR ''x''" using hex8_head by blast
  then have "strip_0x (hex8 w) = hex8 w" by (simp add: strip_0x_def)
  then show "parse_u32_be_hex (hex8 w) = Some w" by (simp add: parse_u32_be_hex_def from_str_hex8)
  show "trim_0x (hex8 w) = hex8 w" using h by simp
qed

section \<open>The two headers\<close>

definition job_notify :: "NotifyParams \<Rightarrow> JobMeta \<Rightarrow> string \<Rightarrow> NotifyJob" where
  "job_notify np m jid = notify_job_with_coinb1 (to_json_array np) (jm_target_pot_index m) (jm_coinb1_bin m) jid"

lemma miner_reads:
  assumes "hex_laws X" "notify_from_template_state X jid idx cid st clean = (np, m)" "length (prev_hash st) = 32"
  shows "\<exists>params. send_notify (job_notify np m jid) d = Push ''mining.notify'' params
    \<and> (\<forall>xn1 msk w. miner_header X params xn1 msk w =
        Some (le_bytes 4 ((jm_version m AND NOT msk) OR wk_bits w) @ rev (jm_prevhash_bin m)
          @ climb X (double_sha256 X (ej_patched_coinb1 (emitted (job_notify np m jid) d) @ xn1 @ wk_extranonce2 w @ jm_coinb2_bin m))
              (jm_merkle_branches_bin m)
          @ le_bytes 4 (wk_ntime w) @ rev (jm_nbits_bin m) @ le_bytes 4 (wk_nonce w)))"
proof -
  let ?job = "job_notify np m jid"
  have j: "nj_params ?job = to_json_array np" "np_coinb1 np = hex_encode X (nj_coinb1_bin ?job)"
    using assms(2) by (auto simp: job_notify_def notify_job_with_coinb1_def notify_from_template_state_def Let_def)
  obtain h where h: "send_notify ?job d = Push ''mining.notify'' (to_json_array (np\<lparr>np_coinb1 := h\<rparr>))"
    "hex_decode X h = Some (ej_patched_coinb1 (emitted ?job d))" using notify_patched [OF assms(1) j] by blast
  obtain prev where p: "hex_decode X (np_prev_hash np) = Some prev" "swap_words prev = rev (jm_prevhash_bin m)"
    using notify_prevhash_reversed [OF assms(1,3,2)] by (auto simp: miner_prevhash_def)
  have f: "np_coinb2 np = hex_encode X (jm_coinb2_bin m)" "np_merkle_branch np = map (hex_encode X) (jm_merkle_branches_bin m)"
    "np_version_hex np = hex8 (jm_version m)" "np_nbits_hex np = hex_encode X (jm_nbits_bin m)"
    using assms(2) by (auto simp: notify_from_template_state_def Let_def)
  note d = hex_lawsD(1) [OF assms(1)]
  show ?thesis by (intro exI conjI, rule h(1)) (simp add: miner_header_def h(2) p f d o_def from_str_hex8)
qed

definition usable_mask :: "Conn \<Rightarrow> u32" where
  "usable_mask c = (if cn_rolling_enabled c then cn_rolling_mask c else 0)"

lemma server_takes:
  assumes "hex_laws X" "length (wk_extranonce2 w) = 8" "cn_subscribed c" "cn_authorized c" "sv_submit_wired sst"
    and "ring_lookup (cn_ring c) jid = Some e" "wk_bits w AND NOT (usable_mask c) = 0"
  shows "\<exists>c' outs share. handle_submit sst (miner_submit X rid user jid (cn_rolling_enabled c) w) c = (c', outs, [share])
    \<and> ss_job_id share = jid \<and> ss_username share = (if user = [] then cn_username c else user)
    \<and> sv1_share_to_inputs X share v = Ok \<lparr>si_username = ascii (ss_username share),
        si_extranonce = be_bytes 4 (cn_xn1 c) @ wk_extranonce2 w, si_ntime = wk_ntime w, si_nonce = wk_nonce w,
        si_version = v OR wk_bits w, si_current_diff = ej_diff e, si_patched_coinb1 = Some (ej_patched_coinb1 e)\<rparr>"
proof -
  let ?ps = "\<lparr>ps_username = user, ps_job_id = jid, ps_extranonce2_hex = hex_encode X (wk_extranonce2 w),
    ps_ntime_hex = hex8 (wk_ntime w), ps_nonce_hex = hex8 (wk_nonce w),
    ps_version_rolling_raw = (if cn_rolling_enabled c then Some (wk_bits w) else None)\<rparr>"
  have ps: "parse_submit_params (rq_params (miner_submit X rid user jid (cn_rolling_enabled c) w)) = Some ?ps"
    by (simp add: parse_submit_params_def miner_submit_def nth_opt_def parse_u32_hex8(2) from_str_hex8)
  have bits: "wk_bits w AND usable_mask c = wk_bits w"
    using assms(7) by (auto simp: bit_eq_iff bit_simps)
  have v: "rolled_version c ?ps = Some (wk_bits w)"
    using assms(7) bits by (auto simp: rolled_version_def usable_mask_def)
  show ?thesis
    using assms(2-6) by (simp add: handle_submit_def ps v submitted_share_def sv1_share_to_inputs_def parse_u32_hex8(1)
        hex_lawsD(1) [OF assms(1)] Let_def)
qed

lemma assemble_job_parts:
  assumes "assemble_job X st s = (s', job)"
  obtains jid idx np m where "notify_from_template_state X jid idx COINBASE_ID st True = (np, m)"
    "job = job_notify np m jid" "get_entry (snd s') (Sv1 jid) = Some (new_entry m (job_id_seed st))"
  using assms by (cases s) (auto simp: assemble_job_def job_notify_def tracker_insert_def get_entry_def Let_def
      AList.update_conv split: prod.splits)

lemma rolled_bits: "(v AND NOT msk) OR b = v OR b \<longleftrightarrow> v AND msk AND NOT b = (0 :: u32)"
  by (auto simp: bit_eq_iff bit_simps)

lemma headers_equal:
  "length p = length p' \<Longrightarrow>
     le_bytes 4 (v :: u32) @ p @ r @ rest = le_bytes 4 v' @ p' @ r' @ rest \<longleftrightarrow> v = v' \<and> p = p' \<and> r = r'"
  by (simp add: le_bytes_inj)

lemma compute_merkle_root_climb:
  "compute_merkle_root X c1 xn c2 branches = climb X (double_sha256 X (c1 @ xn @ c2)) (map rev branches)"
  by (simp add: compute_merkle_root_def climb_def foldl_map)

text \<open>C2: Whether a share is good is decided on the header that the miner hashed, and the relay rebuilds
  it exactly: from the moment a job state is assembled and sent to a session, the share that a
  miner of the protocol submits is taken and gives the relay the same coinbase (patched half,
  both extranonces, second half), time, bits and nonce, whatever the difficulty.  The two headers
  are the same exactly if the template sets no version bit under the mask that the miner has left
  clear (the relay ors the bits in), the previous hash reads the same in both directions (the
  notify carries its words in the opposite order), and the branches climb to the same root in both
  byte orders (the notify carries them as displayed).\<close>

theorem sv1_headers_agree:
  assumes "hex_laws X" "length (prev_hash st) = 32" "assemble_job X st s = (s', job)"
    and "latest_job w0 = Some job" "emit_pending w0 c0 = (c, outs)"
    and "cn_subscribed c0" "cn_authorized c0" "sv_submit_wired sst"
    and "length (wk_extranonce2 w) = 8" "wk_bits w AND NOT (usable_mask c) = 0"
  shows "\<exists>params h c' replies share e i.
      outs = [Push ''mining.notify'' params]
    \<and> miner_header X params (be_bytes 4 (cn_xn1 c)) (usable_mask c) w = Some h
    \<and> handle_submit sst (miner_submit X rid user (nj_job_id job) (cn_rolling_enabled c) w) c = (c', replies, [share])
    \<and> get_entry (snd s') (Sv1 (ss_job_id share)) = Some e
    \<and> sv1_share_to_inputs X share (jm_version (je_meta e)) = Ok i
    \<and> (h = share_header X (je_meta e) i \<longleftrightarrow>
         version st AND usable_mask c AND NOT (wk_bits w) = 0 \<and> rev (prev_hash st) = prev_hash st
         \<and> (let cb = double_sha256 X (coinb1_of_share (je_meta e) i @ si_extranonce i @ coinb2 st)
            in climb X cb (merkle_branches st) = climb X cb (map rev (merkle_branches st))))"
proof -
  obtain jid idx np m where n: "notify_from_template_state X jid idx COINBASE_ID st True = (np, m)"
    and job: "job = job_notify np m jid" and e: "get_entry (snd s') (Sv1 jid) = Some (new_entry m (job_id_seed st))"
    by (rule assemble_job_parts [OF assms(3)])
  have m: "jm_version m = version st" "jm_prevhash_bin m = prev_hash st" "jm_coinb2_bin m = coinb2 st"
    "jm_merkle_branches_bin m = merkle_branches st"
    using n by (auto simp: notify_from_template_state_def Let_def)
  have j: "nj_job_id job = jid" by (simp add: job job_notify_def notify_job_with_coinb1_def)
  have c: "c = c0\<lparr>cn_ring := ring_push (cn_ring c0) (emitted job (cn_diff c0))\<rparr>" "outs = [send_notify job (cn_diff c0)]"
    using assms(4,5) by (auto simp: emit_pending_def)
  then have ring: "ring_lookup (cn_ring c) jid = Some (emitted job (cn_diff c0))"
    by (simp add: ring_push_def ring_lookup_def ring_items_def emitted_def j)
  obtain params where params: "send_notify job (cn_diff c0) = Push ''mining.notify'' params"
    and h: "\<And>xn1 msk w. miner_header X params xn1 msk w =
        Some (le_bytes 4 ((jm_version m AND NOT msk) OR wk_bits w) @ rev (jm_prevhash_bin m)
          @ climb X (double_sha256 X (ej_patched_coinb1 (emitted job (cn_diff c0)) @ xn1 @ wk_extranonce2 w @ jm_coinb2_bin m))
              (jm_merkle_branches_bin m)
          @ le_bytes 4 (wk_ntime w) @ rev (jm_nbits_bin m) @ le_bytes 4 (wk_nonce w))"
    using miner_reads [OF assms(1) n assms(2), of "cn_diff c0"] unfolding job by blast
  have sess: "cn_subscribed c" "cn_authorized c" using assms(6,7) c(1) by simp_all
  obtain c' replies share where sub:
    "handle_submit sst (miner_submit X rid user jid (cn_rolling_enabled c) w) c = (c', replies, [share])" "ss_job_id share = jid"
    and "sv1_share_to_inputs X share (jm_version m) = Ok \<lparr>si_username = ascii (ss_username share),
        si_extranonce = be_bytes 4 (cn_xn1 c) @ wk_extranonce2 w, si_ntime = wk_ntime w, si_nonce = wk_nonce w,
        si_version = jm_version m OR wk_bits w, si_current_diff = ej_diff (emitted job (cn_diff c0)),
        si_patched_coinb1 = Some (ej_patched_coinb1 (emitted job (cn_diff c0)))\<rparr>"
    using server_takes [OF assms(1,9) sess assms(8) ring assms(10), of rid user "jm_version m"] by blast
  then obtain i where i: "sv1_share_to_inputs X share (jm_version m) = Ok i" "si_extranonce i = be_bytes 4 (cn_xn1 c) @ wk_extranonce2 w"
    "si_ntime i = wk_ntime w" "si_nonce i = wk_nonce w" "si_version i = jm_version m OR wk_bits w"
    "coinb1_of_share m i = ej_patched_coinb1 (emitted job (cn_diff c0))"
    by (auto simp: coinb1_of_share_def)
  have meta: "je_meta (new_entry m (job_id_seed st)) = m" by (simp add: new_entry_def)
  let ?cb = "double_sha256 X (coinb1_of_share m i @ si_extranonce i @ coinb2 st)"
  define h where "h = le_bytes 4 ((jm_version m AND NOT (usable_mask c)) OR wk_bits w) @ rev (jm_prevhash_bin m)
    @ climb X (double_sha256 X (ej_patched_coinb1 (emitted job (cn_diff c0)) @ be_bytes 4 (cn_xn1 c) @ wk_extranonce2 w @ jm_coinb2_bin m))
        (jm_merkle_branches_bin m)
    @ le_bytes 4 (wk_ntime w) @ rev (jm_nbits_bin m) @ le_bytes 4 (wk_nonce w)"
  have "share_header X m i = le_bytes 4 (version st OR wk_bits w) @ prev_hash st @ climb X ?cb (map rev (merkle_branches st))
      @ le_bytes 4 (wk_ntime w) @ rev (jm_nbits_bin m) @ le_bytes 4 (wk_nonce w)"
    by (simp add: share_header_def compute_merkle_root_climb i m)
  then have "h = share_header X m i \<longleftrightarrow> version st AND usable_mask c AND NOT (wk_bits w) = 0
      \<and> rev (prev_hash st) = prev_hash st \<and> climb X ?cb (merkle_branches st) = climb X ?cb (map rev (merkle_branches st))"
    unfolding h_def m by (simp add: headers_equal le_bytes_inj rolled_bits i)
  moreover have "miner_header X params (be_bytes 4 (cn_xn1 c)) (usable_mask c) w = Some h" unfolding h h_def ..
  ultimately show ?thesis
    using c(2) params sub e i(1) unfolding j
    by (intro exI [of _ params] exI [of _ h] exI [of _ c'] exI [of _ replies] exI [of _ share]
        exI [of _ "new_entry m (job_id_seed st)"] exI [of _ i]) (simp add: meta Let_def)
qed

theorem sv1_headers_agree_witness:
  "\<exists>params h share m i.
      miner_header plain_libs params (be_bytes 4 (extranonce1 (sv_thread_id sample_server) 7)) 0
        \<lparr>wk_extranonce2 = [1, 2, 3, 4, 5, 6, 7, 8], wk_ntime = 0x5a, wk_nonce = 9, wk_bits = 0\<rparr> = Some h
    \<and> sv1_share_to_inputs plain_libs share (jm_version m) = Ok i \<and> h \<noteq> share_header plain_libs m i"
proof -
  let ?w = "\<lparr>wk_extranonce2 = [1, 2, 3, 4, 5, 6, 7, 8], wk_ntime = 0x5a, wk_nonce = 9, wk_bits = 0\<rparr>"
  obtain s' job where a: "assemble_job plain_libs sample_state (0, tracker_new) = (s', job)" by (metis surj_pair)
  let ?world = "\<lparr>latest_job = Some job, pool_min = 1\<rparr>"
  let ?cn = "(new_conn sample_server ?world 7)\<lparr>cn_subscribed := True, cn_authorized := True\<rparr>"
  obtain c outs where c: "emit_pending ?world ?cn = (c, outs)" by (metis surj_pair)
  then have u: "usable_mask c = 0" "cn_xn1 c = extranonce1 (sv_thread_id sample_server) 7"
    by (auto simp: emit_pending_def usable_mask_def new_conn_def)
  have "hd (rev (prev_hash sample_state)) \<noteq> hd (prev_hash sample_state)" by (simp add: sample_state_def)
  then have p: "length (prev_hash sample_state) = 32" "rev (prev_hash sample_state) \<noteq> prev_hash sample_state"
    by (simp add: sample_state_def, metis)
  have w: "length (wk_extranonce2 ?w) = 8" "wk_bits ?w AND NOT (usable_mask c) = 0" by simp_all
  have s: "latest_job ?world = Some job" "cn_subscribed ?cn" "cn_authorized ?cn" "sv_submit_wired sample_server"
    by (simp_all add: sample_server_def)
  show ?thesis
    using sv1_headers_agree [OF plain_libs_laws(1) p(1) a s(1) c s(2-4) w, of "JNum 1" "''rig''"] p(2) unfolding u by blast
qed

end
