(* ===== verification/Frame.thy ===== *)
theory Frame
  imports Prelude
begin

text \<open>
  The DATUM frame layer: the opcodes of \<open>crates/datum-protocol/src/opcodes.rs\<close>, the
  packed 32-bit header of \<open>frame.rs\<close> and the XOR key chain of \<open>obfuscation.rs\<close>.
  A header is kept as the record of the code; its wire form is four bytes.
\<close>

unbundle bit_operations_syntax

section \<open>Opcodes\<close>

datatype ProtoCmd = Ping | Pong | Hello | Coinbaser | CoinbaserAck | Share | ShareAck
  | JobValidation | ClientConfigCmd | BlockNotifyCmd | UnknownCmd byte

fun byte_value :: "ProtoCmd \<Rightarrow> byte" where
  "byte_value Ping = 0x01"
| "byte_value Pong = 0x02"
| "byte_value Hello = 0x03"
| "byte_value Coinbaser = 0x10"
| "byte_value CoinbaserAck = 0x11"
| "byte_value Share = 0x27"
| "byte_value ShareAck = 0x8F"
| "byte_value JobValidation = 0x50"
| "byte_value ClientConfigCmd = 0x99"
| "byte_value BlockNotifyCmd = 0xF9"
| "byte_value (UnknownCmd b) = b"

definition from_bits :: "byte \<Rightarrow> ProtoCmd" where
  "from_bits b = (let x = b AND 0x1F in
     if x = 0x01 then Ping else if x = 0x02 then Pong else if x = 0x03 then Hello
     else if x = 0x10 then Coinbaser else if x = 0x11 then CoinbaserAck
     else if x = 0x07 then Share else if x = 0x0F then ShareAck
     else if x = 0x19 then ClientConfigCmd else UnknownCmd x)"

text \<open>The named opcodes that the five wire bits identify.\<close>

definition recoverable :: "ProtoCmd \<Rightarrow> bool" where
  "recoverable c = (case c of JobValidation \<Rightarrow> False | BlockNotifyCmd \<Rightarrow> False
     | UnknownCmd b \<Rightarrow> from_bits b = UnknownCmd b | _ \<Rightarrow> True)"

lemma from_bits_mask: "from_bits (b AND 0x1F) = from_bits b"
  by (simp add: from_bits_def Let_def and.assoc)

lemma from_bits_unknown: "from_bits b = UnknownCmd x \<Longrightarrow> x = b AND 0x1F"
  by (auto simp: from_bits_def Let_def split: if_splits)

section \<open>The packed header\<close>

record frame_header =
  cmd_len :: u32
  is_signed :: bool
  is_encrypted_pubkey :: bool
  is_encrypted_channel :: bool
  proto_cmd :: byte

definition MAX_CMD_LEN :: u32 where "MAX_CMD_LEN = 4 * 1024 * 1024"
definition HEADER_LEN :: nat where "HEADER_LEN = 4"

datatype frame_error = CmdLenTooLarge u32 | ProtoCmdTooLarge byte

definition pack_word :: "frame_header \<Rightarrow> u32" where
  "pack_word h =
     (let w = cmd_len h AND 0x3FFFFF;
          w = (if is_signed h then w OR push_bit 24 1 else w);
          w = (if is_encrypted_pubkey h then w OR push_bit 25 1 else w);
          w = (if is_encrypted_channel h then w OR push_bit 26 1 else w)
      in w OR push_bit 27 (ucast (proto_cmd h) AND 0x1F))"

definition pack :: "frame_header \<Rightarrow> frame_error + bytes" where
  "pack h =
     (if push_bit 22 1 \<le> cmd_len h \<or> MAX_CMD_LEN < cmd_len h then Err (CmdLenTooLarge (cmd_len h))
      else if 32 \<le> proto_cmd h then Err (ProtoCmdTooLarge (proto_cmd h))
      else Ok (le_bytes HEADER_LEN (pack_word h)))"

definition unpack_word :: "u32 \<Rightarrow> frame_header" where
  "unpack_word w =
     \<lparr> cmd_len = w AND 0x3FFFFF,
       is_signed = (w AND push_bit 24 1 \<noteq> 0),
       is_encrypted_pubkey = (w AND push_bit 25 1 \<noteq> 0),
       is_encrypted_channel = (w AND push_bit 26 1 \<noteq> 0),
       proto_cmd = ucast (drop_bit 27 w AND 0x1F) \<rparr>"

definition unpack :: "bytes \<Rightarrow> frame_header" where
  "unpack bs = unpack_word (le_word bs)"

definition wire_header :: "frame_header \<Rightarrow> bool" where
  "wire_header h \<longleftrightarrow> cmd_len h < 2 ^ 22 \<and> proto_cmd h < 32"

lemma mask22: "(0x3FFFFF :: u32) = mask 22" by (simp add: mask_eq_exp_minus_1)
lemma mask5: "(0x1F :: 'a::len word) = mask 5" by (simp add: mask_eq_exp_minus_1)

lemma and_single_bit: "(w AND push_bit n 1 \<noteq> 0) \<longleftrightarrow> bit (w :: 'a::len word) n"
  by (simp add: push_bit_of_1 bit_iff_and_push_bit_not_eq_0)

lemma pack_word_flags:
  "pack_word h = (cmd_len h AND mask 22) OR (if is_signed h then push_bit 24 1 else 0)
     OR (if is_encrypted_pubkey h then push_bit 25 1 else 0)
     OR (if is_encrypted_channel h then push_bit 26 1 else 0)
     OR push_bit 27 (ucast (proto_cmd h) AND mask 5)"
  by (simp add: pack_word_def Let_def mask22 mask5 or.assoc)

lemma bit_flag: "n < 32 \<Longrightarrow> bit (if b then push_bit n (1 :: u32) else 0) k \<longleftrightarrow> b \<and> k = n"
  by (auto simp: bit_simps)

lemma bit_pack_word:
  "bit (pack_word h) k \<longleftrightarrow>
     (k < 22 \<and> bit (cmd_len h) k) \<or> (k = 24 \<and> is_signed h) \<or> (k = 25 \<and> is_encrypted_pubkey h) \<or>
     (k = 26 \<and> is_encrypted_channel h) \<or> (27 \<le> k \<and> k < 32 \<and> bit (proto_cmd h) (k - 27))"
  unfolding pack_word_flags bit_or_iff bit_flag [of 24, simplified] bit_flag [of 25, simplified]
    bit_flag [of 26, simplified]
  by (auto simp: bit_simps)

lemma wire_header_unat: "wire_header h \<longleftrightarrow> unat (cmd_len h) < 2 ^ 22 \<and> unat (proto_cmd h) < 2 ^ 5"
  by (simp add: wire_header_def word_less_nat_alt)

lemma unpack_word_fields:
  "is_signed (unpack_word w) = bit w 24"
  "is_encrypted_pubkey (unpack_word w) = bit w 25"
  "is_encrypted_channel (unpack_word w) = bit w 26"
  "bit (cmd_len (unpack_word w)) k \<longleftrightarrow> k < 22 \<and> bit w k"
  "bit (proto_cmd (unpack_word w)) k \<longleftrightarrow> k < 5 \<and> bit w (27 + k)"
  by (simp_all only: unpack_word_def frame_header.simps and_single_bit mask22 mask5)
    (auto simp: bit_simps)

lemma unpack_pack_word: "wire_header h \<Longrightarrow> unpack_word (pack_word h) = h"
proof -
  assume w: "wire_header h"
  then have hi: "\<And>k. bit (cmd_len h) k \<Longrightarrow> k < 22" "\<And>k. bit (proto_cmd h) k \<Longrightarrow> k < 5"
    unfolding wire_header_unat using high_bits_zero not_less by blast+
  have "cmd_len (unpack_word (pack_word h)) = cmd_len h"
    by (rule bit_word_eqI) (use hi in \<open>auto simp: unpack_word_fields bit_pack_word\<close>)
  moreover have "proto_cmd (unpack_word (pack_word h)) = proto_cmd h"
    by (rule bit_word_eqI) (use hi(2) in \<open>auto simp: unpack_word_fields bit_pack_word\<close>)
  ultimately show ?thesis
    by (simp add: unpack_word_fields bit_pack_word)
qed

lemma pack_Ok_iff: "pack h = Ok bs \<longleftrightarrow> wire_header h \<and> bs = le_bytes HEADER_LEN (pack_word h)"
  by (auto simp: pack_def wire_header_def MAX_CMD_LEN_def not_le push_bit_of_1)

lemma pack_length: "pack h = Ok bs \<Longrightarrow> length bs = HEADER_LEN"
  by (simp add: pack_Ok_iff)

lemma unpack_le_bytes [simp]: "unpack (le_bytes HEADER_LEN w) = unpack_word w"
  by (simp add: unpack_def HEADER_LEN_def le_word_le_bytes_full)

lemma unpack_wire_header: "wire_header (unpack_word w)"
  unfolding wire_header_unat unat_lt_iff by (auto simp: unpack_word_def mask22 mask5 bit_simps)

lemma pack_unpack_word: "pack_word (unpack_word w) = w AND NOT (push_bit 22 (mask 2))"
proof (rule bit_word_eqI)
  fix k :: nat assume k: "k < LENGTH(32)"
  have range: "k < 22 \<or> k = 22 \<or> k = 23 \<or> k = 24 \<or> k = 25 \<or> k = 26 \<or> 27 \<le> k" by arith
  have "bit (w AND NOT (push_bit 22 (mask 2))) k \<longleftrightarrow> bit w k \<and> k \<noteq> 22 \<and> k \<noteq> 23"
    using k by (auto simp only: bit_and_iff bit_not_iff bit_push_bit_iff bit_mask_iff possible_bit_word)
  then show "bit (pack_word (unpack_word w)) k = bit (w AND NOT (push_bit 22 (mask 2))) k"
    using k range by (elim disjE) (simp_all add: bit_pack_word unpack_word_fields, auto)
qed

section \<open>The header key chain\<close>

definition INITIAL_SENDING_HEADER_KEY :: u32 where "INITIAL_SENDING_HEADER_KEY = 0xDC871829"
definition MURMUR_SEED :: u32 where "MURMUR_SEED = 0xb10cfeed"
definition M3_C1 :: u32 where "M3_C1 = 0xcc9e2d51"
definition M3_C2 :: u32 where "M3_C2 = 0x1b873593"
definition M3_C3 :: u32 where "M3_C3 = 0xe6546b64"

definition datum_header_xor_feedback :: "u32 \<Rightarrow> u32" where
  "datum_header_xor_feedback i =
     (let k = i * M3_C1; k = word_rotl 15 k; k = k * M3_C2;
          h = MURMUR_SEED XOR k; h = word_rotl 13 h; h = h * 5 + M3_C3;
          h = h XOR 4;
          h = h XOR drop_bit 16 h; h = h * 0x85ebca6b;
          h = h XOR drop_bit 13 h; h = h * 0xc2b2ae35
      in h XOR drop_bit 16 h)"

record HeaderObfuscator =
  obf_key :: u32

definition initial_sender :: HeaderObfuscator where
  "initial_sender = \<lparr>obf_key = INITIAL_SENDING_HEADER_KEY\<rparr>"

definition for_sender :: "u32 \<Rightarrow> HeaderObfuscator" where
  "for_sender nk = \<lparr>obf_key = datum_header_xor_feedback nk\<rparr>"

definition for_receiver :: "u32 \<Rightarrow> HeaderObfuscator" where
  "for_receiver nk = \<lparr>obf_key = datum_header_xor_feedback (NOT nk)\<rparr>"

definition encrypt :: "HeaderObfuscator \<Rightarrow> u32 \<Rightarrow> u32 \<times> HeaderObfuscator" where
  "encrypt s plain = (plain XOR obf_key s, s\<lparr>obf_key := datum_header_xor_feedback (obf_key s)\<rparr>)"

definition decrypt :: "HeaderObfuscator \<Rightarrow> u32 \<Rightarrow> u32 \<times> HeaderObfuscator" where
  "decrypt s wire = (wire XOR obf_key s, s\<lparr>obf_key := datum_header_xor_feedback (obf_key s)\<rparr>)"

fun encrypt_all :: "HeaderObfuscator \<Rightarrow> u32 list \<Rightarrow> u32 list \<times> HeaderObfuscator" where
  "encrypt_all s [] = ([], s)"
| "encrypt_all s (m # ms) = (let (c, s1) = encrypt s m; (cs, s2) = encrypt_all s1 ms in (c # cs, s2))"

fun decrypt_all :: "HeaderObfuscator \<Rightarrow> u32 list \<Rightarrow> u32 list \<times> HeaderObfuscator" where
  "decrypt_all s [] = ([], s)"
| "decrypt_all s (c # cs) = (let (m, s1) = decrypt s c; (ms, s2) = decrypt_all s1 cs in (m # ms, s2))"

text \<open>Every step of the mix is a bijection on 32-bit words: the multipliers are odd,
  rotations and xor-shifts can be undone.  So two chains never merge.\<close>

lemma odd_mult_cancel:
  assumes "c * d = (1 :: u32)" "x * c = y * c"
  shows "x = y"
proof -
  have "x = x * (c * d)" using assms(1) by simp
  also have "\<dots> = y * c * d" using assms(2) by (simp add: mult.assoc [symmetric])
  also have "\<dots> = y" using assms(1) by (simp add: mult.assoc)
  finally show ?thesis .
qed

lemma xor_shift_inj:
  assumes n: "0 < n" and e: "x XOR drop_bit n x = y XOR drop_bit n (y :: 'a::len word)"
  shows "x = y"
proof -
  have eq: "bit x k \<noteq> bit x (n + k) \<longleftrightarrow> bit y k \<noteq> bit y (n + k)" for k
    using arg_cong [OF e, of "\<lambda>w. bit w k"] by (simp add: bit_xor_iff bit_drop_bit_eq)
  have "bit x k = bit y k" for k
  proof (induction "LENGTH('a) - k" arbitrary: k rule: less_induct)
    case less
    show ?case
    proof (cases "k < LENGTH('a)")
      case True
      then have "bit x (n + k) = bit y (n + k)" using n by (intro less) simp
      with eq [of k] show ?thesis by blast
    qed (use bit_imp_le_length in blast)
  qed
  then show ?thesis by (simp add: bit_eq_iff)
qed

lemma word_rotl_inj: "word_rotl n x = word_rotl n y \<Longrightarrow> x = y"
  by (metis word_rot_lr word_rot_rl)

lemma xor_cancel_right: "x XOR c = y XOR c \<Longrightarrow> x = (y :: 'a::len word)"
  by (metis xor.assoc xor.right_neutral xor_self_eq)

lemma feedback_inj: "datum_header_xor_feedback x = datum_header_xor_feedback y \<Longrightarrow> x = y"
proof -
  assume e: "datum_header_xor_feedback x = datum_header_xor_feedback y"
  define f where "f i = word_rotl 15 (i * M3_C1) * M3_C2" for i :: u32
  define f2 where "f2 k = word_rotl 13 (MURMUR_SEED XOR k) * 5 + M3_C3 XOR 4" for k :: u32
  define g where "g h = (h XOR drop_bit 16 h) * 0x85ebca6b" for h :: u32
  define g2 where "g2 h = (h XOR drop_bit 13 h) * 0xc2b2ae35" for h :: u32
  have d: "datum_header_xor_feedback i = g2 (g (f2 (f i))) XOR drop_bit 16 (g2 (g (f2 (f i))))" for i
    by (simp only: datum_header_xor_feedback_def Let_def f_def f2_def g_def g2_def)
  have f_inj: "f a = f b \<Longrightarrow> a = b" for a b
    unfolding f_def M3_C1_def M3_C2_def
    by (drule odd_mult_cancel [where d = "0x56ed309b", rotated], simp, drule word_rotl_inj,
        erule odd_mult_cancel [where d = "0xdee13bb1", rotated], simp)
  have f2_inj: "f2 a = f2 b \<Longrightarrow> a = b" for a b
    unfolding f2_def
    by (drule xor_cancel_right, drule add_right_imp_eq,
        drule odd_mult_cancel [where d = "0xcccccccd", rotated], simp, drule word_rotl_inj,
        simp add: xor.commute [of MURMUR_SEED], erule xor_cancel_right)
  have g_inj: "g a = g b \<Longrightarrow> a = b" for a b
    unfolding g_def
    by (drule odd_mult_cancel [where d = "0xa5cb9243", rotated], simp, erule xor_shift_inj [rotated], simp)
  have g2_inj: "g2 a = g2 b \<Longrightarrow> a = b" for a b
    unfolding g2_def
    by (drule odd_mult_cancel [where d = "0x7ed1b41d", rotated], simp, erule xor_shift_inj [rotated], simp)
  have "g2 (g (f2 (f x))) = g2 (g (f2 (f y)))" using e unfolding d by (rule xor_shift_inj [rotated]) simp
  then show "x = y" by (blast dest: g2_inj g_inj f2_inj f_inj)
qed

section \<open>The chain as a keyed stream\<close>

interpretation hdr: keyed_stream "\<lambda>k m :: u32. m XOR k" datum_header_xor_feedback
  by unfold_locales (simp add: xor.assoc)

lemma encrypt_all_stream:
  "encrypt_all \<lparr>obf_key = k\<rparr> ms = (fst (hdr.send_all k ms), \<lparr>obf_key = snd (hdr.send_all k ms)\<rparr>)"
  by (induction ms arbitrary: k) (simp_all add: encrypt_def split: prod.splits)

lemma decrypt_all_stream:
  "decrypt_all \<lparr>obf_key = k\<rparr> ms = (fst (hdr.send_all k ms), \<lparr>obf_key = snd (hdr.send_all k ms)\<rparr>)"
  by (induction ms arbitrary: k) (simp_all add: decrypt_def split: prod.splits)

lemma header_stream_in_step:
  "decrypt_all s (fst (encrypt_all s ms)) = (ms, snd (encrypt_all s ms))"
  by (cases s) (simp add: encrypt_all_stream decrypt_all_stream hdr.duplex hdr.send_all_key)

lemma clear_reserved:
  "\<not> bit w 22 \<Longrightarrow> \<not> bit w 23 \<Longrightarrow> w AND NOT (push_bit 22 (mask 2)) = (w :: u32)"
proof (rule bit_word_eqI)
  fix k assume c: "\<not> bit w 22" "\<not> bit w 23" and k: "k < LENGTH(32)"
  have "22 \<le> k \<and> k - 22 < 2 \<longleftrightarrow> k = 22 \<or> k = 23" by arith
  with c k show "bit (w AND NOT (push_bit 22 (mask 2))) k = bit w k"
    by (auto simp only: bit_and_iff bit_not_iff bit_push_bit_iff bit_mask_iff possible_bit_word)
qed

section \<open>Properties of the frame layer\<close>

text \<open>C10: The frame header codec is exact: packing a header succeeds with four bytes
  precisely when those bytes unpack to that header and leave the two reserved bits 22 and
  23 clear.  So every packed header is recovered, no two headers share a wire form, and the
  encoder reaches every four-byte word with clear reserved bits.\<close>

theorem frame_header_exact:
  "pack h = Ok bs \<longleftrightarrow> length bs = HEADER_LEN \<and> unpack bs = h
     \<and> \<not> bit (le_word bs :: u32) 22 \<and> \<not> bit (le_word bs :: u32) 23"
proof
  assume p: "pack h = Ok bs"
  then have bs: "bs = le_bytes HEADER_LEN (pack_word h)" and w: "wire_header h"
    by (simp_all add: pack_Ok_iff)
  have "(le_word bs :: u32) = pack_word h" by (simp add: bs HEADER_LEN_def le_word_le_bytes_full)
  then show "length bs = HEADER_LEN \<and> unpack bs = h
     \<and> \<not> bit (le_word bs :: u32) 22 \<and> \<not> bit (le_word bs :: u32) 23"
    using unpack_pack_word [OF w] by (simp add: bs bit_pack_word)
next
  assume a: "length bs = HEADER_LEN \<and> unpack bs = h
     \<and> \<not> bit (le_word bs :: u32) 22 \<and> \<not> bit (le_word bs :: u32) 23"
  let ?w = "le_word bs :: u32"
  have h: "h = unpack_word ?w" and bs: "bs = le_bytes HEADER_LEN ?w"
    using a le_bytes_le_word [of bs, where 'a = 32] by (simp_all add: unpack_def HEADER_LEN_def)
  have "pack_word h = ?w"
    unfolding h pack_unpack_word by (rule clear_reserved) (use a in simp_all)
  then show "pack h = Ok bs"
    using bs unpack_wire_header [of ?w] by (simp add: pack_Ok_iff h)
qed

text \<open>C11: The two ends of a header chain stay in step: decrypting the headers that a chain
  has encrypted returns the plaintext headers and leaves the receiver with the sender's next
  key, and two chains agree on their next key exactly when they started from the same key
  (the key mix is a bijection), so a desynchronised peer never falls back in step.\<close>

theorem header_chain_in_step:
  "decrypt_all s (fst (encrypt_all s ms)) = (ms, snd (encrypt_all s ms)) \<and>
   (obf_key (snd (encrypt_all s ms)) = obf_key (snd (decrypt_all s' ms)) \<longleftrightarrow> obf_key s = obf_key s')"
proof
  show "decrypt_all s (fst (encrypt_all s ms)) = (ms, snd (encrypt_all s ms))"
    by (rule header_stream_in_step)
  have inj: "inj (datum_header_xor_feedback ^^ n)" for n
    by (rule inj_fn) (auto intro: injI dest: feedback_inj)
  show "obf_key (snd (encrypt_all s ms)) = obf_key (snd (decrypt_all s' ms)) \<longleftrightarrow> obf_key s = obf_key s'"
    using inj_eq [OF inj, of "length ms" "obf_key s" "obf_key s'"]
    by (cases s; cases s') (simp add: encrypt_all_stream decrypt_all_stream hdr.send_all_key)
qed

end
