(* ===== verification/Handshake.thy ===== *)
theory Handshake
  imports Frame
begin

text \<open>
  The encrypted handshake: the crypto trait and its dryoc adapter of
  \<open>crates/datum-protocol/src/crypto.rs\<close> (the dryoc functions themselves are a parameter,
  the record \<open>dryoc\<close>), the client hello of \<open>handshake.rs\<close> and the in-tree pool of
  \<open>mock_pool.rs\<close> that answers it.  Random bytes are drawn from an explicit generator
  state.
\<close>

unbundle bit_operations_syntax

section \<open>The crypto trait\<close>

datatype CryptoError = InvalidKeyLength | Dryoc string | CryptoHex string

text \<open>The functions of the dryoc crate that the adapter calls.\<close>

record 'r dryoc =
  seal_to_vecbox :: "'r \<Rightarrow> bytes \<Rightarrow> bytes \<Rightarrow> (string + bytes) \<times> 'r"
  crypto_box_seal_open :: "bytes \<Rightarrow> bytes \<Rightarrow> bytes \<Rightarrow> string + bytes"
  crypto_secretbox_easy :: "bytes \<Rightarrow> bytes \<Rightarrow> bytes \<Rightarrow> string + bytes"
  crypto_secretbox_open_easy :: "bytes \<Rightarrow> bytes \<Rightarrow> bytes \<Rightarrow> string + bytes"
  crypto_box_beforenm :: "bytes \<Rightarrow> bytes \<Rightarrow> bytes"
  crypto_sign_keypair :: "'r \<Rightarrow> (bytes \<times> bytes) \<times> 'r"
  crypto_sign_detached :: "bytes \<Rightarrow> bytes \<Rightarrow> string + bytes"
  crypto_sign_verify_detached :: "bytes \<Rightarrow> bytes \<Rightarrow> bytes \<Rightarrow> string + unit"
  crypto_box_keypair :: "'r \<Rightarrow> (bytes \<times> bytes) \<times> 'r"
  randombytes_buf :: "'r \<Rightarrow> nat \<Rightarrow> bytes \<times> 'r"

record 'r DatumCrypto =
  box_seal :: "'r \<Rightarrow> bytes \<Rightarrow> bytes \<Rightarrow> (CryptoError + bytes) \<times> 'r"
  box_seal_open :: "bytes \<Rightarrow> bytes \<Rightarrow> bytes \<Rightarrow> CryptoError + bytes"
  box_easy_afternm :: "bytes \<Rightarrow> bytes \<Rightarrow> bytes \<Rightarrow> CryptoError + bytes"
  box_open_easy_afternm :: "bytes \<Rightarrow> bytes \<Rightarrow> bytes \<Rightarrow> CryptoError + bytes"
  box_beforenm :: "bytes \<Rightarrow> bytes \<Rightarrow> CryptoError + bytes"
  sign_keypair :: "'r \<Rightarrow> (bytes \<times> bytes) \<times> 'r"
  sign_detached :: "bytes \<Rightarrow> bytes \<Rightarrow> CryptoError + bytes"
  verify_detached :: "bytes \<Rightarrow> bytes \<Rightarrow> bytes \<Rightarrow> CryptoError + unit"
  box_keypair :: "'r \<Rightarrow> (bytes \<times> bytes) \<times> 'r"
  random_bytes :: "'r \<Rightarrow> nat \<Rightarrow> bytes \<times> 'r"

definition DryocCrypto :: "'r dryoc \<Rightarrow> 'r DatumCrypto" where
  "DryocCrypto d =
    \<lparr>box_seal = (\<lambda>r recipient plaintext.
       if length recipient \<noteq> 32 then (Err InvalidKeyLength, r)
       else apfst (map_err Dryoc) (seal_to_vecbox d r plaintext recipient)),
     box_seal_open = (\<lambda>ciphertext pub sec.
       if length ciphertext < 48 then Err InvalidKeyLength
       else map_err Dryoc (crypto_box_seal_open d ciphertext pub sec)),
     box_easy_afternm = (\<lambda>key nonce plaintext.
       map_err Dryoc (crypto_secretbox_easy d plaintext nonce key)),
     box_open_easy_afternm = (\<lambda>key nonce ciphertext.
       if length ciphertext < 16 then Err InvalidKeyLength
       else map_err Dryoc (crypto_secretbox_open_easy d ciphertext nonce key)),
     box_beforenm = (\<lambda>their_pub our_sec. Ok (crypto_box_beforenm d their_pub our_sec)),
     sign_keypair = crypto_sign_keypair d,
     sign_detached = (\<lambda>message secret. map_err Dryoc (crypto_sign_detached d message secret)),
     verify_detached = (\<lambda>message signature pub.
       map_err Dryoc (crypto_sign_verify_detached d signature message pub)),
     box_keypair = crypto_box_keypair d,
     random_bytes = randombytes_buf d\<rparr>"

text \<open>The documented behaviour of the dryoc functions: key and output sizes, and that
  opening undoes sealing.\<close>

definition dryoc_laws :: "'r dryoc \<Rightarrow> bool" where
  "dryoc_laws d \<longleftrightarrow>
     (\<forall>m n k. length n = 24 \<longrightarrow> length k = 32 \<longrightarrow>
        (\<exists>c. crypto_secretbox_easy d m n k = Ok c \<and> length c = length m + 16
           \<and> crypto_secretbox_open_easy d c n k = Ok m))
   \<and> (\<forall>p s. length (crypto_box_beforenm d p s) = 32)
   \<and> (\<forall>r pk sk r'. crypto_sign_keypair d r = ((pk, sk), r') \<longrightarrow>
        length pk = 32 \<and> length sk = 64
        \<and> (\<forall>m. \<exists>sig. crypto_sign_detached d m sk = Ok sig \<and> length sig = 64
               \<and> crypto_sign_verify_detached d sig m pk = Ok ()))
   \<and> (\<forall>r pk sk r'. crypto_box_keypair d r = ((pk, sk), r') \<longrightarrow>
        length pk = 32 \<and> length sk = 32
        \<and> (\<forall>q m. \<exists>c q'. seal_to_vecbox d q m pk = (Ok c, q') \<and> length c = length m + 48
               \<and> crypto_box_seal_open d c pk sk = Ok m))
   \<and> (\<forall>r n. length (fst (randombytes_buf d r n)) = n)"

section \<open>The client hello\<close>

definition HELLO_SENTINEL :: byte where "HELLO_SENTINEL = 0xFE"
definition HELLO_PROTO_CMD :: byte where "HELLO_PROTO_CMD = 0x01"
definition CRYPTO_BOX_SEAL_BYTES :: nat where "CRYPTO_BOX_SEAL_BYTES = 48"

datatype HandshakeError = HsCrypto CryptoError | HsFrame frame_error | BadPaddingLen nat
  | VersionHasNul | ClientIdHasNul | PayloadTooLarge nat

record ClientKeypairs =
  long_term_ed25519_pub :: bytes
  long_term_ed25519_sec :: bytes
  long_term_x25519_pub :: bytes
  long_term_x25519_sec :: bytes
  session_ed25519_pub :: bytes
  session_ed25519_sec :: bytes
  session_x25519_pub :: bytes
  session_x25519_sec :: bytes

definition generate_keypairs :: "'r DatumCrypto \<Rightarrow> 'r \<Rightarrow> ClientKeypairs \<times> 'r" where
  "generate_keypairs C r =
     (let ((lt_ed_pk, lt_ed_sk), r) = sign_keypair C r;
          ((s_ed_pk, s_ed_sk), r) = sign_keypair C r;
          ((lt_x_pk, lt_x_sk), r) = box_keypair C r;
          ((s_x_pk, s_x_sk), r) = box_keypair C r
      in (\<lparr>long_term_ed25519_pub = lt_ed_pk, long_term_ed25519_sec = lt_ed_sk,
           long_term_x25519_pub = lt_x_pk, long_term_x25519_sec = lt_x_sk,
           session_ed25519_pub = s_ed_pk, session_ed25519_sec = s_ed_sk,
           session_x25519_pub = s_x_pk, session_x25519_sec = s_x_sk\<rparr>, r))"

definition hello_unsigned :: "ClientKeypairs \<Rightarrow> bytes \<Rightarrow> bytes \<Rightarrow> u32 \<Rightarrow> bytes \<Rightarrow> bytes" where
  "hello_unsigned keys version client_id nk padding =
     long_term_ed25519_pub keys @ long_term_x25519_pub keys
     @ session_ed25519_pub keys @ session_x25519_pub keys
     @ version @ client_id @ [0] @ [HELLO_SENTINEL] @ le_bytes 4 nk @ padding"

definition build_hello_payload ::
  "'r DatumCrypto \<Rightarrow> ClientKeypairs \<Rightarrow> bytes \<Rightarrow> bytes \<Rightarrow> u32 \<Rightarrow> bytes \<Rightarrow> HandshakeError + bytes" where
  "build_hello_payload C keys version client_id nk padding =
     (if List.member version 0 then Err VersionHasNul
      else if List.member client_id 0 then Err ClientIdHasNul
      else if \<not> (1 \<le> length padding \<and> length padding \<le> 200) then Err (BadPaddingLen (length padding))
      else let buf = hello_unsigned keys version client_id nk padding
           in and_then (map_err HsCrypto (sign_detached C buf (long_term_ed25519_sec keys)))
                (\<lambda>signature. Ok (buf @ signature)))"

definition seal_hello :: "'r DatumCrypto \<Rightarrow> 'r \<Rightarrow> bytes \<Rightarrow> bytes \<Rightarrow> (HandshakeError + bytes) \<times> 'r" where
  "seal_hello C r plaintext pool_x25519_pub = apfst (map_err HsCrypto) (box_seal C r pool_x25519_pub plaintext)"

definition frame_for_hello :: "bytes \<Rightarrow> HandshakeError + bytes" where
  "frame_for_hello sealed =
     (if 2 ^ 32 \<le> length sealed then Err (PayloadTooLarge (length sealed))
      else let header = \<lparr>cmd_len = of_nat (length sealed), is_signed = True,
                 is_encrypted_pubkey = True, is_encrypted_channel = False,
                 proto_cmd = HELLO_PROTO_CMD\<rparr>
           in and_then (map_err HsFrame (pack header)) (\<lambda>raw_header.
                let (xored_word, _) = encrypt initial_sender (le_word raw_header)
                in Ok (le_bytes 4 xored_word @ sealed)))"

definition parse_received_header ::
  "HeaderObfuscator \<Rightarrow> bytes \<Rightarrow> (frame_error + frame_header) \<times> HeaderObfuscator" where
  "parse_received_header obf wire =
     (let (plain_word, obf') = decrypt obf (le_word wire)
      in (Ok (unpack (le_bytes 4 plain_word)), obf'))"

section \<open>The in-tree pool\<close>

record MockPool =
  mp_long_term_x25519_pub :: bytes
  mp_long_term_x25519_sec :: bytes
  mp_session_ed25519_pub :: bytes
  mp_session_x25519_pub :: bytes
  mp_motd :: bytes

definition spawn_pool :: "'r DatumCrypto \<Rightarrow> 'r \<Rightarrow> bytes \<Rightarrow> MockPool \<times> 'r" where
  "spawn_pool C r motd =
     (let ((lt_pub, lt_sec), r) = box_keypair C r;
          ((s_ed_pub, _), r) = sign_keypair C r;
          ((s_x_pub, _), r) = box_keypair C r
      in (\<lparr>mp_long_term_x25519_pub = lt_pub, mp_long_term_x25519_sec = lt_sec,
           mp_session_ed25519_pub = s_ed_pub, mp_session_x25519_pub = s_x_pub,
           mp_motd = motd\<rparr>, r))"

fun position :: "('a \<Rightarrow> bool) \<Rightarrow> 'a list \<Rightarrow> nat option" where
  "position P [] = None"
| "position P (x # xs) = (if P x then Some 0 else map_option Suc (position P xs))"

definition find_nk :: "bytes \<Rightarrow> nat \<Rightarrow> u32 option" where
  "find_nk plaintext text_start =
     (case position (\<lambda>b. b = 0) (drop text_start plaintext) of
        None \<Rightarrow> None
      | Some nul_offset \<Rightarrow>
          let after_text = text_start + nul_offset + 1 in
          if \<not> (after_text < length plaintext \<and> plaintext ! after_text = 0xFE) then None
          else let nk_offset = after_text + 1 in
            if length plaintext < nk_offset + 4 then None
            else Some (le_word (subslice nk_offset (nk_offset + 4) plaintext)))"

datatype pool_outcome = Closed | Panicked | Reply bytes

definition pool_response :: "MockPool \<Rightarrow> bytes \<Rightarrow> bytes" where
  "pool_response pool plaintext =
     subslice 0 32 plaintext @ subslice 32 64 plaintext @ subslice 64 96 plaintext
     @ subslice 96 128 plaintext
     @ mp_session_ed25519_pub pool @ mp_session_x25519_pub pool @ mp_motd pool @ [0]"

definition pool_send_response :: "'r DatumCrypto \<Rightarrow> 'r \<Rightarrow> bytes \<Rightarrow> u32 \<Rightarrow> bytes \<Rightarrow> pool_outcome" where
  "pool_send_response C r client_s_x_pub nk response =
     (case fst (box_seal C r client_s_x_pub response) of
        Inl _ \<Rightarrow> Panicked
      | Inr sealed_resp \<Rightarrow>
          (case pack \<lparr>cmd_len = of_nat (length sealed_resp), is_signed = False,
                      is_encrypted_pubkey = True, is_encrypted_channel = False, proto_cmd = 0x02\<rparr> of
             Inl _ \<Rightarrow> Panicked
           | Inr raw \<Rightarrow>
               let server_send_key = datum_header_xor_feedback (NOT nk);
                   xored = le_word raw XOR server_send_key
               in Reply (le_bytes 4 xored @ sealed_resp)))"

definition pool_handle_connection ::
  "'r DatumCrypto \<Rightarrow> 'r \<Rightarrow> MockPool \<Rightarrow> bytes \<Rightarrow> pool_outcome" where
  "pool_handle_connection C r pool incoming =
     (case read_exact 4 incoming of None \<Rightarrow> Closed | Some (header_buf, rest) \<Rightarrow>
      (case fst (parse_received_header initial_sender header_buf) of Inl _ \<Rightarrow> Panicked | Inr header \<Rightarrow>
       if cmd_len header = 0 \<or> 1048576 < cmd_len header then Closed
       else (case read_exact (unat (cmd_len header)) rest of None \<Rightarrow> Closed | Some (sealed, _) \<Rightarrow>
        (case box_seal_open C sealed (mp_long_term_x25519_pub pool) (mp_long_term_x25519_sec pool) of
           Inl _ \<Rightarrow> Closed
         | Inr plaintext \<Rightarrow>
           if length plaintext < 128 + 64 then Closed
           else let sig_offset = length plaintext - 64 in
             (case verify_detached C (take sig_offset plaintext) (drop sig_offset plaintext)
                     (subslice 0 32 plaintext) of
                Inl _ \<Rightarrow> Closed
              | Inr _ \<Rightarrow>
                (case find_nk plaintext 128 of
                   None \<Rightarrow> Closed
                 | Some nk \<Rightarrow>
                     pool_send_response C r (subslice 96 128 plaintext) nk
                       (pool_response pool plaintext)))))))"

lemma DryocCrypto_simps [simp]:
  "box_seal (DryocCrypto d) r pk m = (if length pk \<noteq> 32 then (Err InvalidKeyLength, r)
     else apfst (map_err Dryoc) (seal_to_vecbox d r m pk))"
  "box_seal_open (DryocCrypto d) c pk sk = (if length c < 48 then Err InvalidKeyLength
     else map_err Dryoc (crypto_box_seal_open d c pk sk))"
  "box_easy_afternm (DryocCrypto d) k n m = map_err Dryoc (crypto_secretbox_easy d m n k)"
  "box_open_easy_afternm (DryocCrypto d) k n c = (if length c < 16 then Err InvalidKeyLength
     else map_err Dryoc (crypto_secretbox_open_easy d c n k))"
  "box_beforenm (DryocCrypto d) p s = Ok (crypto_box_beforenm d p s)"
  "sign_keypair (DryocCrypto d) = crypto_sign_keypair d"
  "sign_detached (DryocCrypto d) m sk = map_err Dryoc (crypto_sign_detached d m sk)"
  "verify_detached (DryocCrypto d) m sig pk = map_err Dryoc (crypto_sign_verify_detached d sig m pk)"
  "box_keypair (DryocCrypto d) = crypto_box_keypair d"
  "random_bytes (DryocCrypto d) = randombytes_buf d"
  by (simp_all add: DryocCrypto_def)

section \<open>The hello as the pool reads it\<close>

lemma position_append: "\<forall>x \<in> set xs. \<not> P x \<Longrightarrow> P y \<Longrightarrow> position P (xs @ y # ys) = Some (length xs)"
  by (induction xs) auto

definition keys_ok :: "'r dryoc \<Rightarrow> ClientKeypairs \<Rightarrow> bool" where
  "keys_ok D k \<longleftrightarrow> length (long_term_ed25519_pub k) = 32 \<and> length (long_term_x25519_pub k) = 32
     \<and> length (session_ed25519_pub k) = 32 \<and> length (session_x25519_pub k) = 32
     \<and> (\<forall>m. \<exists>sig. crypto_sign_detached D m (long_term_ed25519_sec k) = Ok sig \<and> length sig = 64
          \<and> crypto_sign_verify_detached D sig m (long_term_ed25519_pub k) = Ok ())
     \<and> (\<forall>q m. \<exists>c q'. seal_to_vecbox D q m (session_x25519_pub k) = (Ok c, q') \<and> length c = length m + 48
          \<and> crypto_box_seal_open D c (session_x25519_pub k) (session_x25519_sec k) = Ok m)"

lemma dryoc_sign_keypair:
  assumes "dryoc_laws D" "crypto_sign_keypair D r = ((pk, sk), r')"
  shows "length pk = 32" "\<exists>sig. crypto_sign_detached D m sk = Ok sig \<and> length sig = 64
     \<and> crypto_sign_verify_detached D sig m pk = Ok ()"
  using assms unfolding dryoc_laws_def by blast+

lemma dryoc_box_keypair:
  assumes "dryoc_laws D" "crypto_box_keypair D r = ((pk, sk), r')"
  shows "length pk = 32" "\<exists>c q'. seal_to_vecbox D q m pk = (Ok c, q') \<and> length c = length m + 48
     \<and> crypto_box_seal_open D c pk sk = Ok m"
  using assms unfolding dryoc_laws_def by blast+

lemma dryoc_random: "dryoc_laws D \<Longrightarrow> randombytes_buf D r n = (b, r') \<Longrightarrow> length b = n"
  unfolding dryoc_laws_def by (metis fst_conv)

lemma generate_keypairs_ok:
  assumes "dryoc_laws D" "generate_keypairs (DryocCrypto D) r = (keys, r')"
  shows "keys_ok D keys"
  using assms(2) dryoc_sign_keypair [OF assms(1)] dryoc_box_keypair [OF assms(1)]
  by (auto simp: generate_keypairs_def keys_ok_def split: prod.splits)

lemma find_nk_hello:
  assumes "keys_ok D keys" "0 \<notin> set version" "0 \<notin> set client_id"
  shows "find_nk (hello_unsigned keys version client_id nk padding @ signature) 128 = Some nk"
proof -
  define P where "P = long_term_ed25519_pub keys @ long_term_x25519_pub keys
     @ session_ed25519_pub keys @ session_x25519_pub keys"
  define T where "T = version @ client_id"
  define rest where "rest = le_bytes 4 nk @ padding @ signature"
  let ?p = "hello_unsigned keys version client_id nk padding @ signature"
  have l: "length P = 128" using assms(1) by (simp add: keys_ok_def P_def)
  have T: "\<forall>x \<in> set T. x \<noteq> 0" using assms(2,3) by (auto simp: T_def)
  have p: "?p = P @ T @ 0 # 0xFE # rest"
    by (simp add: hello_unsigned_def HELLO_SENTINEL_def P_def T_def rest_def)
  have pos: "position (\<lambda>b. b = 0) (drop 128 ?p) = Some (length T)"
    unfolding p using l T position_append [of T "\<lambda>b. b = 0" 0] by simp
  have s: "?p ! (128 + length T + 1) = 0xFE"
    unfolding p using l by (simp add: nth_append)
  have n: "subslice (128 + length T + 1 + 1) (128 + length T + 1 + 1 + 4) ?p = le_bytes 4 nk"
    unfolding p using l by (simp add: subslice_def rest_def)
  have len: "length ?p = 128 + length T + 6 + length padding + length signature"
    unfolding p using l by (simp add: rest_def)
  show ?thesis
    unfolding find_nk_def pos using s n len by (simp add: Let_def le_word_le_bytes_full)
qed

definition hello_header :: "nat \<Rightarrow> frame_header" where
  "hello_header n = \<lparr>cmd_len = of_nat n, is_signed = True, is_encrypted_pubkey = True,
     is_encrypted_channel = False, proto_cmd = HELLO_PROTO_CMD\<rparr>"

definition reply_header :: "nat \<Rightarrow> frame_header" where
  "reply_header n = \<lparr>cmd_len = of_nat n, is_signed = False, is_encrypted_pubkey = True,
     is_encrypted_channel = False, proto_cmd = 0x02\<rparr>"

lemma short_header:
  assumes "n < 2 ^ 22"
  shows "unat (of_nat n :: u32) = n" "wire_header (hello_header n)" "wire_header (reply_header n)"
proof -
  show l: "unat (of_nat n :: u32) = n" using assms by (simp add: unat_of_nat)
  show "wire_header (hello_header n)" "wire_header (reply_header n)"
    using assms unfolding wire_header_unat
    by (simp_all add: hello_header_def reply_header_def HELLO_PROTO_CMD_def unat_of_nat)
qed

lemma pack_wire: "wire_header h \<Longrightarrow> pack h = Ok (le_bytes HEADER_LEN (pack_word h))"
  by (simp add: pack_Ok_iff)

lemma parse_masked_header:
  "wire_header h \<Longrightarrow> fst (parse_received_header obf (le_bytes 4 (pack_word h XOR obf_key obf))) = Ok h"
  using unpack_le_bytes [of "pack_word h"]
  by (simp add: parse_received_header_def decrypt_def le_word_le_bytes_full xor.assoc unpack_pack_word HEADER_LEN_def)

lemma frame_for_hello_Ok:
  "length sealed < 2 ^ 22 \<Longrightarrow>
     frame_for_hello sealed =
       Ok (le_bytes 4 (pack_word (hello_header (length sealed)) XOR obf_key initial_sender) @ sealed)"
  using pack_wire [OF short_header(2) [of "length sealed"]]
  by (simp add: frame_for_hello_def hello_header_def encrypt_def HEADER_LEN_def le_word_le_bytes_full)

lemma pool_accepts_hello:
  assumes laws: "dryoc_laws D" and k: "keys_ok D keys"
    and nul: "0 \<notin> set version" "0 \<notin> set client_id"
    and len: "length plaintext + 48 \<le> 1048576"
    and plain: "build_hello_payload (DryocCrypto D) keys version client_id nk padding = Ok plaintext"
    and sealed: "crypto_box_seal_open D sealed (mp_long_term_x25519_pub pool) (mp_long_term_x25519_sec pool)
      = Ok plaintext" "length sealed = length plaintext + 48"
    and framed: "frame_for_hello sealed = Ok framed"
  shows "pool_handle_connection (DryocCrypto D) q pool framed =
    pool_send_response (DryocCrypto D) q (session_x25519_pub keys) nk
      (long_term_ed25519_pub keys @ long_term_x25519_pub keys @ session_ed25519_pub keys
       @ session_x25519_pub keys @ mp_session_ed25519_pub pool @ mp_session_x25519_pub pool
       @ mp_motd pool @ [0])"
proof -
  let ?u = "hello_unsigned keys version client_id nk padding"
  obtain sig where s: "crypto_sign_detached D ?u (long_term_ed25519_sec keys) = Ok sig" "length sig = 64"
    "crypto_sign_verify_detached D sig ?u (long_term_ed25519_pub keys) = Ok ()"
    using k unfolding keys_ok_def by blast
  have sig: "plaintext = ?u @ sig" "length sig = 64"
    "crypto_sign_verify_detached D sig ?u (long_term_ed25519_pub keys) = Ok ()"
    using plain s by (simp_all add: build_hello_payload_def Let_def split: if_splits)
  define T where "T = version @ client_id @ [0] @ [HELLO_SENTINEL] @ le_bytes 4 nk @ padding @ sig"
  have kl: "length (long_term_ed25519_pub keys) = 32" "length (long_term_x25519_pub keys) = 32"
    "length (session_ed25519_pub keys) = 32" "length (session_x25519_pub keys) = 32"
    using k by (simp_all add: keys_ok_def)
  have p: "plaintext = long_term_ed25519_pub keys @ long_term_x25519_pub keys
      @ session_ed25519_pub keys @ session_x25519_pub keys @ T"
    by (simp add: sig hello_unsigned_def T_def)
  have parts: "subslice 0 32 plaintext = long_term_ed25519_pub keys"
    "subslice 32 64 plaintext = long_term_x25519_pub keys"
    "subslice 64 96 plaintext = session_ed25519_pub keys"
    "subslice 96 128 plaintext = session_x25519_pub keys"
    unfolding p using kl by (simp_all add: subslice_def)
  have so: "take (length plaintext - 64) plaintext = ?u" "drop (length plaintext - 64) plaintext = sig"
    unfolding sig(1) using sig(2) by simp_all
  have long: "192 \<le> length plaintext"
    unfolding p using kl sig(2) by (simp add: T_def)
  have nk: "find_nk plaintext 128 = Some nk" unfolding sig(1) by (rule find_nk_hello [OF k nul])
  have sl: "length sealed < 2 ^ 22" using len sealed(2) by simp
  note sh = short_header [OF sl]
  have fr: "framed = le_bytes 4 (pack_word (hello_header (length sealed)) XOR obf_key initial_sender) @ sealed"
    using framed frame_for_hello_Ok [OF sl] by simp
  have cl: "unat (cmd_len (hello_header (length sealed))) = length sealed"
    using sh(1) by (simp add: hello_header_def)
  have c0: "cmd_len (hello_header (length sealed)) \<noteq> 0" "\<not> 1048576 < cmd_len (hello_header (length sealed))"
    using cl len sealed(2) long by (auto simp: word_less_nat_alt)
  have ge48: "\<not> length sealed < 48" using sealed(2) by simp
  have fits: "read_exact (length sealed) sealed = Some (sealed, [])" by (simp add: read_exact_def)
  show ?thesis
    unfolding pool_handle_connection_def fr
    using c0 sealed(1) long ge48
    by (simp add: parse_masked_header [OF sh(2)] cl fits Let_def so sig(3) nk parts pool_response_def)
qed
lemma pool_send_response_Reply:
  assumes laws: "dryoc_laws D" and k: "keys_ok D keys" and len: "length response + 48 < 2 ^ 22"
  obtains sealed where
    "pool_send_response (DryocCrypto D) q (session_x25519_pub keys) nk response =
       Reply (le_bytes 4 (pack_word (reply_header (length sealed)) XOR obf_key (for_receiver nk)) @ sealed)"
    "length sealed = length response + 48"
    "crypto_box_seal_open D sealed (session_x25519_pub keys) (session_x25519_sec keys) = Ok response"
proof -
  obtain sealed q' where s: "seal_to_vecbox D q response (session_x25519_pub keys) = (Ok sealed, q')"
    "length sealed = length response + 48"
    "crypto_box_seal_open D sealed (session_x25519_pub keys) (session_x25519_sec keys) = Ok response"
    using k unfolding keys_ok_def by blast
  have "length (session_x25519_pub keys) = 32" using k by (simp add: keys_ok_def)
  moreover have "pack (reply_header (length sealed)) = Ok (le_bytes HEADER_LEN (pack_word (reply_header (length sealed))))"
    using len s(2) by (intro pack_wire short_header(3)) simp
  ultimately show ?thesis
    by (intro that [OF _ s(2,3)])
      (simp add: pool_send_response_def s(1) reply_header_def le_word_le_bytes_full HEADER_LEN_def
        for_receiver_def Let_def)
qed

end
