(* ===== verification/Client.thy ===== *)
theory Client
  imports Handshake Messages Utf8
begin

text \<open>
  The long-lived upstream client of \<open>crates/datum-protocol/src/client.rs\<close>: the
  handshake driver, the established connection with its two key chains and two nonces,
  sending and receiving frames, the receive loop, the command loop and the
  classification of received frames.  The network is explicit: what the peer sends is a
  byte stream, and each read or write has an outcome.
\<close>

unbundle bit_operations_syntax

section \<open>Errors, events, commands\<close>

datatype ClientError =
    Io
  | ClCrypto CryptoError
  | ClHandshake HandshakeError
  | ClFrame frame_error
  | ClMessage MessageError
  | ConnectTimeout nat
  | SendTimeout nat
  | RecvTimeout nat
  | BadPoolPubkey string
  | UndersizedResponse u32
  | OversizedResponse u32
  | HandshakeRejected ProtoCmd
  | EchoMismatch
  | UndersizedDecoded string nat nat

datatype UpstreamEvent =
    EvCoinbaser CoinbaserResponse
  | EvClientConfig ClientConfig
  | EvShareResponse ShareResponse
  | EvBlockNotify BlockNotify
  | JobValidationRequest bytes
  | UnknownFrame byte bytes

datatype UpstreamCommand =
    SubmitShare bytes
  | RequestCoinbaser u64 bytes
  | Raw byte bytes

section \<open>Session nonces\<close>

text \<open>The loop \<open>while j < 24\<close> of \<open>derive_session_nonces\<close> fills six words.\<close>

fun nonce_words :: "nat \<Rightarrow> u32 \<Rightarrow> u32 list" where
  "nonce_words 0 nk = []"
| "nonce_words (Suc n) nk =
     (let recv_word = datum_header_xor_feedback (nk - 42) in recv_word # nonce_words n (NOT recv_word))"

definition derive_session_nonces :: "u32 \<Rightarrow> bytes \<Rightarrow> bytes \<times> bytes" where
  "derive_session_nonces nk ed_pub =
     (let pub_word_at_7 = le_word [ed_pub ! 7, ed_pub ! 8, ed_pub ! 9, ed_pub ! 10];
          ws = nonce_words 6 ((nk - 42) XOR pub_word_at_7);
          receiver = concat (map (le_bytes 4) ws);
          sender = concat (map (\<lambda>w. le_bytes 4 (w XOR 0x57575757)) ws)
      in (sender, receiver))"

function increment_from :: "nat \<Rightarrow> bytes \<Rightarrow> bytes" where
  "increment_from i n =
     (if i < 24
      then let word = (le_word (subslice i (i + 4) n) :: u32) + 1;
               n' = take i n @ le_bytes 4 word @ drop (i + 4) n
           in if word \<noteq> 0 then n' else increment_from (i + 4) n'
      else n)"
  by pat_completeness auto
termination by (relation "measure (\<lambda>(i, n). 24 - i)") auto

declare increment_from.simps [simp del]

definition increment_nonce :: "bytes \<Rightarrow> bytes" where
  "increment_nonce n = increment_from 0 n"

section \<open>Classification of received frames\<close>

definition decode_event :: "frame_header \<Rightarrow> bytes \<Rightarrow> ClientError + UpstreamEvent" where
  "decode_event header body =
     (if proto_cmd header = 0xF9 AND 0x1F \<and> \<not> is_signed header \<and> \<not> is_encrypted_pubkey header
      then Ok (EvBlockNotify (block_notify_decode body))
      else if from_bits (proto_cmd header) = Coinbaser then
        (if body = [] then Err (UndersizedDecoded ''coinbaser/share-mux frame'' 0 1)
         else if body ! 0 = COINBASER_RESPONSE_OPCODE then
           map_err ClMessage (and_then (coinbaser_response_decode (drop 1 body)) (\<lambda>r. Ok (EvCoinbaser r)))
         else if body ! 0 = JOB_VALIDATION_OPCODE then Ok (JobValidationRequest (drop 1 body))
         else Ok (UnknownFrame (proto_cmd header) body))
      else
        (if body \<noteq> [] \<and> body ! 0 = SHARE_RESPONSE_OPCODE then
           map_err ClMessage (and_then (share_response_decode (drop 1 body)) (\<lambda>r. Ok (EvShareResponse r)))
         else if body \<noteq> [] \<and> body ! 0 = CLIENT_CONFIG_OPCODE then
           map_err ClMessage (and_then (client_config_decode (drop 1 body)) (\<lambda>c. Ok (EvClientConfig c)))
         else if body \<noteq> [] \<and> body ! 0 = COINBASER_RESPONSE_OPCODE then
           map_err ClMessage (and_then (coinbaser_response_decode (drop 1 body)) (\<lambda>r. Ok (EvCoinbaser r)))
         else if body \<noteq> [] \<and> body ! 0 = JOB_VALIDATION_OPCODE then Ok (JobValidationRequest (drop 1 body))
         else Ok (UnknownFrame (proto_cmd header) body)))"

section \<open>The established connection\<close>

record Connected =
  sender_obf :: HeaderObfuscator
  receiver_obf :: HeaderObfuscator
  precomp_key :: bytes
  sender_nonce :: bytes
  receiver_nonce :: bytes
  timeout_dur :: nat
  pool_session_ed25519 :: bytes
  pool_session_x25519 :: bytes
  motd :: bytes

datatype io_outcome = Done | TimedOut | IoFailed

definition write_result :: "nat \<Rightarrow> io_outcome \<Rightarrow> ClientError + unit" where
  "write_result t out = (case out of Done \<Rightarrow> Ok () | TimedOut \<Rightarrow> Err (SendTimeout t) | IoFailed \<Rightarrow> Err Io)"

text \<open>\<open>send_frame\<close> with the outcome of its two writes.  The result is the bytes that
  reached the wire and the connection after the call; on a failed write the header chain
  has already advanced.\<close>

definition send_frame ::
  "'r DatumCrypto \<Rightarrow> io_outcome \<Rightarrow> io_outcome \<Rightarrow> Connected \<Rightarrow> byte \<Rightarrow> bytes
     \<Rightarrow> (ClientError + bytes) \<times> Connected" where
  "send_frame C out1 out2 c cmd plaintext =
     (case box_easy_afternm C (precomp_key c) (sender_nonce c) plaintext of
        Inl e \<Rightarrow> (Err (ClCrypto e), c)
      | Inr ciphertext \<Rightarrow>
          (case pack \<lparr>cmd_len = of_nat (length ciphertext), is_signed = False,
                      is_encrypted_pubkey = False, is_encrypted_channel = True, proto_cmd = cmd\<rparr> of
             Inl e \<Rightarrow> (Err (ClFrame e), c)
           | Inr raw \<Rightarrow>
               let (xored, obf) = encrypt (sender_obf c) (le_word raw);
                   c1 = c\<lparr>sender_obf := obf\<rparr>
               in case write_result (timeout_dur c) out1 of
                    Inl e \<Rightarrow> (Err e, c1)
                  | Inr _ \<Rightarrow>
                      (case write_result (timeout_dur c) out2 of
                         Inl e \<Rightarrow> (Err e, c1)
                       | Inr _ \<Rightarrow> (Ok (le_bytes 4 xored @ ciphertext),
                                  c1\<lparr>sender_nonce := increment_nonce (sender_nonce c)\<rparr>))))"

definition strip_signature :: "frame_header \<Rightarrow> bytes \<Rightarrow> bytes" where
  "strip_signature h body = (if is_signed h \<and> 64 \<le> length body then take (length body - 64) body else body)"

definition open_body ::
  "'r DatumCrypto \<Rightarrow> Connected \<Rightarrow> frame_header \<Rightarrow> bytes \<Rightarrow> (ClientError + bytes) \<times> Connected" where
  "open_body C c h raw =
     (if is_encrypted_pubkey h \<and> \<not> is_encrypted_channel h then (Ok raw, c)
      else if \<not> is_encrypted_pubkey h \<and> is_encrypted_channel h then
        (case box_open_easy_afternm C (precomp_key c) (receiver_nonce c) raw of
           Inl e \<Rightarrow> (Err (ClCrypto e), c)
         | Inr pt \<Rightarrow> (Ok pt, c\<lparr>receiver_nonce := increment_nonce (receiver_nonce c)\<rparr>))
      else (Ok raw, c))"

definition recv_frame ::
  "'r DatumCrypto \<Rightarrow> Connected \<Rightarrow> bytes \<Rightarrow> (ClientError + frame_header \<times> bytes) \<times> Connected \<times> bytes" where
  "recv_frame C c stream =
     (case read_exact 4 stream of
        None \<Rightarrow> (Err Io, c, [])
      | Some (header_buf, rest) \<Rightarrow>
          let (plain_word, obf) = decrypt (receiver_obf c) (le_word header_buf);
              c1 = c\<lparr>receiver_obf := obf\<rparr>;
              header = unpack (le_bytes 4 plain_word)
          in if 16 * 1024 * 1024 < cmd_len header then (Err (OversizedResponse (cmd_len header)), c1, rest)
             else case read_exact (unat (cmd_len header)) rest of
                    None \<Rightarrow> (Err Io, c1, [])
                  | Some (raw, rest2) \<Rightarrow>
                      (case open_body C c1 header raw of
                         (Inl e, c2) \<Rightarrow> (Err e, c2, rest2)
                       | (Inr body, c2) \<Rightarrow> (Ok (header, strip_signature header body), c2, rest2)))"

lemma recv_frame_consumes:
  "recv_frame C c stream = (Ok r, c', rest) \<Longrightarrow> length rest < length stream"
  by (auto simp: recv_frame_def read_exact_def Let_def split: option.splits prod.splits if_splits sum.splits)

text \<open>The receive loop of \<open>run\<close>: the events forwarded until an error ends it.  A stream
  of the peer is finite, and each frame takes at least its header.\<close>

function recv_loop ::
  "'r DatumCrypto \<Rightarrow> Connected \<Rightarrow> bytes \<Rightarrow> UpstreamEvent list \<times> ClientError \<times> Connected" where
  "recv_loop C c stream =
     (case recv_frame C c stream of
        (Inl e, c', rest) \<Rightarrow> ([], e, c')
      | (Inr (header, body), c', rest) \<Rightarrow>
          (case decode_event header body of
             Inl e \<Rightarrow> ([], e, c')
           | Inr ev \<Rightarrow> let (evs, e, c'') = recv_loop C c' rest in (ev # evs, e, c'')))"
  by pat_completeness auto
termination
  by (relation "measure (\<lambda>(C, c, stream). length stream)") (auto dest: recv_frame_consumes [OF sym])

declare recv_loop.simps [simp del]

section \<open>The command loop\<close>

definition coinbaser_request_body :: "'r DatumCrypto \<Rightarrow> 'r \<Rightarrow> u64 \<Rightarrow> bytes \<Rightarrow> bytes \<times> 'r" where
  "coinbaser_request_body C r value prevhash_bin =
     (let (pb, r) = random_bytes C r 1;
          pad_len = 1 + unat (pb ! 0) mod 80;
          (pad, r) = random_bytes C r pad_len
      in ([0x10] @ le_bytes 8 value @ prevhash_bin @ [0xFE] @ pad, r))"

fun command_frame :: "'r DatumCrypto \<Rightarrow> 'r \<Rightarrow> UpstreamCommand \<Rightarrow> (byte \<times> bytes) \<times> 'r" where
  "command_frame C r (SubmitShare body) = ((5, body), r)"
| "command_frame C r (RequestCoinbaser value prevhash_bin) =
     (let (body, r') = coinbaser_request_body C r value prevhash_bin in ((5, body), r'))"
| "command_frame C r (Raw cmd body) = ((cmd, body), r)"

fun run_commands ::
  "'r DatumCrypto \<Rightarrow> 'r \<Rightarrow> Connected \<Rightarrow> UpstreamCommand list \<Rightarrow> (ClientError + unit) \<times> bytes \<times> Connected" where
  "run_commands C r c [] = (Ok (), [], c)"
| "run_commands C r c (cmd # cmds) =
     (let ((op, body), r') = command_frame C r cmd in
      case send_frame C Done Done c op body of
        (Inl e, c') \<Rightarrow> (Err e, [], c')
      | (Inr wire, c') \<Rightarrow>
          let (res, wire2, c'') = run_commands C r' c' cmds in (res, wire @ wire2, c''))"

section \<open>The handshake\<close>

text \<open>The network as \<open>connect\<close> sees it: the outcome of the TCP connect and of the
  write, the bytes the peer answers to the hello, and whether the peer then stays
  silent (a timeout) or closes (an i/o error).\<close>

record net_env =
  tcp_connect :: io_outcome
  tx :: io_outcome
  peer :: "bytes \<Rightarrow> bytes"
  stalls :: bool

definition read_result :: "net_env \<Rightarrow> nat \<Rightarrow> 'a option \<Rightarrow> ClientError + 'a" where
  "read_result env t r = (case r of Some x \<Rightarrow> Ok x
     | None \<Rightarrow> if stalls env then Err (RecvTimeout t) else Err Io)"

definition hello_exchange ::
  "'r DatumCrypto \<Rightarrow> net_env \<Rightarrow> bytes \<Rightarrow> bytes \<Rightarrow> bytes \<Rightarrow> nat \<Rightarrow> 'r
     \<Rightarrow> ClientError + ClientKeypairs \<times> u32 \<times> bytes" where
  "hello_exchange C env pool_pub version client_id t r =
     (let (keys, r) = generate_keypairs C r;
          (nkb, r) = random_bytes C r 4;
          nk = le_word nkb;
          (pb, r) = random_bytes C r 1;
          padding_len = 1 + unat (pb ! 0) mod 200;
          (padding, r) = random_bytes C r padding_len
      in and_then (map_err ClHandshake (build_hello_payload C keys version client_id nk padding)) (\<lambda>plaintext.
         and_then (map_err ClHandshake (fst (seal_hello C r plaintext pool_pub))) (\<lambda>sealed.
         and_then (map_err ClHandshake (frame_for_hello sealed)) (\<lambda>framed.
         case tcp_connect env of
           TimedOut \<Rightarrow> Err (ConnectTimeout t)
         | IoFailed \<Rightarrow> Err Io
         | Done \<Rightarrow> and_then (write_result t (tx env)) (\<lambda>_. Ok (keys, nk, peer env framed))))))"

definition echo_matches :: "ClientKeypairs \<Rightarrow> bytes \<Rightarrow> bool" where
  "echo_matches keys resp \<longleftrightarrow>
     subslice 0 32 resp = long_term_ed25519_pub keys \<and> subslice 32 64 resp = long_term_x25519_pub keys \<and>
     subslice 64 96 resp = session_ed25519_pub keys \<and> subslice 96 128 resp = session_x25519_pub keys"

definition establish ::
  "'r DatumCrypto \<Rightarrow> ClientKeypairs \<Rightarrow> u32 \<Rightarrow> nat \<Rightarrow> HeaderObfuscator \<Rightarrow> bytes \<Rightarrow> ClientError + Connected" where
  "establish C keys nk t recv_obf resp =
     (if length resp < 192 then Err (UndersizedDecoded ''handshake_response'' (length resp) 192)
      else if \<not> echo_matches keys resp then Err EchoMismatch
      else let ed = subslice 128 160 resp; x = subslice 160 192 resp;
               motd_bytes = drop 192 resp;
               motd_end = (case position (\<lambda>b. b = 0) motd_bytes of Some i \<Rightarrow> i | None \<Rightarrow> length motd_bytes)
           in and_then (map_err ClCrypto (box_beforenm C x (session_x25519_sec keys))) (\<lambda>precomp.
              let (snd_nonce, rcv_nonce) = derive_session_nonces nk (session_ed25519_pub keys)
              in Ok \<lparr>sender_obf = for_sender nk, receiver_obf = recv_obf, precomp_key = precomp,
                     sender_nonce = snd_nonce, receiver_nonce = rcv_nonce, timeout_dur = t,
                     pool_session_ed25519 = ed, pool_session_x25519 = x, motd = from_utf8_lossy (take motd_end motd_bytes)\<rparr>))"

definition connect ::
  "'r DatumCrypto \<Rightarrow> net_env \<Rightarrow> bytes \<Rightarrow> bytes \<Rightarrow> bytes \<Rightarrow> nat \<Rightarrow> 'r \<Rightarrow> ClientError + Connected \<times> bytes" where
  "connect C env pool_pub version client_id t r =
     and_then (hello_exchange C env pool_pub version client_id t r) (\<lambda>(keys, nk, stream).
     and_then (read_result env t (read_exact 4 stream)) (\<lambda>(header_buf, rest).
     let (hdr, recv_obf) = parse_received_header (for_receiver nk) header_buf in
     and_then (map_err ClFrame hdr) (\<lambda>h.
     if 4 * 1024 * 1024 < cmd_len h then Err (OversizedResponse (cmd_len h))
     else if unat (cmd_len h) < CRYPTO_BOX_SEAL_BYTES then Err (UndersizedResponse (cmd_len h))
     else if from_bits (proto_cmd h) \<noteq> Pong then Err (HandshakeRejected (from_bits (proto_cmd h)))
     else and_then (read_result env t (read_exact (unat (cmd_len h)) rest)) (\<lambda>(sealed_resp, rest2).
     and_then (map_err ClCrypto (box_seal_open C sealed_resp (session_x25519_pub keys) (session_x25519_sec keys)))
       (\<lambda>resp. and_then (establish C keys nk t recv_obf resp) (\<lambda>c. Ok (c, rest2)))))))"

lemma le_nat_word_step:
  assumes n: "length n = 24" and i: "i + 4 \<le> 24"
  shows "le_nat (drop i n) = unat (le_word (subslice i (i + 4) n) :: u32) + 2 ^ 32 * le_nat (drop (i + 4) n)"
proof -
  have "drop i n = subslice i (i + 4) n @ drop (i + 4) n"
    using n i by (intro drop_subslice) simp_all
  then have "le_nat (drop i n) = le_nat (subslice i (i + 4) n) + 256 ^ length (subslice i (i + 4) n) * le_nat (drop (i + 4) n)"
    by (metis le_nat_append)
  then show ?thesis using n i by (simp add: unat_le_word)
qed

lemma increment_from_value:
  "\<lbrakk>length n = 24; i \<le> 24; 4 dvd i\<rbrakk> \<Longrightarrow>
     length (increment_from i n) = 24 \<and> take i (increment_from i n) = take i n \<and>
     le_nat (drop i (increment_from i n)) = (le_nat (drop i n) + 1) mod 256 ^ (24 - i)"
proof (induction i n rule: increment_from.induct)
  case (1 i n)
  show ?case
  proof (cases "i < 24")
    case False
    then have "i = 24" using "1.prems" by simp
    then show ?thesis using "1.prems" by (simp add: increment_from.simps)
  next
    case True
    then have i: "i + 4 \<le> 24" using "1.prems" by (auto elim!: dvdE)
    let ?v = "le_word (subslice i (i + 4) n) :: u32"
    let ?n' = "take i n @ le_bytes 4 (?v + 1) @ drop (i + 4) n"
    let ?r = "le_nat (drop (i + 4) n)"
    have len: "length ?n' = 24" using i "1.prems" by simp
    have ti: "take i ?n' = take i n" using i "1.prems" by simp
    have d4: "drop (i + 4) ?n' = drop (i + 4) n" using i "1.prems" by simp
    have val: "le_nat (drop i n) = unat ?v + 2 ^ 32 * ?r"
      using i "1.prems" by (intro le_nat_word_step) simp_all
    have di: "drop i ?n' = le_bytes 4 (?v + 1) @ drop (i + 4) n" using i "1.prems" by simp
    have pw: "(256 :: nat) ^ (24 - i) = 2 ^ 32 * 256 ^ (24 - (i + 4))"
    proof -
      have "24 - i = 4 + (24 - (i + 4))" using i by simp
      then have "(256 :: nat) ^ (24 - i) = 256 ^ 4 * 256 ^ (24 - (i + 4))" by (metis power_add)
      then show ?thesis by simp
    qed
    have rb: "?r < 256 ^ (24 - (i + 4))" using le_nat_bound [of "drop (i + 4) n"] i "1.prems" by simp
    have lew: "le_nat (le_bytes 4 (?v + 1)) = unat (?v + 1)"
      by (simp add: le_nat_le_bytes) (use unsigned_less [of "?v + 1", where 'a = nat] in simp)
    show ?thesis
    proof (cases "?v + 1 = 0")
      case False
      then have inc: "increment_from i n = ?n'" using True by (simp add: increment_from.simps Let_def)
      have v1: "unat (?v + 1) = unat ?v + 1" using False unatSuc [of ?v] by (simp add: add.commute)
      then have "unat ?v + 1 < 2 ^ 32" using unsigned_less [of "?v + 1", where 'a = nat] by simp
      moreover have "2 ^ 32 * (?r + 1) \<le> 2 ^ 32 * 256 ^ (24 - (i + 4))" using rb by (intro mult_le_mono2) simp
      ultimately have lt: "le_nat (drop i n) + 1 < 256 ^ (24 - i)" unfolding val pw by simp
      have "le_nat (drop i ?n') = le_nat (drop i n) + 1"
        unfolding di le_nat_append lew v1 val by simp
      with lt have "le_nat (drop i ?n') = (le_nat (drop i n) + 1) mod 256 ^ (24 - i)"
        by (simp only: mod_less)
      with len ti inc show ?thesis by (simp only:)
    next
      case zero: True
      then have inc: "increment_from i n = increment_from (i + 4) ?n'"
        using True by (subst increment_from.simps) (simp add: Let_def)
      define R where "R = increment_from (i + 4) ?n'"
      have IH: "length R = 24" "take (i + 4) R = take (i + 4) ?n'"
        "le_nat (drop (i + 4) R) = (?r + 1) mod 256 ^ (24 - (i + 4))"
        using "1.IH" [OF True refl refl] zero len i "1.prems"(3) unfolding R_def d4 by auto
      have tt: "take i (take (i + 4) X) = take i X" for X :: bytes by (simp add: min_def)
      have tR: "take i R = take i n" using tt [of R] tt [of ?n'] unfolding IH(2) ti by metis
      have mid: "drop i (take (i + 4) ?n') = le_bytes 4 (?v + 1)"
      proof -
        have l: "length (take i n) = i" "n \<noteq> []" using i "1.prems" by auto
        have "take (i + 4) ?n' = take i n @ le_bytes 4 (?v + 1)"
          unfolding take_append l by (simp add: min_def)
        then show ?thesis using l by simp
      qed
      have "subslice i (i + 4) R = drop i (take (i + 4) R)" by (simp add: subslice_def drop_take)
      also have "\<dots> = le_bytes 4 (?v + 1)" unfolding IH(2) by (rule mid)
      finally have "drop i R = le_bytes 4 (?v + 1) @ drop (i + 4) R"
        using drop_subslice [of i "i + 4" R] IH(1) i by simp
      then have "le_nat (drop i R) = 2 ^ 32 * ((?r + 1) mod 256 ^ (24 - (i + 4)))"
        using lew zero by (simp add: le_nat_append IH(3))
      also have "\<dots> = (2 ^ 32 * (?r + 1)) mod 256 ^ (24 - i)" unfolding pw by (rule mult_mod_right)
      also have "2 ^ 32 * (?r + 1) = le_nat (drop i n) + 1"
      proof -
        have "?v = - 1" using zero by (simp only: eq_neg_iff_add_eq_0)
        also have "(- 1 :: u32) = 0xFFFFFFFF" by simp
        finally have "unat ?v = 2 ^ 32 - 1" by simp
        then show ?thesis unfolding val by simp
      qed
      finally show ?thesis using inc R_def IH(1) tR by metis
    qed
  qed
qed

lemma increment_nonce_length [simp]: "length n = 24 \<Longrightarrow> length (increment_nonce n) = 24"
  using increment_from_value [of n 0] by (simp add: increment_nonce_def)

lemma increment_nonce_counts:
  "length n = 24 \<Longrightarrow> le_nat (increment_nonce n) = (le_nat n + 1) mod 2 ^ 192"
  using increment_from_value [of n 0] by (simp add: increment_nonce_def)

section \<open>Two ends of one session\<close>

definition data_header :: "byte \<Rightarrow> bytes \<Rightarrow> frame_header" where
  "data_header op body = \<lparr>cmd_len = of_nat (length body + 16), is_signed = False,
     is_encrypted_pubkey = False, is_encrypted_channel = True, proto_cmd = op\<rparr>"

definition frame_fits :: "byte \<times> bytes \<Rightarrow> bool" where
  "frame_fits f \<longleftrightarrow> fst f < 32 \<and> length (snd f) + 16 < 2 ^ 22"

definition session_ok :: "Connected \<Rightarrow> bool" where
  "session_ok c \<longleftrightarrow> length (precomp_key c) = 32 \<and> length (sender_nonce c) = 24 \<and> length (receiver_nonce c) = 24"

definition mirrored :: "Connected \<Rightarrow> Connected \<Rightarrow> bool" where
  "mirrored c d \<longleftrightarrow> receiver_obf d = sender_obf c \<and> receiver_nonce d = sender_nonce c
     \<and> precomp_key d = precomp_key c"

lemma data_header_wire: "frame_fits (op, body) \<Longrightarrow> wire_header (data_header op body)"
  and data_header_len: "frame_fits (op, body) \<Longrightarrow> unat (cmd_len (data_header op body)) = length body + 16"
proof -
  assume f: "frame_fits (op, body)"
  show l: "unat (cmd_len (data_header op body)) = length body + 16"
    using f unfolding data_header_def frame_fits_def
    by (simp only: frame_header.simps unat_of_nat fst_conv snd_conv) simp
  then show "wire_header (data_header op body)"
    using f unfolding wire_header_unat frame_fits_def
    by (simp add: data_header_def word_less_nat_alt)
qed

lemma send_frame_seals:
  assumes laws: "dryoc_laws D" and ok: "session_ok c" and fits: "frame_fits (op, body)"
  obtains ct where
    "crypto_secretbox_easy D body (sender_nonce c) (precomp_key c) = Ok ct"
    "crypto_secretbox_open_easy D ct (sender_nonce c) (precomp_key c) = Ok body"
    "length ct = length body + 16"
    "send_frame (DryocCrypto D) Done Done c op body =
       (Ok (le_bytes 4 (pack_word (data_header op body) XOR obf_key (sender_obf c)) @ ct),
        c\<lparr>sender_obf := snd (encrypt (sender_obf c) 0), sender_nonce := increment_nonce (sender_nonce c)\<rparr>)"
proof -
  obtain ct where ct: "crypto_secretbox_easy D body (sender_nonce c) (precomp_key c) = Ok ct"
    "length ct = length body + 16" "crypto_secretbox_open_easy D ct (sender_nonce c) (precomp_key c) = Ok body"
    using laws ok unfolding dryoc_laws_def session_ok_def by blast
  have pk: "pack (data_header op body) = Ok (le_bytes HEADER_LEN (pack_word (data_header op body)))"
    using data_header_wire [OF fits] by (simp add: pack_Ok_iff)
  show ?thesis
    by (rule that [OF ct(1,3,2)])
      (use pk in \<open>simp add: send_frame_def ct(1,2) data_header_def write_result_def
        HEADER_LEN_def le_word_le_bytes_full encrypt_def Let_def\<close>)
qed

lemma send_frame_Ok:
  assumes laws: "dryoc_laws D" and ok: "session_ok c" and fits: "frame_fits (op, body)"
  obtains ct where
    "crypto_secretbox_open_easy D ct (sender_nonce c) (precomp_key c) = Ok body"
    "length ct = length body + 16"
    "send_frame (DryocCrypto D) Done Done c op body =
       (Ok (le_bytes 4 (pack_word (data_header op body) XOR obf_key (sender_obf c)) @ ct),
        c\<lparr>sender_obf := snd (encrypt (sender_obf c) 0), sender_nonce := increment_nonce (sender_nonce c)\<rparr>)"
  using send_frame_seals [OF assms] by metis

lemma recv_of_sent:
  assumes laws: "dryoc_laws D" and ok: "session_ok c" and m: "mirrored c d"
    and fits: "frame_fits (op, body)"
    and sent: "send_frame (DryocCrypto D) Done Done c op body = (Ok wire, c')"
  shows "\<exists>d'. mirrored c' d' \<and>
    (\<forall>rest. recv_frame (DryocCrypto D) d (wire @ rest) = (Ok (data_header op body, body), d', rest))"
proof -
  obtain ct where ct: "crypto_secretbox_open_easy D ct (sender_nonce c) (precomp_key c) = Ok body"
    "length ct = length body + 16"
    "send_frame (DryocCrypto D) Done Done c op body =
       (Ok (le_bytes 4 (pack_word (data_header op body) XOR obf_key (sender_obf c)) @ ct),
        c\<lparr>sender_obf := snd (encrypt (sender_obf c) 0), sender_nonce := increment_nonce (sender_nonce c)\<rparr>)"
    using send_frame_Ok [OF laws ok fits] .
  let ?h = "data_header op body"
  have h: "unpack (le_bytes 4 (pack_word ?h)) = ?h"
    using unpack_pack_word [OF data_header_wire [OF fits]] by (simp flip: HEADER_LEN_def)
  have l: "unat (cmd_len ?h) = length ct" using data_header_len [OF fits] ct(2) by simp
  have cap: "\<not> 16 * 1024 * 1024 < cmd_len ?h"
    using data_header_len [OF fits] fits by (simp add: word_less_nat_alt frame_fits_def)
  have dec: "decrypt (receiver_obf d) (pack_word ?h XOR obf_key (sender_obf c))
      = (pack_word ?h, snd (encrypt (sender_obf c) 0))"
    using m by (simp add: decrypt_def encrypt_def mirrored_def xor.assoc)
  let ?d = "d\<lparr>receiver_obf := snd (encrypt (sender_obf c) 0), receiver_nonce := increment_nonce (sender_nonce c)\<rparr>"
  have w: "wire = le_bytes 4 (pack_word ?h XOR obf_key (sender_obf c)) @ ct"
    and c': "c' = c\<lparr>sender_obf := snd (encrypt (sender_obf c) 0), sender_nonce := increment_nonce (sender_nonce c)\<rparr>"
    using sent ct(3) by simp_all
  have "open_body (DryocCrypto D) (d\<lparr>receiver_obf := snd (encrypt (sender_obf c) 0)\<rparr>) ?h ct = (Ok body, ?d)"
    using ct(1,2) m by (simp add: open_body_def data_header_def mirrored_def)
  moreover have "strip_signature ?h body = body" by (simp add: strip_signature_def data_header_def)
  ultimately have "recv_frame (DryocCrypto D) d (wire @ rest) = (Ok (?h, body), ?d, rest)" for rest
    using cap by (simp add: recv_frame_def w le_word_le_bytes_full dec h l)
  moreover have "mirrored c' ?d" using m by (simp add: mirrored_def c')
  ultimately show ?thesis by blast
qed

fun command_frames :: "'r DatumCrypto \<Rightarrow> 'r \<Rightarrow> UpstreamCommand list \<Rightarrow> (byte \<times> bytes) list" where
  "command_frames C r [] = []"
| "command_frames C r (cmd # cmds) =
     (let (f, r') = command_frame C r cmd in f # command_frames C r' cmds)"

lemma session_ok_send:
  assumes "dryoc_laws D" "session_ok c" "frame_fits f"
  shows "\<exists>wire c'. send_frame (DryocCrypto D) Done Done c (fst f) (snd f) = (Ok wire, c') \<and> session_ok c'"
proof (cases f)
  case (Pair op body)
  with assms(3) have "frame_fits (op, body)" by simp
  from send_frame_Ok [OF assms(1,2) this] obtain ct where
    "send_frame (DryocCrypto D) Done Done c op body =
       (Ok (le_bytes 4 (pack_word (data_header op body) XOR obf_key (sender_obf c)) @ ct),
        c\<lparr>sender_obf := snd (encrypt (sender_obf c) 0), sender_nonce := increment_nonce (sender_nonce c)\<rparr>)"
    by blast
  then show ?thesis using assms(2) Pair by (simp add: session_ok_def)
qed

lemma recv_frame_at_end: "recv_frame C d [] = (Err Io, d, [])"
  by (simp add: recv_frame_def read_exact_def)

text \<open>C3: A session stays in lockstep: if both ends hold mirrored chains, nonces and key,
  the client sends any list of commands whose frames fit, and the peer classifies each body,
  then the peer's receive loop delivers exactly the events of those bodies in order, ends at
  the end of the stream, and the two ends are mirrored again.\<close>

theorem session_in_lockstep:
  assumes "dryoc_laws D" "session_ok c" "mirrored c d"
    and "list_all frame_fits (command_frames (DryocCrypto D) r cmds)"
    and "list_all2 (\<lambda>(op, body) ev. decode_event (data_header op body) body = Ok ev)
           (command_frames (DryocCrypto D) r cmds) evs"
  shows "\<exists>wire c' d'. run_commands (DryocCrypto D) r c cmds = (Ok (), wire, c')
           \<and> recv_loop (DryocCrypto D) d wire = (evs, Io, d') \<and> mirrored c' d'"
  using assms
proof (induction cmds arbitrary: r c d evs)
  case Nil
  then show ?case by (auto simp: recv_loop.simps recv_frame_at_end)
next
  case (Cons cmd cmds)
  obtain op body r' where f: "command_frame (DryocCrypto D) r cmd = ((op, body), r')"
    by (metis prod.exhaust)
  from Cons.prems(4) f have fits: "frame_fits (op, body)"
    and rest: "list_all frame_fits (command_frames (DryocCrypto D) r' cmds)" by simp_all
  from Cons.prems(5) f obtain ev evs' where evs: "evs = ev # evs'"
    and ev: "decode_event (data_header op body) body = Ok ev"
    and evs': "list_all2 (\<lambda>(op, body) ev. decode_event (data_header op body) body = Ok ev)
           (command_frames (DryocCrypto D) r' cmds) evs'"
    by (auto simp: list_all2_Cons1)
  obtain w c1 where sent: "send_frame (DryocCrypto D) Done Done c op body = (Ok w, c1)" and ok1: "session_ok c1"
    using session_ok_send [OF Cons.prems(1,2) fits] by auto
  obtain d1 where m1: "mirrored c1 d1"
    and recv: "\<And>rest. recv_frame (DryocCrypto D) d (w @ rest) = (Ok (data_header op body, body), d1, rest)"
    using recv_of_sent [OF Cons.prems(1-3) fits sent] by blast
  from Cons.IH [OF Cons.prems(1) ok1 m1 rest evs'] obtain w' c' d' where
    "run_commands (DryocCrypto D) r' c1 cmds = (Ok (), w', c')"
    "recv_loop (DryocCrypto D) d1 w' = (evs', Io, d')" "mirrored c' d'" by blast
  then have "run_commands (DryocCrypto D) r c (cmd # cmds) = (Ok (), w @ w', c')"
    "recv_loop (DryocCrypto D) d (w @ w') = (evs, Io, d')"
    using f sent by (simp_all add: recv_loop.simps [of _ d] recv ev evs)
  with \<open>mirrored c' d'\<close> show ?case by blast
qed

definition pool_peer :: "'r DatumCrypto \<Rightarrow> 'r \<Rightarrow> MockPool \<Rightarrow> bytes \<Rightarrow> bytes" where
  "pool_peer C q pool framed =
     (case pool_handle_connection C q pool framed of Reply b \<Rightarrow> b | _ \<Rightarrow> [])"

lemma establish_from_reply:
  assumes k: "keys_ok D keys" and m: "0 \<notin> set mo" and l: "length ed = 32" "length x = 32"
  shows "establish (DryocCrypto D) keys nk t ro
     (long_term_ed25519_pub keys @ long_term_x25519_pub keys @ session_ed25519_pub keys
       @ session_x25519_pub keys @ ed @ x @ mo @ [0])
   = Ok \<lparr>sender_obf = for_sender nk, receiver_obf = ro,
          precomp_key = crypto_box_beforenm D x (session_x25519_sec keys),
          sender_nonce = fst (derive_session_nonces nk (session_ed25519_pub keys)),
          receiver_nonce = snd (derive_session_nonces nk (session_ed25519_pub keys)), timeout_dur = t,
          pool_session_ed25519 = ed, pool_session_x25519 = x, motd = from_utf8_lossy mo\<rparr>"
proof -
  have kl: "length (long_term_ed25519_pub keys) = 32" "length (long_term_x25519_pub keys) = 32"
    "length (session_ed25519_pub keys) = 32" "length (session_x25519_pub keys) = 32"
    using k by (simp_all add: keys_ok_def)
  define R where "R = long_term_ed25519_pub keys @ long_term_x25519_pub keys @ session_ed25519_pub keys
       @ session_x25519_pub keys @ ed @ x @ mo @ [0]"
  have "echo_matches keys R" "subslice 128 160 R = ed" "subslice 160 192 R = x" "drop 192 R = mo @ [0]"
    "\<not> length R < 192"
    unfolding R_def echo_matches_def using kl l by (simp_all add: subslice_def)
  moreover have "position (\<lambda>b. b = 0) (mo @ [0]) = Some (length mo)"
    using m by (intro position_append) auto
  ultimately show ?thesis
    unfolding R_def [symmetric] establish_def by (simp add: Let_def split: prod.splits)
qed

lemma nonce_words_length [simp]: "length (nonce_words n nk) = n"
  by (induction n arbitrary: nk) (simp_all add: Let_def)

lemma concat_map_length_const: "(\<And>x. length (f x) = n) \<Longrightarrow> length (concat (map f xs)) = n * length xs"
  by (induction xs) simp_all

lemma derive_session_nonces_length:
  "length (fst (derive_session_nonces nk p)) = 24" "length (snd (derive_session_nonces nk p)) = 24"
  by (simp_all add: derive_session_nonces_def Let_def concat_map_length_const [where n = 4])

lemma spawn_pool_facts:
  assumes "dryoc_laws D" "spawn_pool (DryocCrypto D) q0 mo = (pool, q)"
  obtains q1 where "crypto_box_keypair D q0 = ((mp_long_term_x25519_pub pool, mp_long_term_x25519_sec pool), q1)"
    "mp_motd pool = mo" "length (mp_session_ed25519_pub pool) = 32" "length (mp_session_x25519_pub pool) = 32"
  using assms dryoc_sign_keypair(1) [OF assms(1)] dryoc_box_keypair(1) [OF assms(1)]
  by (auto simp: spawn_pool_def split: prod.splits)

definition echo_of :: "ClientKeypairs \<Rightarrow> MockPool \<Rightarrow> bytes" where
  "echo_of keys pool = long_term_ed25519_pub keys @ long_term_x25519_pub keys @ session_ed25519_pub keys
     @ session_x25519_pub keys @ mp_session_ed25519_pub pool @ mp_session_x25519_pub pool @ mp_motd pool @ [0]"

text \<open>The first half: the hello is sealed, sent, opened and answered.\<close>

lemma hello_reaches_pool:
  assumes laws: "dryoc_laws D" and pool: "spawn_pool (DryocCrypto D) q0 mo = (pool, q)"
    and nul: "0 \<notin> set version" "0 \<notin> set client_id" and len: "length version + length client_id \<le> 2 ^ 19"
    and env: "tcp_connect env = Done" "tx env = Done"
    and keys: "generate_keypairs (DryocCrypto D) r = (keys, r1)" and nkb: "randombytes_buf D r1 4 = (nkb, r2)"
    and nk_def: "nk = le_word nkb"
  obtains framed sealed padding sig where "keys_ok D keys"
    "\<forall>t p. hello_exchange (DryocCrypto D) (env\<lparr>peer := p\<rparr>) (mp_long_term_x25519_pub pool) version client_id t r = Ok (keys, nk, p framed)"
    "frame_for_hello sealed = Ok framed"
    "crypto_box_seal_open D sealed (mp_long_term_x25519_pub pool) (mp_long_term_x25519_sec pool)
       = Ok (hello_unsigned keys version client_id nk padding @ sig)"
    "pool_handle_connection (DryocCrypto D) q pool framed =
       pool_send_response (DryocCrypto D) q (session_x25519_pub keys) nk (echo_of keys pool)"
proof -
  let ?C = "DryocCrypto D"
  obtain pb r3 where pb: "randombytes_buf D r2 1 = (pb, r3)" by (cases "randombytes_buf D r2 1")
  define n where "n = 1 + unat (pb ! 0) mod 200"
  obtain padding r4 where padding: "randombytes_buf D r3 n = (padding, r4)" by (cases "randombytes_buf D r3 n")
  have k: "keys_ok D keys" by (rule generate_keypairs_ok [OF laws keys])
  have pl: "1 \<le> length padding" "length padding \<le> 200"
    using dryoc_random [OF laws padding] by (simp_all add: n_def Suc_leI)
  let ?u = "hello_unsigned keys version client_id nk padding"
  obtain sig where sig: "crypto_sign_detached D ?u (long_term_ed25519_sec keys) = Ok sig" "length sig = 64"
    using k unfolding keys_ok_def by blast
  have plain: "build_hello_payload ?C keys version client_id nk padding = Ok (?u @ sig)"
    using nul pl sig by (simp add: build_hello_payload_def Let_def)
  have ul: "length ?u = 134 + length version + length client_id + length padding"
    using k by (simp add: hello_unsigned_def keys_ok_def)
  obtain q1 where pk: "crypto_box_keypair D q0 = ((mp_long_term_x25519_pub pool, mp_long_term_x25519_sec pool), q1)"
    by (rule spawn_pool_facts [OF laws pool])
  obtain sealed r5 where sealed: "seal_to_vecbox D r4 (?u @ sig) (mp_long_term_x25519_pub pool) = (Ok sealed, r5)"
    "length sealed = length (?u @ sig) + 48"
    "crypto_box_seal_open D sealed (mp_long_term_x25519_pub pool) (mp_long_term_x25519_sec pool) = Ok (?u @ sig)"
    using dryoc_box_keypair(2) [OF laws pk] by metis
  have lp: "length (mp_long_term_x25519_pub pool) = 32" by (rule dryoc_box_keypair(1) [OF laws pk])
  have sl: "length sealed < 2 ^ 22" "length (?u @ sig) + 48 \<le> 1048576"
    using sealed(2) ul sig(2) len pl by simp_all
  obtain framed where framed: "frame_for_hello sealed = Ok framed"
    using frame_for_hello_Ok [OF sl(1)] by simp
  have "pool_handle_connection ?C q pool framed = pool_send_response ?C q (session_x25519_pub keys) nk (echo_of keys pool)"
    unfolding echo_of_def
    by (rule pool_accepts_hello [OF laws k nul sl(2) plain _ sealed(2) framed]) (use sealed(3) in simp)
  moreover have "hello_exchange ?C (env\<lparr>peer := p\<rparr>) (mp_long_term_x25519_pub pool) version client_id t r = Ok (keys, nk, p framed)" for p t
    unfolding hello_exchange_def keys
    by (simp add: nkb pb [unfolded One_nat_def] padding [unfolded n_def, simplified] nk_def [symmetric] plain seal_hello_def lp sealed(1)
        framed env write_result_def)
  ultimately show thesis using that [OF k _ framed sealed(3)] by blast
qed

text \<open>The second half: the response is read, opened and checked.\<close>

lemma connect_reads_response:
  assumes "hello_exchange C env pool_pub version client_id t r = Ok (keys, nk,
      le_bytes 4 (pack_word (reply_header (length rsealed)) XOR obf_key (for_receiver nk)) @ rsealed)"
    and "length rsealed < 2 ^ 22" "48 \<le> length rsealed"
    and "box_seal_open C rsealed (session_x25519_pub keys) (session_x25519_sec keys) = Ok resp"
    and "establish C keys nk t (snd (decrypt (for_receiver nk) 0)) resp = Ok c"
  shows "connect C env pool_pub version client_id t r = Ok (c, [])"
proof -
  note sh = short_header [OF assms(2)]
  obtain h where h: "reply_header (length rsealed) = h" by blast
  have hl: "unat (cmd_len h) = length rsealed" "from_bits (proto_cmd h) = Pong"
    using sh(1) by (auto simp: h [symmetric] reply_header_def from_bits_def)
  have parse: "parse_received_header (for_receiver nk)
      (le_bytes 4 (pack_word h XOR obf_key (for_receiver nk))) = (Ok h, snd (decrypt (for_receiver nk) 0))"
    using parse_masked_header [OF sh(3), of "for_receiver nk"] unfolding h
    by (simp add: parse_received_header_def decrypt_def)
  have size: "\<not> 4 * 1024 * 1024 < cmd_len h" "\<not> unat (cmd_len h) < CRYPTO_BOX_SEAL_BYTES"
    using hl(1) assms(2,3) by (simp_all add: word_less_nat_alt CRYPTO_BOX_SEAL_BYTES_def)
  show ?thesis
    using size hl assms(3-5)
    by (simp add: connect_def assms(1) h read_result_def parse read_exact_def [of "length rsealed"])
qed

text \<open>C4: The handshake succeeds: against the in-tree pool, with no network failure, texts
  without NUL bytes and of bounded size, \<open>connect\<close> sends a hello that opens under the pool's key to the
  generated public keys, the version, the client's name and the random \<open>nk\<close>, and returns an
  established connection with no byte of the stream unread: its pool keys are the pool's, its
  message of the day is the pool's, read as UTF-8 with replacements, its shared key is computed from
  the pool's session key and the secret of the session key in the hello, its sender chain is seeded by
  the \<open>nk\<close> in the hello, its receiver chain by the same \<open>nk\<close> and advanced by exactly the response
  header, and its nonces are derived from that \<open>nk\<close> and the public signing key of the session in the
  hello.\<close>

theorem connect_to_pool:
  assumes laws: "dryoc_laws D"
    and pool: "spawn_pool (DryocCrypto D) q0 mo = (pool, q)"
    and nul: "0 \<notin> set version" "0 \<notin> set client_id" "0 \<notin> set mo"
    and len: "length version + length client_id \<le> 2 ^ 19" "length mo \<le> 2 ^ 19"
    and env: "tcp_connect env = Done" "tx env = Done" "peer env = pool_peer (DryocCrypto D) q pool"
    and drawn: "generate_keypairs (DryocCrypto D) r = (keys, r1)" "randombytes_buf D r1 4 = (nkb, r2)" "nk = le_word nkb"
  shows "\<exists>c framed sealed padding sig.
     hello_exchange (DryocCrypto D) (env\<lparr>peer := \<lambda>sent. sent\<rparr>) (mp_long_term_x25519_pub pool) version client_id t r
       = Ok (keys, nk, framed)
     \<and> frame_for_hello sealed = Ok framed
     \<and> crypto_box_seal_open D sealed (mp_long_term_x25519_pub pool) (mp_long_term_x25519_sec pool)
       = Ok (hello_unsigned keys version client_id nk padding @ sig)
     \<and> connect (DryocCrypto D) env (mp_long_term_x25519_pub pool) version client_id t r = Ok (c, [])
     \<and> session_ok c \<and> motd c = from_utf8_lossy mo \<and> timeout_dur c = t
     \<and> pool_session_ed25519 c = mp_session_ed25519_pub pool
     \<and> pool_session_x25519 c = mp_session_x25519_pub pool
     \<and> precomp_key c = crypto_box_beforenm D (mp_session_x25519_pub pool) (session_x25519_sec keys)
     \<and> sender_obf c = for_sender nk \<and> receiver_obf c = snd (decrypt (for_receiver nk) 0)
     \<and> (sender_nonce c, receiver_nonce c) = derive_session_nonces nk (session_ed25519_pub keys)"
proof -
  let ?C = "DryocCrypto D"
  obtain q1 where pk: "crypto_box_keypair D q0 = ((mp_long_term_x25519_pub pool, mp_long_term_x25519_sec pool), q1)"
    "mp_motd pool = mo" "length (mp_session_ed25519_pub pool) = 32" "length (mp_session_x25519_pub pool) = 32"
    by (rule spawn_pool_facts [OF laws pool])
  obtain framed sealed padding sig where k: "keys_ok D keys"
    and hello: "\<forall>t p. hello_exchange ?C (env\<lparr>peer := p\<rparr>) (mp_long_term_x25519_pub pool) version client_id t r = Ok (keys, nk, p framed)"
    and opens: "frame_for_hello sealed = Ok framed" "crypto_box_seal_open D sealed (mp_long_term_x25519_pub pool)
      (mp_long_term_x25519_sec pool) = Ok (hello_unsigned keys version client_id nk padding @ sig)"
    and reply: "pool_handle_connection ?C q pool framed = pool_send_response ?C q (session_x25519_pub keys) nk (echo_of keys pool)"
    by (rule hello_reaches_pool [OF laws pool nul(1,2) len(1) env(1,2) drawn])
  have rl: "length (echo_of keys pool) = 193 + length mo" using k pk by (simp add: keys_ok_def echo_of_def)
  then have "length (echo_of keys pool) + 48 < 2 ^ 22" using len(2) by simp
  then obtain rsealed where rsealed: "pool_send_response ?C q (session_x25519_pub keys) nk (echo_of keys pool) =
       Reply (le_bytes 4 (pack_word (reply_header (length rsealed)) XOR obf_key (for_receiver nk)) @ rsealed)"
    "length rsealed = length (echo_of keys pool) + 48"
    "crypto_box_seal_open D rsealed (session_x25519_pub keys) (session_x25519_sec keys) = Ok (echo_of keys pool)"
    by (rule pool_send_response_Reply [OF laws k])
  have same: "env = env\<lparr>peer := peer env\<rparr>" by simp
  have stream: "peer env framed =
      le_bytes 4 (pack_word (reply_header (length rsealed)) XOR obf_key (for_receiver nk)) @ rsealed"
    by (simp add: env(3) pool_peer_def reply rsealed(1))
  let ?c = "\<lparr>sender_obf = for_sender nk, receiver_obf = snd (decrypt (for_receiver nk) 0),
          precomp_key = crypto_box_beforenm D (mp_session_x25519_pub pool) (session_x25519_sec keys),
          sender_nonce = fst (derive_session_nonces nk (session_ed25519_pub keys)),
          receiver_nonce = snd (derive_session_nonces nk (session_ed25519_pub keys)), timeout_dur = t,
          pool_session_ed25519 = mp_session_ed25519_pub pool,
          pool_session_x25519 = mp_session_x25519_pub pool, motd = from_utf8_lossy mo\<rparr>"
  have est: "establish ?C keys nk t (snd (decrypt (for_receiver nk) 0)) (echo_of keys pool) = Ok ?c"
    unfolding pk(2) echo_of_def by (rule establish_from_reply [OF k nul(3) pk(3,4)])
  have "box_seal_open ?C rsealed (session_x25519_pub keys) (session_x25519_sec keys) = Ok (echo_of keys pool)"
    using rsealed(2,3) by simp
  from connect_reads_response [OF hello [rule_format, of "peer env", folded same, unfolded stream] _ _ this est]
  have "connect ?C env (mp_long_term_x25519_pub pool) version client_id t r = Ok (?c, [])"
    using rl rsealed(2) len(2) by simp
  moreover have "length (crypto_box_beforenm D p s) = 32" for p s
    using laws by (simp add: dryoc_laws_def)
  ultimately show ?thesis
    using hello opens
    by (intro exI [of _ ?c] exI [of _ framed] exI [of _ sealed] exI [of _ padding] exI [of _ sig])
      (simp add: session_ok_def derive_session_nonces_length)
qed

section \<open>A concrete crypto provider\<close>

text \<open>A provider that satisfies the documented laws (with a transparent cipher), for the
  witnesses.\<close>

definition plain_dryoc :: "nat dryoc" where
  "plain_dryoc =
    \<lparr>seal_to_vecbox = (\<lambda>r m pk. (Ok (replicate 48 0 @ m), r)),
     crypto_box_seal_open = (\<lambda>c pk sk. Ok (drop 48 c)),
     crypto_secretbox_easy = (\<lambda>m n k. Ok (replicate 16 0 @ m)),
     crypto_secretbox_open_easy = (\<lambda>c n k. Ok (drop 16 c)),
     crypto_box_beforenm = (\<lambda>p s. replicate 32 7),
     crypto_sign_keypair = (\<lambda>r. ((replicate 32 1, replicate 64 2), r + 1)),
     crypto_sign_detached = (\<lambda>m sk. Ok (replicate 64 3)),
     crypto_sign_verify_detached = (\<lambda>sig m pk. Ok ()),
     crypto_box_keypair = (\<lambda>r. ((replicate 32 4, replicate 32 5), r + 1)),
     randombytes_buf = (\<lambda>r n. (replicate n 9, r + n))\<rparr>"

lemma plain_dryoc_laws: "dryoc_laws plain_dryoc"
  by (simp add: dryoc_laws_def plain_dryoc_def)

definition sample_session :: Connected where
  "sample_session = \<lparr>sender_obf = for_sender 7, receiver_obf = for_sender 7,
     precomp_key = replicate 32 7, sender_nonce = replicate 24 1, receiver_nonce = replicate 24 1,
     timeout_dur = 0, pool_session_ed25519 = [], pool_session_x25519 = [], motd = []\<rparr>"

section \<open>Properties of the upstream client\<close>

lemma increment_nonce_iter:
  "length n = 24 \<Longrightarrow> length ((increment_nonce ^^ k) n) = 24 \<and>
     le_nat ((increment_nonce ^^ k) n) = (le_nat n + k) mod 2 ^ 192"
proof (induction k)
  case 0
  then show ?case using le_nat_bound [of n] by simp
next
  case (Suc k)
  then have "le_nat (increment_nonce ((increment_nonce ^^ k) n)) = ((le_nat n + k) mod 2 ^ 192 + 1) mod 2 ^ 192"
    by (simp add: increment_nonce_counts)
  also have "\<dots> = (le_nat n + Suc k) mod 2 ^ 192" by (simp only: mod_add_left_eq) simp
  finally show ?case using Suc by simp
qed

lemma shifted_mod_inj:
  "(a + i) mod m = (a + j) mod m \<Longrightarrow> i < m \<Longrightarrow> j < m \<Longrightarrow> i = (j :: nat)"
proof (induction i j rule: linorder_wlog)
  case (le i j)
  then have "m dvd (a + j) - (a + i)" by (subst mod_eq_dvd_iff_nat [symmetric]) simp_all
  then show ?case using le by (auto dest: dvd_imp_le)
qed simp

lemma run_commands_seals:
  assumes "dryoc_laws D" "session_ok c" "list_all frame_fits (command_frames (DryocCrypto D) r cmds)"
  shows "\<exists>wire c' headers cts. run_commands (DryocCrypto D) r c cmds = (Ok (), wire, c')
    \<and> length headers = length cmds \<and> length cts = length cmds \<and> list_all (\<lambda>h. length h = 4) headers
    \<and> wire = concat (map2 (@) headers cts) \<and> sender_nonce c' = (increment_nonce ^^ length cmds) (sender_nonce c)
    \<and> (\<forall>k < length cmds. crypto_secretbox_easy D (snd (command_frames (DryocCrypto D) r cmds ! k))
         ((increment_nonce ^^ k) (sender_nonce c)) (precomp_key c) = Ok (cts ! k))"
  using assms(2,3)
proof (induction cmds arbitrary: r c)
  case (Cons cmd cmds)
  obtain op body r' where f: "command_frame (DryocCrypto D) r cmd = ((op, body), r')"
    by (metis prod.exhaust)
  have fits: "frame_fits (op, body)" "list_all frame_fits (command_frames (DryocCrypto D) r' cmds)"
    using Cons.prems(2) f by simp_all
  obtain ct where ct: "crypto_secretbox_easy D body (sender_nonce c) (precomp_key c) = Ok ct"
    and sent: "send_frame (DryocCrypto D) Done Done c op body =
       (Ok (le_bytes 4 (pack_word (data_header op body) XOR obf_key (sender_obf c)) @ ct),
        c\<lparr>sender_obf := snd (encrypt (sender_obf c) 0), sender_nonce := increment_nonce (sender_nonce c)\<rparr>)"
    using send_frame_seals [OF assms(1) Cons.prems(1) fits(1)] by blast
  let ?h = "le_bytes 4 (pack_word (data_header op body) XOR obf_key (sender_obf c))"
  let ?c = "c\<lparr>sender_obf := snd (encrypt (sender_obf c) 0), sender_nonce := increment_nonce (sender_nonce c)\<rparr>"
  have "session_ok ?c" using Cons.prems(1) by (simp add: session_ok_def)
  from Cons.IH [OF this fits(2)] obtain wire c' headers cts where
    run: "run_commands (DryocCrypto D) r' ?c cmds = (Ok (), wire, c')"
    and l: "length headers = length cmds" "length cts = length cmds" "list_all (\<lambda>h. length h = 4) headers"
    and w: "wire = concat (map2 (@) headers cts)" "sender_nonce c' = (increment_nonce ^^ length cmds) (increment_nonce (sender_nonce c))"
    and sealed: "\<And>k. k < length cmds \<Longrightarrow> crypto_secretbox_easy D (snd (command_frames (DryocCrypto D) r' cmds ! k))
         ((increment_nonce ^^ k) (increment_nonce (sender_nonce c))) (precomp_key c) = Ok (cts ! k)"
    by auto
  have "crypto_secretbox_easy D (snd (command_frames (DryocCrypto D) r (cmd # cmds) ! k))
       ((increment_nonce ^^ k) (sender_nonce c)) (precomp_key c) = Ok ((ct # cts) ! k)" if "k < length (cmd # cmds)" for k
    using that ct sealed by (cases k) (simp_all add: f funpow_swap1)
  then show ?case
    using run l w f sent
    by (intro exI [of _ "(?h @ ct) @ wire"] exI [of _ c'] exI [of _ "?h # headers"] exI [of _ "ct # cts"])
      (simp add: funpow_swap1)
qed simp

text \<open>C12: No nonce is used twice while the client sends: over any list of commands whose frames fit, of
  fewer than 2^192, on a session whose key and nonces have their lengths, what reaches the wire is, for each command in order, a masked header of four
  bytes and the secretbox of its body, the k-th sealed under the session's key with the nonce whose
  little-endian value is that of the first nonce plus k modulo 2^192; these nonces are distinct, and
  the connection ends with the next one.\<close>

theorem nonce_never_reused:
  assumes "dryoc_laws D" "session_ok c" "list_all frame_fits (command_frames (DryocCrypto D) r cmds)" "length cmds < 2 ^ 192"
  shows "\<exists>wire c' headers cts nonces. run_commands (DryocCrypto D) r c cmds = (Ok (), wire, c')
    \<and> length headers = length cmds \<and> length cts = length cmds \<and> list_all (\<lambda>h. length h = 4) headers
    \<and> wire = concat (map2 (@) headers cts)
    \<and> distinct nonces \<and> map le_nat nonces = map (\<lambda>k. (le_nat (sender_nonce c) + k) mod 2 ^ 192) [0..<length cmds]
    \<and> list_all (\<lambda>k. crypto_secretbox_easy D (snd (command_frames (DryocCrypto D) r cmds ! k)) (nonces ! k) (precomp_key c)
         = Ok (cts ! k)) [0..<length cmds]
    \<and> le_nat (sender_nonce c') = (le_nat (sender_nonce c) + length cmds) mod 2 ^ 192"
proof -
  let ?ns = "map (\<lambda>k. (increment_nonce ^^ k) (sender_nonce c)) [0..<length cmds]"
  have "length (sender_nonce c) = 24" using assms(2) by (simp add: session_ok_def)
  note val = increment_nonce_iter [OF this, THEN conjunct2]
  have vals: "map le_nat ?ns = map (\<lambda>k. (le_nat (sender_nonce c) + k) mod 2 ^ 192) [0..<length cmds]"
    using val by simp
  have "inj_on (\<lambda>k. (le_nat (sender_nonce c) + k) mod 2 ^ 192) {0..<length cmds}"
    by (rule inj_onI, rule shifted_mod_inj, assumption) (use assms(4) in auto)
  then have "distinct (map le_nat ?ns)" unfolding vals by (simp add: distinct_map)
  then have d: "distinct ?ns" by (simp only: distinct_map)
  obtain wire c' headers cts where "run_commands (DryocCrypto D) r c cmds = (Ok (), wire, c')"
    "length headers = length cmds" "length cts = length cmds" "list_all (\<lambda>h. length h = 4) headers"
    "wire = concat (map2 (@) headers cts)" "sender_nonce c' = (increment_nonce ^^ length cmds) (sender_nonce c)"
    "\<forall>k < length cmds. crypto_secretbox_easy D (snd (command_frames (DryocCrypto D) r cmds ! k))
         ((increment_nonce ^^ k) (sender_nonce c)) (precomp_key c) = Ok (cts ! k)"
    using run_commands_seals [OF assms(1-3)] by (elim exE conjE) (rule that; assumption)
  with d vals show ?thesis
    by (intro exI [of _ wire] exI [of _ c'] exI [of _ headers] exI [of _ cts] exI [of _ ?ns]) (simp add: val list_all_iff)
qed

lemma plain_session: "session_ok sample_session" "mirrored sample_session sample_session"
  by (simp_all add: session_ok_def mirrored_def sample_session_def)

theorem nonce_never_reused_witness:
  "\<exists>wire c'. run_commands (DryocCrypto plain_dryoc) 0 (sample_session\<lparr>sender_nonce := replicate 24 0xFF\<rparr>) [Raw 5 [0x77], Raw 5 [0x78]]
      = (Ok (), wire, c') \<and> le_nat (sender_nonce c') = 1"
proof -
  let ?c = "sample_session\<lparr>sender_nonce := replicate 24 0xFF\<rparr>"
  have c: "session_ok ?c" by (simp add: session_ok_def sample_session_def)
  have f: "list_all frame_fits (command_frames (DryocCrypto plain_dryoc) 0 [Raw 5 [0x77], Raw 5 [0x78]])"
    "length [Raw 5 [0x77], Raw 5 [0x78]] < 2 ^ 192"
    by (simp_all add: frame_fits_def)
  obtain wire c' where "run_commands (DryocCrypto plain_dryoc) 0 ?c [Raw 5 [0x77], Raw 5 [0x78]] = (Ok (), wire, c')"
    "le_nat (sender_nonce c') = (le_nat (sender_nonce ?c) + 2) mod 2 ^ 192"
    using nonce_never_reused [OF plain_dryoc_laws c f] by (elim exE conjE) simp
  moreover have "le_nat (sender_nonce ?c) + 1 = 2 ^ 192" using le_nat_max [of 24] by simp
  then have "le_nat (sender_nonce ?c) + 2 = 1 + 2 ^ 192" by linarith
  then have "(le_nat (sender_nonce ?c) + 2) mod 2 ^ 192 = 1" by (simp only: mod_add_self2) simp
  ultimately show ?thesis by (intro exI [of _ wire] exI [of _ c'] conjI) simp_all
qed

theorem session_in_lockstep_witness:
  "\<exists>wire c' d'. run_commands (DryocCrypto plain_dryoc) 0 sample_session
       [Raw 0x10 [0x50, 1, 2], Raw 5 [0x77]] = (Ok (), wire, c')
     \<and> recv_loop (DryocCrypto plain_dryoc) sample_session wire
         = ([JobValidationRequest [1, 2], UnknownFrame 5 [0x77]], Io, d') \<and> mirrored c' d'"
  by (rule session_in_lockstep [OF plain_dryoc_laws plain_session])
    (simp_all add: frame_fits_def decode_event_def data_header_def from_bits_def opcode_defs)

definition set_recv :: "HeaderObfuscator \<Rightarrow> bytes \<Rightarrow> Connected \<Rightarrow> Connected" where
  "set_recv x y c = c\<lparr>receiver_obf := x, receiver_nonce := y\<rparr>"

definition set_send :: "HeaderObfuscator \<Rightarrow> bytes \<Rightarrow> Connected \<Rightarrow> Connected" where
  "set_send x y c = c\<lparr>sender_obf := x, sender_nonce := y\<rparr>"

lemma send_frame_set_recv: "send_frame C o1 o2 (set_recv x y c) op b = apsnd (set_recv x y) (send_frame C o1 o2 c op b)"
  by (simp add: send_frame_def set_recv_def Let_def split: sum.splits prod.splits)

lemma recv_frame_set_send: "recv_frame C (set_send x y c) s = apsnd (apfst (set_send x y)) (recv_frame C c s)"
  by (simp add: recv_frame_def open_body_def set_send_def Let_def split: option.splits sum.splits prod.splits)

lemma send_frame_state: "\<exists>x y. snd (send_frame C o1 o2 c op b) = set_send x y c"
proof -
  have keep: "c = set_send (sender_obf c) (sender_nonce c) c" "\<And>x. c\<lparr>sender_obf := x\<rparr> = set_send x (sender_nonce c) c"
    "\<And>x y z. (set_send x z c)\<lparr>sender_nonce := y\<rparr> = set_send x y c"
    by (simp_all add: set_send_def)
  show ?thesis
    by (auto simp: send_frame_def Let_def keep(2,3) intro: keep(1) split: sum.splits prod.splits)
qed

lemma recv_frame_state: "\<exists>x y. fst (snd (recv_frame C c s)) = set_recv x y c"
proof -
  have keep: "c = set_recv (receiver_obf c) (receiver_nonce c) c" "\<And>x. c\<lparr>receiver_obf := x\<rparr> = set_recv x (receiver_nonce c) c"
    "\<And>x y z. (set_recv x z c)\<lparr>receiver_nonce := y\<rparr> = set_recv x y c"
    by (simp_all add: set_recv_def)
  show ?thesis
    by (auto simp: recv_frame_def open_body_def Let_def keep(2,3) intro: keep(1)
        split: option.splits sum.splits prod.splits)
qed

lemma set_send_recv: "set_send x y (set_recv u v c) = set_recv u v (set_send x y c)"
  by (simp add: set_send_def set_recv_def)

text \<open>Sending and receiving are independent: the connection guards the two directions
  with separate locks, and whichever of the two happens first, both give the same results
  and leave the same connection state.\<close>

theorem send_recv_commute:
  "fst (recv_frame C (snd (send_frame C o1 o2 c op b)) stream) = fst (recv_frame C c stream) \<and>
   fst (send_frame C o1 o2 (fst (snd (recv_frame C c stream))) op b) = fst (send_frame C o1 o2 c op b) \<and>
   fst (snd (recv_frame C (snd (send_frame C o1 o2 c op b)) stream))
     = snd (send_frame C o1 o2 (fst (snd (recv_frame C c stream))) op b)"
proof -
  obtain x y where s: "snd (send_frame C o1 o2 c op b) = set_send x y c" using send_frame_state by blast
  obtain u v where r: "fst (snd (recv_frame C c stream)) = set_recv u v c" using recv_frame_state by blast
  show ?thesis
    by (simp add: s r send_frame_set_recv recv_frame_set_send set_send_recv)
qed

definition plain_pool :: MockPool where
  "plain_pool = fst (spawn_pool (DryocCrypto plain_dryoc) 0 [109, 111])"

definition plain_env :: net_env where
  "plain_env = \<lparr>tcp_connect = Done, tx = Done,
     peer = pool_peer (DryocCrypto plain_dryoc) (snd (spawn_pool (DryocCrypto plain_dryoc) 0 [109, 111])) plain_pool,
     stalls = False\<rparr>"

lemma plain_keys: "\<exists>keys r1. generate_keypairs (DryocCrypto plain_dryoc) 0 = (keys, r1) \<and> session_ed25519_pub keys = replicate 32 1"
proof -
  have "crypto_sign_keypair plain_dryoc r = ((replicate 32 1, replicate 64 2), r + 1)"
    "crypto_box_keypair plain_dryoc r = ((replicate 32 4, replicate 32 5), r + 1)" for r
    by (simp_all only: plain_dryoc_def dryoc.simps)
  then show ?thesis by (simp add: generate_keypairs_def Let_def)
qed

lemma plain_nk: "randombytes_buf plain_dryoc r 4 = (replicate 4 9, r + 4)" "0x09090909 = (le_word (replicate 4 9) :: u32)"
proof -
  show "randombytes_buf plain_dryoc r 4 = (replicate 4 9, r + 4)" by (simp add: plain_dryoc_def)
  have "le_word (replicate 4 9) = (le_word [9, 9, 9, 9] :: u32)" by (simp add: numeral_eq_Suc)
  also have "\<dots> = 0x09090909" by simp
  finally show "0x09090909 = (le_word (replicate 4 9) :: u32)" by simp
qed

lemma plain_spawn:
  "spawn_pool (DryocCrypto plain_dryoc) 0 [109, 111] = (plain_pool, snd (spawn_pool (DryocCrypto plain_dryoc) 0 [109, 111]))"
  by (simp add: plain_pool_def)

theorem connect_to_pool_witness:
  "\<exists>c. connect (DryocCrypto plain_dryoc) plain_env (mp_long_term_x25519_pub plain_pool) [118, 49] [47] 5 0 = Ok (c, [])
     \<and> session_ok c \<and> motd c = [109, 111]
     \<and> pool_session_ed25519 c = mp_session_ed25519_pub plain_pool
     \<and> sender_obf c = for_sender 0x09090909
     \<and> (sender_nonce c, receiver_nonce c) = derive_session_nonces 0x09090909 (replicate 32 1)"
proof -
  obtain keys r1 where k: "generate_keypairs (DryocCrypto plain_dryoc) 0 = (keys, r1)" "session_ed25519_pub keys = replicate 32 1"
    using plain_keys by blast
  have "list_all (\<lambda>b. b < 0x80) [109 :: byte, 111]" by simp
  note motd = lossy_of_valid [OF ascii_valid [OF this]]
  have env: "tcp_connect plain_env = Done" "tx plain_env = Done"
    "peer plain_env = pool_peer (DryocCrypto plain_dryoc) (snd (spawn_pool (DryocCrypto plain_dryoc) 0 [109, 111])) plain_pool"
    by (simp_all add: plain_env_def)
  have texts: "0 \<notin> set [118 :: byte, 49]" "0 \<notin> set [47 :: byte]" "0 \<notin> set [109 :: byte, 111]"
    "length [118 :: byte, 49] + length [47 :: byte] \<le> 2 ^ 19" "length [109 :: byte, 111] \<le> 2 ^ 19" by simp_all
  note c = connect_to_pool [OF plain_dryoc_laws plain_spawn texts env k(1) plain_nk, where t = 5, unfolded motd k(2)]
  show ?thesis using c by (elim exE conjE) (intro exI conjI; assumption)
qed

section \<open>Classification\<close>

definition top_level_notify :: "frame_header \<Rightarrow> bool" where
  "top_level_notify h \<longleftrightarrow> proto_cmd h = 0x19 \<and> \<not> is_signed h \<and> \<not> is_encrypted_pubkey h"

lemma decode_event_guard: "(proto_cmd h = 0xF9 AND 0x1F \<and> \<not> is_signed h \<and> \<not> is_encrypted_pubkey h) \<longleftrightarrow> top_level_notify h"
  by (simp add: top_level_notify_def)

lemma Cons_drop_1: "body \<noteq> [] \<Longrightarrow> body ! 0 = b \<Longrightarrow> body = b # drop 1 body"
  by (cases body) simp_all

text \<open>Frames are classified exactly.  A frame is a block notification iff its opcode is
  0x19 and it is neither signed nor sealed, whatever its body.  Any other frame is a
  coinbaser response iff its body is 0x11 and an encoded response, a client configuration iff
  its opcode is not Coinbaser and its body is 0x99 and an encoded configuration, and a
  job-validation request iff its body starts with 0x50.\<close>

theorem decode_event_exact:
  "(decode_event h body = Ok (EvBlockNotify n) \<longleftrightarrow> top_level_notify h \<and> n = \<lparr>bn_payload = body\<rparr>) \<and>
   (decode_event h body = Ok (EvCoinbaser r) \<longleftrightarrow> \<not> top_level_notify h
      \<and> coinbaser_response_decode (drop 1 body) = Ok r \<and> take 1 body = [0x11]) \<and>
   (decode_event h body = Ok (EvClientConfig c) \<longleftrightarrow> \<not> top_level_notify h
      \<and> from_bits (proto_cmd h) \<noteq> Coinbaser \<and> config_fits c
      \<and> (\<exists>rest. body = 0x99 # client_config_encode c @ rest)) \<and>
   (decode_event h body = Ok (JobValidationRequest p) \<longleftrightarrow> \<not> top_level_notify h \<and> body = 0x50 # p)"
proof -
  have cc: "client_config_decode b = Ok c \<longleftrightarrow> config_fits c \<and> (\<exists>rest. b = client_config_encode c @ rest)" for b c
    using client_config_decode_sound [of b c] client_config_decode_complete [of c] by blast
  show ?thesis
    unfolding decode_event_def decode_event_guard
    by (cases body; cases "top_level_notify h"; cases "from_bits (proto_cmd h) = Coinbaser")
      (auto simp: block_notify_decode_def opcode_defs and_then_Inr map_err_Inr cc split: if_splits)
qed

end
