(* ===== verification/Upstream.thy ===== *)
theory Upstream
  imports Client Relay
begin

text \<open>
  The DATUM upstream task of \<open>crates/datum-bin/src/main.rs\<close> (\<open>run_datum_upstream\<close>,
  \<open>maybe_request_coinbaser\<close>) and the share counters of \<open>RuntimeStats\<close>: what each pool
  event and each template change does to the state that the other tasks read, and the commands
  it enqueues.  A connection attempt is given by its outcome: a failure, or the events of the
  session until its stream closes.  \<open>chan\<close> is the template channel: None without one, else
  its current template.
\<close>

unbundle bit_operations_syntax

datatype KeyError = KeyNotHex | KeyLength nat

definition pool_x25519 :: "libs \<Rightarrow> string \<Rightarrow> KeyError + bytes" where
  "pool_x25519 X pool_pubkey_hex =
     and_then (ok_or (hex_decode X pool_pubkey_hex) KeyNotHex) (\<lambda>k.
       if length k \<noteq> 64 then Err (KeyLength (length k)) else Ok (drop 32 k))"

record Runtime =
  rt_accepted :: u64
  rt_rejected :: u64
  rt_pool_min :: u64
  rt_pool_tag :: "bytes option"
  rt_coinbaser :: "CoinbaserBlob option"

definition runtime_new :: Runtime where
  "runtime_new = \<lparr>rt_accepted = 0, rt_rejected = 0, rt_pool_min = 0, rt_pool_tag = None, rt_coinbaser = None\<rparr>"

definition record_share_accepted :: "Runtime \<Rightarrow> Runtime" where
  "record_share_accepted r = r\<lparr>rt_accepted := rt_accepted r + 1\<rparr>"

definition record_share_rejected :: "Runtime \<Rightarrow> Runtime" where
  "record_share_rejected r = r\<lparr>rt_rejected := rt_rejected r + 1\<rparr>"

record Session =
  client_config_seen :: bool
  coinbaser_requested :: bool

definition new_session :: Session where
  "new_session = \<lparr>client_config_seen = False, coinbaser_requested = False\<rparr>"

definition maybe_request_coinbaser :: "libs \<Rightarrow> Template option option \<Rightarrow> bool \<Rightarrow> UpstreamCommand list" where
  "maybe_request_coinbaser X chan seen =
     (if \<not> seen then []
      else case chan of None \<Rightarrow> []
        | Some None \<Rightarrow> []
        | Some (Some template) \<Rightarrow>
            (case hex_decode X (previous_block_hash template) of None \<Rightarrow> []
             | Some prevhash_be \<Rightarrow> if length prevhash_be \<noteq> 32 then []
                 else [RequestCoinbaser (t_coinbase_value template) (rev prevhash_be)]))"

definition on_client_config ::
  "libs \<Rightarrow> Template option option \<Rightarrow> ClientConfig \<Rightarrow> Session \<times> Runtime \<Rightarrow> (Session \<times> Runtime) \<times> UpstreamCommand list" where
  "on_client_config X chan c sr =
     (case sr of (s, r) \<Rightarrow>
      let r1 = r\<lparr>rt_pool_min := vardiff_min c, rt_pool_tag := Some (take 86 (pool_coinbase_tag c))\<rparr>;
          s1 = s\<lparr>client_config_seen := True\<rparr>
      in if \<not> coinbaser_requested s1
         then ((s1\<lparr>coinbaser_requested := (\<exists>t. chan = Some (Some t))\<rparr>, r1), maybe_request_coinbaser X chan True)
         else ((s1, r1), []))"

definition on_coinbaser :: "CoinbaserResponse \<Rightarrow> Runtime \<Rightarrow> Runtime" where
  "on_coinbaser resp r =
     (case parse_v2_blob (v2_blob resp) (coinbase_value resp) of
        Inl e \<Rightarrow> r | Inr blob \<Rightarrow> r\<lparr>rt_coinbaser := Some blob\<rparr>)"

definition on_share_response :: "ShareResponse \<Rightarrow> Runtime \<Rightarrow> Runtime" where
  "on_share_response resp r =
     (case sr_status resp of
        Accepted \<Rightarrow> record_share_accepted r
      | AcceptedTentatively \<Rightarrow> record_share_accepted r
      | Rejected \<Rightarrow> record_share_rejected r)"

datatype session_event = Received UpstreamEvent | TemplateChanged | TemplateSenderDropped

definition session_step ::
  "libs \<Rightarrow> Template option option \<Rightarrow> session_event \<Rightarrow> Session \<times> Runtime \<Rightarrow> (Session \<times> Runtime) \<times> UpstreamCommand list" where
  "session_step X chan ev sr =
     (case sr of (s, r) \<Rightarrow>
      case ev of
        TemplateSenderDropped \<Rightarrow> (sr, [])
      | TemplateChanged \<Rightarrow>
          if client_config_seen s \<and> \<not> coinbaser_requested s
          then ((s\<lparr>coinbaser_requested := True\<rparr>, r), maybe_request_coinbaser X chan True)
          else (sr, [])
      | Received e \<Rightarrow>
          (case e of
             EvCoinbaser resp \<Rightarrow> ((s, on_coinbaser resp r), [])
           | EvClientConfig c \<Rightarrow> on_client_config X chan c sr
           | EvShareResponse resp \<Rightarrow> ((s, on_share_response resp r), [])
           | EvBlockNotify b \<Rightarrow> (sr, [])
           | JobValidationRequest b \<Rightarrow> (sr, [])
           | UnknownFrame p b \<Rightarrow> (sr, [])))"

text \<open>The inner loop over the events of one session, each with the template channel as it then is.\<close>

fun run_session ::
  "libs \<Rightarrow> Session \<times> Runtime \<Rightarrow> (Template option option \<times> session_event) list \<Rightarrow> (Session \<times> Runtime) \<times> UpstreamCommand list" where
  "run_session X sr [] = (sr, [])"
| "run_session X sr ((chan, ev) # evs) =
     (let (sr', cmds) = session_step X chan ev sr; (sr'', cmds') = run_session X sr' evs in (sr'', cmds @ cmds'))"

datatype attempt = ConnectFailed | Connected "(Template option option \<times> session_event) list"

text \<open>The tracker is the one that the session starts with; what the share relay makes of it while
  the session lasts is not this task's.\<close>

definition run_attempt ::
  "libs \<Rightarrow> attempt \<Rightarrow> Runtime \<times> JobTracker \<Rightarrow> (Runtime \<times> JobTracker) \<times> UpstreamCommand list" where
  "run_attempt X a st =
     (case st of (r, t) \<Rightarrow>
      case a of
        ConnectFailed \<Rightarrow> (st, [])
      | Connected evs \<Rightarrow>
          (let t' = reset_send_once_flags t; ((s, r'), cmds) = run_session X (new_session, r) evs
           in ((r'\<lparr>rt_pool_tag := None\<rparr>, t'), cmds)))"

section \<open>One request per session\<close>

lemma maybe_request_length: "length (maybe_request_coinbaser X chan seen) \<le> 1"
  by (simp add: maybe_request_coinbaser_def split: option.splits)

lemma maybe_request_some: "maybe_request_coinbaser X chan seen \<noteq> [] \<Longrightarrow> \<exists>t. chan = Some (Some t)"
  by (auto simp: maybe_request_coinbaser_def split: option.splits)

lemma session_step_requests:
  assumes "session_step X chan ev (s, r) = ((s', r'), cmds)"
  shows "length cmds \<le> 1" "coinbaser_requested s \<Longrightarrow> cmds = [] \<and> coinbaser_requested s'"
    "cmds \<noteq> [] \<Longrightarrow> coinbaser_requested s'"
proof -
  have "length cmds \<le> 1 \<and> (coinbaser_requested s \<longrightarrow> cmds = [] \<and> coinbaser_requested s') \<and> (cmds \<noteq> [] \<longrightarrow> coinbaser_requested s')"
    using assms maybe_request_length maybe_request_some [of X chan True]
    by (auto simp: session_step_def on_client_config_def Let_def split: session_event.splits UpstreamEvent.splits if_splits)
  then show "length cmds \<le> 1" "coinbaser_requested s \<Longrightarrow> cmds = [] \<and> coinbaser_requested s'"
    "cmds \<noteq> [] \<Longrightarrow> coinbaser_requested s'" by blast+
qed

lemma run_session_requests:
  "run_session X (s, r) evs = ((s', r'), cmds) \<Longrightarrow>
     length cmds \<le> 1 \<and> (coinbaser_requested s \<longrightarrow> cmds = []) \<and> (cmds \<noteq> [] \<longrightarrow> coinbaser_requested s')
     \<and> (coinbaser_requested s \<longrightarrow> coinbaser_requested s')"
proof (induction evs arbitrary: s r cmds)
  case (Cons a evs)
  obtain chan ev where a: "a = (chan, ev)" by fastforce
  obtain s1 r1 c1 where st: "session_step X chan ev (s, r) = ((s1, r1), c1)" by (metis surj_pair)
  obtain c2 where rest: "run_session X (s1, r1) evs = ((s', r'), c2)" "cmds = c1 @ c2"
    using Cons.prems by (auto simp: a st Let_def split: prod.splits)
  note h = session_step_requests [OF st] and i = Cons.IH [OF rest(1)]
  then show ?case by (cases "c1 = []") (auto simp: rest(2))
qed simp

lemma run_session_after_config:
  "\<lbrakk>run_session X (s, r) evs = ((s', r'), cmds); cmds \<noteq> []; \<not> client_config_seen s\<rbrakk> \<Longrightarrow>
     \<exists>chan c. (chan, Received (EvClientConfig c)) \<in> set evs"
proof (induction evs arbitrary: s r cmds)
  case (Cons a evs)
  obtain chan ev where a: "a = (chan, ev)" by fastforce
  obtain s1 r1 c1 where st: "session_step X chan ev (s, r) = ((s1, r1), c1)" by (metis surj_pair)
  obtain c2 where rest: "run_session X (s1, r1) evs = ((s', r'), c2)" "cmds = c1 @ c2"
    using Cons.prems(1) by (auto simp: a st Let_def split: prod.splits)
  show ?case
  proof (cases "\<exists>c. ev = Received (EvClientConfig c)")
    case True
    then show ?thesis by (auto simp: a)
  next
    case False
    then have "c1 = [] \<and> \<not> client_config_seen s1"
      using st Cons.prems(3) by (auto simp: session_step_def split: session_event.splits UpstreamEvent.splits)
    then show ?thesis using Cons.IH [OF rest(1)] Cons.prems(2) rest(2) by auto
  qed
qed simp

text \<open>A session asks the pool for a coinbaser at most once: whatever the events of the session
  and the templates on the channel, at most one request is enqueued, and only after the pool's
  client configuration has arrived.\<close>

theorem one_coinbaser_request_per_session:
  "case run_session X (new_session, r) evs of (sr, cmds) \<Rightarrow>
     length cmds \<le> 1 \<and> (cmds = [] \<or> (\<exists>chan c. (chan, Received (EvClientConfig c)) \<in> set evs))"
proof -
  obtain s' r' cmds where run: "run_session X (new_session, r) evs = ((s', r'), cmds)" by (metis surj_pair)
  show ?thesis
    unfolding run prod.case
    using run_session_requests [OF run] run_session_after_config [OF run] by (auto simp: new_session_def)
qed

section \<open>Outliving the template\<close>

lemma drive_keeps_outputs:
  assumes "drive_template X cfg tag (Some t) (Some blob) d = (d', Some st)"
  shows "coinbase_outputs st = outputs blob" "ts_coinbase_value st = t_coinbase_value t"
  using assms by (auto simp: drive_template_def Let_def from_template_and_blob_def case_prod_unfold)

text \<open>C39: The one coinbaser of a session outlives its template: once it was fetched, a template
  change fetches no new one, and a template whose coinbase value is smaller than the outputs of
  the held blob is still built into a job, whose coinbase then pays out more than the block may.\<close>

theorem stale_coinbaser_overspends:
  assumes "run_session X (new_session, r) [(Some (Some t0), Received (EvClientConfig c)), (Some (Some t0), Received (EvCoinbaser resp))]
      = ((s1, r1), cmds)"
    and "parse_v2_blob (v2_blob resp) (coinbase_value resp) = Ok blob"
    and "unat (t_coinbase_value t1) < total_sats (outputs blob)"
  shows "\<exists>d' st. run_session X (s1, r1) [(Some (Some t1), TemplateChanged)] = ((s1, r1), [])
    \<and> drive_template X cfg (rt_pool_tag r1) (Some t1) (rt_coinbaser r1) d = (d', Some st)
    \<and> unat (ts_coinbase_value st) < total_sats (coinbase_outputs st)"
proof -
  have s1: "client_config_seen s1" "coinbaser_requested s1" "rt_coinbaser r1 = Some blob"
    using assms(1,2) by (auto simp: session_step_def on_client_config_def new_session_def on_coinbaser_def Let_def split: prod.splits)
  obtain d' st where d: "drive_template X cfg (rt_pool_tag r1) (Some t1) (Some blob) d = (d', Some st)"
    by (simp add: drive_template_def Let_def)
  show ?thesis
    using drive_keeps_outputs [OF d] s1 d assms(3) by (simp add: session_step_def)
qed

section \<open>What a connection attempt leaves behind\<close>

fun last_config :: "(Template option option \<times> session_event) list \<Rightarrow> u64 \<Rightarrow> u64" where
  "last_config [] v = v"
| "last_config ((chan, ev) # evs) v = last_config evs (case ev of Received (EvClientConfig c) \<Rightarrow> vardiff_min c | _ \<Rightarrow> v)"

definition count_status :: "(ShareStatus \<Rightarrow> bool) \<Rightarrow> (Template option option \<times> session_event) list \<Rightarrow> nat" where
  "count_status P evs = length (filter (\<lambda>(chan, ev). case ev of Received (EvShareResponse q) \<Rightarrow> P (sr_status q) | _ \<Rightarrow> False) evs)"

lemma session_counts:
  "run_session X (s, r) evs = ((s', r'), cmds) \<Longrightarrow>
     rt_pool_min r' = last_config evs (rt_pool_min r)
     \<and> rt_accepted r' = rt_accepted r + of_nat (count_status (\<lambda>t. t \<noteq> Rejected) evs)
     \<and> rt_rejected r' = rt_rejected r + of_nat (count_status (\<lambda>t. t = Rejected) evs)"
proof (induction evs arbitrary: s r cmds)
  case Nil
  then show ?case by (simp add: count_status_def)
next
  case (Cons a evs)
  obtain chan ev where a: "a = (chan, ev)" by fastforce
  obtain s1 r1 c1 where st: "session_step X chan ev (s, r) = ((s1, r1), c1)" by (metis surj_pair)
  obtain c2 where rest: "run_session X (s1, r1) evs = ((s', r'), c2)"
    using Cons.prems by (auto simp: a st Let_def split: prod.splits)
  have "rt_pool_min r1 = (case ev of Received (EvClientConfig c) \<Rightarrow> vardiff_min c | _ \<Rightarrow> rt_pool_min r)"
    "rt_accepted r1 = rt_accepted r + of_nat (count_status (\<lambda>t. t \<noteq> Rejected) [a])"
    "rt_rejected r1 = rt_rejected r + of_nat (count_status (\<lambda>t. t = Rejected) [a])"
    using st by (auto simp: a session_step_def on_client_config_def on_coinbaser_def on_share_response_def Let_def
        record_share_accepted_def record_share_rejected_def count_status_def
        split: session_event.splits UpstreamEvent.splits if_splits sum.splits ShareStatus.splits)
  moreover have "count_status P (a # evs) = count_status P [a] + count_status P evs" for P
    by (simp add: count_status_def)
  ultimately show ?case using Cons.IH [OF rest] by (simp add: a)
qed

text \<open>What a connection changes: the session starts with every send-once flag and sentinel
  clear, so that the first share of each job carries its blocks again; when it ends the pool tag
  override is gone, while the pool's minimum difficulty stays that of the last client
  configuration (it is not reset on disconnect), and the share counters have grown by exactly
  the accepted (tentatively or not) and the rejected responses.\<close>

theorem attempt_effects:
  "case run_attempt X (Connected evs) (r, t) of ((r', t'), cmds) \<Rightarrow>
     rt_pool_tag r' = None \<and> t' = reset_send_once_flags t \<and> rt_pool_min r' = last_config evs (rt_pool_min r)
     \<and> rt_accepted r' = rt_accepted r + of_nat (count_status (\<lambda>s. s \<noteq> Rejected) evs)
     \<and> rt_rejected r' = rt_rejected r + of_nat (count_status (\<lambda>s. s = Rejected) evs)"
proof -
  obtain s' r' cmds where run: "run_session X (new_session, r) evs = ((s', r'), cmds)" by (metis surj_pair)
  show ?thesis using session_counts [OF run] by (simp add: run_attempt_def run)
qed

text \<open>The witness: a blob of one output of 60 satoshis, fetched for a coinbase of 100, and a later
  template worth 59.\<close>

definition sample_response :: CoinbaserResponse where
  "sample_response = \<lparr>coinbase_value = 100, v2_blob = sample_wire\<rparr>"

definition plain_config :: ClientConfig where
  "plain_config = \<lparr>pool_scriptsig = [], prime_id = 0, pool_coinbase_tag = [], vardiff_min = 1\<rparr>"

definition small_template :: Template where
  "small_template = sample_template\<lparr>t_coinbase_value := 59\<rparr>"

theorem stale_coinbaser_overspends_witness:
  "\<exists>s1 r1 d' st. run_session plain_libs (s1, r1) [(Some (Some small_template), TemplateChanged)] = ((s1, r1), [])
    \<and> drive_template plain_libs \<lparr>cfg_tag_primary = [], cfg_tag_secondary = [], cfg_unique_id = 1\<rparr> (rt_pool_tag r1)
        (Some small_template) (rt_coinbaser r1) new_driver = (d', Some st)
    \<and> unat (ts_coinbase_value st) < total_sats (coinbase_outputs st)"
proof -
  obtain s1 r1 cmds where run: "run_session plain_libs (new_session, runtime_new) [(Some (Some sample_template), Received (EvClientConfig plain_config)),
     (Some (Some sample_template), Received (EvCoinbaser sample_response))] = ((s1, r1), cmds)" by (metis surj_pair)
  let ?b = "sample_blob\<lparr>outputs := [\<lparr>value_sats = 60, script_pubkey = [0x76, 1]\<rparr>]\<rparr>"
  have p: "parse_v2_blob (v2_blob sample_response) (coinbase_value sample_response) = Ok ?b"
    using sample_parsed by (simp add: sample_response_def)
  have "unat (t_coinbase_value small_template) < total_sats (outputs ?b)"
    by (simp add: small_template_def total_sats_def)
  from stale_coinbaser_overspends [OF run p this] show ?thesis by blast
qed

section \<open>The coinbaser arrives\<close>

definition is_config :: "session_event \<Rightarrow> bool" where
  "is_config ev = (case ev of Received (EvClientConfig c) \<Rightarrow> True | _ \<Rightarrow> False)"

lemma run_session_append:
  "run_session X sr (evs @ evs') =
     (let (sr1, c1) = run_session X sr evs; (sr2, c2) = run_session X sr1 evs' in (sr2, c1 @ c2))"
  by (induction evs arbitrary: sr) (auto simp: Let_def split: prod.splits)

lemma before_config:
  "\<lbrakk>list_all (\<lambda>(chan, ev). \<not> is_config ev) evs; \<not> client_config_seen s; \<not> coinbaser_requested s;
    run_session X (s, r) evs = ((s', r'), cmds)\<rbrakk> \<Longrightarrow> cmds = [] \<and> \<not> client_config_seen s' \<and> \<not> coinbaser_requested s'"
proof (induction evs arbitrary: s r cmds)
  case (Cons a evs)
  obtain chan ev where a: "a = (chan, ev)" by fastforce
  obtain s1 r1 c1 where st: "session_step X chan ev (s, r) = ((s1, r1), c1)" by (metis surj_pair)
  obtain c2 where rest: "run_session X (s1, r1) evs = ((s', r'), c2)" "cmds = c1 @ c2"
    using Cons.prems(4) by (auto simp: a st Let_def split: prod.splits)
  have "c1 = [] \<and> \<not> client_config_seen s1 \<and> \<not> coinbaser_requested s1"
    using st Cons.prems(1-3) by (auto simp: a is_config_def session_step_def split: session_event.splits UpstreamEvent.splits)
  then show ?case using Cons.IH [OF _ _ _ rest(1)] Cons.prems(1) rest(2) by simp
qed simp

lemma coinbaser_stays:
  "\<lbrakk>run_session X (s, r) evs = ((s', r'), cmds); rt_coinbaser r \<noteq> None\<rbrakk> \<Longrightarrow> rt_coinbaser r' \<noteq> None"
proof (induction evs arbitrary: s r cmds)
  case (Cons a evs)
  obtain chan ev where a: "a = (chan, ev)" by fastforce
  obtain s1 r1 c1 where st: "session_step X chan ev (s, r) = ((s1, r1), c1)" by (metis surj_pair)
  obtain c2 where rest: "run_session X (s1, r1) evs = ((s', r'), c2)"
    using Cons.prems(1) by (auto simp: a st Let_def split: prod.splits)
  have "rt_coinbaser r1 \<noteq> None"
    using st Cons.prems(2)
    by (auto simp: session_step_def on_client_config_def on_coinbaser_def on_share_response_def Let_def
        record_share_accepted_def record_share_rejected_def
        split: session_event.splits UpstreamEvent.splits if_splits sum.splits ShareStatus.splits)
  then show ?case using Cons.IH [OF rest] by simp
qed simp

lemma coinbaser_kept:
  assumes "run_session X (s, r) evs = ((s', r'), cmds)" "(chan, Received (EvCoinbaser resp)) \<in> set evs"
    and "parse_v2_blob (v2_blob resp) (coinbase_value resp) = Ok blob"
  shows "rt_coinbaser r' \<noteq> None"
proof -
  obtain pre post where e: "evs = pre @ (chan, Received (EvCoinbaser resp)) # post" using assms(2) by (meson split_list)
  obtain s1 r1 c1 where p: "run_session X (s, r) pre = ((s1, r1), c1)" by (metis surj_pair)
  obtain c2 where q: "run_session X (s1, r1\<lparr>rt_coinbaser := Some blob\<rparr>) post = ((s', r'), c2)"
    using assms(1,3) by (auto simp: e run_session_append p session_step_def on_coinbaser_def Let_def split: prod.splits)
  show ?thesis by (rule coinbaser_stays [OF q]) simp
qed

text \<open>C27: Every session gets to work: if the pool's first client configuration finds a template whose
  previous block hash is 32 bytes of hex, the session enqueues exactly one coinbaser request, for
  that template's value and its hash in wire order; and once the pool has answered it with a blob
  that parses, the gateway holds a coinbaser until the session ends, whatever else arrives, and
  every template is built into a job state.\<close>

theorem coinbaser_is_fetched:
  assumes "list_all (\<lambda>(chan, ev). \<not> is_config ev) pre"
    and "hex_decode X (previous_block_hash t) = Some ph" "length ph = 32"
    and "run_session X (new_session, r) (pre @ (Some (Some t), Received (EvClientConfig c)) # rest) = ((s', r'), cmds)"
  shows "cmds = [RequestCoinbaser (t_coinbase_value t) (rev ph)]
    \<and> ((\<exists>chan resp blob. (chan, Received (EvCoinbaser resp)) \<in> set rest \<and> parse_v2_blob (v2_blob resp) (coinbase_value resp) = Ok blob)
        \<longrightarrow> (\<forall>cfg t' d. snd (drive_template X cfg (rt_pool_tag r') (Some t') (rt_coinbaser r') d) \<noteq> None))"
proof -
  obtain s1 r1 c1 where p: "run_session X (new_session, r) pre = ((s1, r1), c1)" by (metis surj_pair)
  have b: "c1 = []" "\<not> coinbaser_requested s1"
    using before_config [OF assms(1) _ _ p] by (simp_all add: new_session_def)
  obtain s2 r2 where st: "session_step X (Some (Some t)) (Received (EvClientConfig c)) (s1, r1)
      = ((s2, r2), [RequestCoinbaser (t_coinbase_value t) (rev ph)])" "coinbaser_requested s2"
    using b(2) assms(2,3) by (simp add: session_step_def on_client_config_def maybe_request_coinbaser_def Let_def)
  obtain c2 where rest: "run_session X (s2, r2) rest = ((s', r'), c2)" "cmds = RequestCoinbaser (t_coinbase_value t) (rev ph) # c2"
    using assms(4) by (auto simp: run_session_append p st b(1) Let_def split: prod.splits)
  have "c2 = []" using run_session_requests [OF rest(1)] st(2) by simp
  moreover have "snd (drive_template X cfg (rt_pool_tag r') (Some t') (rt_coinbaser r') d) \<noteq> None"
    if "(chan, Received (EvCoinbaser resp)) \<in> set rest" "parse_v2_blob (v2_blob resp) (coinbase_value resp) = Ok blob" for chan resp blob cfg t' d
    using coinbaser_kept [OF rest(1) that] by (auto simp: drive_template_def Let_def)
  ultimately show ?thesis using rest(2) by blast
qed

theorem coinbaser_is_fetched_witness:
  "\<exists>s' r' cmds. run_session plain_libs (new_session, runtime_new)
      [(Some (Some sample_template), Received (EvClientConfig plain_config)), (Some None, Received (EvCoinbaser sample_response))] = ((s', r'), cmds)
    \<and> cmds = [RequestCoinbaser (t_coinbase_value sample_template) (replicate 32 0)]
    \<and> snd (drive_template plain_libs \<lparr>cfg_tag_primary = [], cfg_tag_secondary = [], cfg_unique_id = 1\<rparr> (rt_pool_tag r')
        (Some sample_template) (rt_coinbaser r') new_driver) \<noteq> None"
proof -
  let ?rest = "[(Some None :: Template option option, Received (EvCoinbaser sample_response))]"
  obtain s' r' cmds where run: "run_session plain_libs (new_session, runtime_new)
      ([] @ (Some (Some sample_template), Received (EvClientConfig plain_config)) # ?rest) = ((s', r'), cmds)"
    by (metis surj_pair)
  have h: "hex_decode plain_libs (previous_block_hash sample_template) = Some (replicate 32 0)"
  proof -
    have "hex_of_byte 0 = ''00''" by (simp add: hex_of_byte_def digit_def hex_digits_def)
    then have "ref_hex_encode (replicate n 0) = replicate (2 * n) CHR ''0''" for n
      by (induction n) (simp_all add: ref_hex_encode_def)
    from this [of 32] have "previous_block_hash sample_template = ref_hex_encode (replicate 32 0)"
      by (simp add: sample_template_def)
    then show ?thesis using hex_lawsD(6) [OF plain_libs_laws(1), of "replicate 32 0"] by simp
  qed
  have "parse_v2_blob (v2_blob sample_response) (coinbase_value sample_response)
      = Ok (sample_blob\<lparr>outputs := [\<lparr>value_sats = 60, script_pubkey = [0x76, 1]\<rparr>]\<rparr>)"
    using sample_parsed by (simp add: sample_response_def)
  moreover have "(Some None, Received (EvCoinbaser sample_response)) \<in> set ?rest" by simp
  ultimately have ex: "\<exists>chan resp blob. (chan, Received (EvCoinbaser resp)) \<in> set ?rest \<and> parse_v2_blob (v2_blob resp) (coinbase_value resp) = Ok blob"
    by blast
  have l: "list_all (\<lambda>(chan, ev). \<not> is_config ev) []" "length (replicate 32 (0 :: byte)) = 32" "rev (replicate 32 (0 :: byte)) = replicate 32 0"
    by simp_all
  note c = coinbaser_is_fetched [OF l(1) h l(2) run]
  have c1: "cmds = [RequestCoinbaser (t_coinbase_value sample_template) (replicate 32 0)]"
    using c [THEN conjunct1] unfolding l(3) .
  have c2: "snd (drive_template plain_libs \<lparr>cfg_tag_primary = [], cfg_tag_secondary = [], cfg_unique_id = 1\<rparr> (rt_pool_tag r')
        (Some sample_template) (rt_coinbaser r') new_driver) \<noteq> None"
    using c [THEN conjunct2, THEN mp, OF ex] by (elim allE)
  show ?thesis
    by (rule exI [of _ s'], rule exI [of _ r'], rule exI [of _ cmds], intro conjI, rule run [unfolded append_Nil], rule c1, rule c2)
qed

end
