(* ===== verification/Floats.thy ===== *)
theory Floats
  imports Prelude Complex_Main
begin

text \<open>
  The values of \<open>f32\<close> and \<open>f64\<close> as the program compares and adds them: not a number, the two
  infinities, and the finite values as rationals (the two zeros compare equal and are one value
  here).  A cast from \<open>f32\<close> to \<open>f64\<close> keeps the value; the sum of two \<open>f64\<close> values is
  rounded to the nearest value, ties to the even significand.
\<close>

datatype fl = NaN | Inf bool | Fin rat

definition fl_is_finite :: "fl \<Rightarrow> bool" where
  "fl_is_finite x = (case x of Fin q \<Rightarrow> True | _ \<Rightarrow> False)"

fun fl_lt :: "fl \<Rightarrow> fl \<Rightarrow> bool" where
  "fl_lt (Fin a) (Fin b) = (a < b)"
| "fl_lt (Fin a) (Inf pos) = pos"
| "fl_lt (Inf pos) (Fin b) = (\<not> pos)"
| "fl_lt (Inf p) (Inf q) = (\<not> p \<and> q)"
| "fl_lt NaN y = False"
| "fl_lt x NaN = False"

fun fl_le :: "fl \<Rightarrow> fl \<Rightarrow> bool" where
  "fl_le (Fin a) (Fin b) = (a \<le> b)"
| "fl_le (Fin a) (Inf pos) = pos"
| "fl_le (Inf pos) (Fin b) = (\<not> pos)"
| "fl_le (Inf p) (Inf q) = (p \<longrightarrow> q)"
| "fl_le NaN y = False"
| "fl_le x NaN = False"

lemma fl_is_finite_iff [simp]: "fl_is_finite x \<longleftrightarrow> (\<exists>q. x = Fin q)"
  by (simp add: fl_is_finite_def split: fl.splits)

lemma fl_lt_Fin: "fl_is_finite x \<Longrightarrow> fl_lt x y \<Longrightarrow> \<not> fl_le y x"
  by (cases y) auto

section \<open>Rounding to f64\<close>

text \<open>The exponent of a positive rational: \<open>2 ^ e \<le> q < 2 ^ (e + 1)\<close>.\<close>

fun bits_of_nat :: "nat \<Rightarrow> nat" where
  "bits_of_nat n = (if n = 0 then 0 else Suc (bits_of_nat (n div 2)))"

declare bits_of_nat.simps [simp del]

definition pow2 :: "int \<Rightarrow> rat" where
  "pow2 e = (if 0 \<le> e then 2 ^ nat e else 1 / 2 ^ nat (- e))"

definition exponent :: "rat \<Rightarrow> int" where
  "exponent q =
     (let (n, d) = quotient_of q; e = int (bits_of_nat (nat n)) - int (bits_of_nat (nat d))
      in if pow2 e \<le> q then e else e - 1)"

definition round_half_even :: "rat \<Rightarrow> int" where
  "round_half_even q =
     (let n = \<lfloor>q\<rfloor>; r = q - of_int n
      in if r < 1 / 2 then n else if 1 / 2 < r then n + 1 else if even n then n else n + 1)"

definition f64_round :: "rat \<Rightarrow> fl" where
  "f64_round q =
     (if q = 0 then Fin 0
      else let ulp = pow2 (max (exponent \<bar>q\<bar>) (- 1022) - 52);
               r = of_int (round_half_even (\<bar>q\<bar> / ulp)) * ulp
           in if 2 ^ 1024 \<le> r then Inf (0 < q) else Fin (sgn q * r))"

fun f64_add :: "fl \<Rightarrow> fl \<Rightarrow> fl" where
  "f64_add (Fin a) (Fin b) = f64_round (a + b)"
| "f64_add (Fin a) (Inf p) = Inf p"
| "f64_add (Inf p) (Fin b) = Inf p"
| "f64_add (Inf p) (Inf q) = (if p = q then Inf p else NaN)"
| "f64_add NaN y = NaN"
| "f64_add x NaN = NaN"

definition f64_neg :: "fl \<Rightarrow> fl" where
  "f64_neg x = (case x of NaN \<Rightarrow> NaN | Inf p \<Rightarrow> Inf (\<not> p) | Fin q \<Rightarrow> Fin (- q))"

definition f64_sub :: "fl \<Rightarrow> fl \<Rightarrow> fl" where "f64_sub x y = f64_add x (f64_neg y)"

definition f64_abs :: "fl \<Rightarrow> fl" where
  "f64_abs x = (case x of NaN \<Rightarrow> NaN | Inf p \<Rightarrow> Inf True | Fin q \<Rightarrow> Fin \<bar>q\<bar>)"

definition f64_sum :: "fl list \<Rightarrow> fl" where "f64_sum xs = foldl f64_add (Fin 0) xs"

section \<open>The rounding error\<close>

lemma pow2_pos [simp]: "0 < pow2 e"
  by (simp add: pow2_def)

lemma round_half_even_error: "\<bar>of_int (round_half_even q) - q\<bar> \<le> 1 / 2"
proof -
  have "0 \<le> q - of_int \<lfloor>q\<rfloor>" "q - of_int \<lfloor>q\<rfloor> < 1" by linarith+
  then show ?thesis by (auto simp: round_half_even_def Let_def)
qed

text \<open>A finite rounded value differs from the exact one by at most half a unit in the last place.\<close>

lemma f64_round_error:
  assumes "f64_round q = Fin r"
  shows "\<bar>r - q\<bar> \<le> pow2 (max (exponent \<bar>q\<bar>) (- 1022) - 52) / 2"
proof (cases "q = 0")
  case True
  then show ?thesis using assms pow2_pos [of "max (exponent 0) (- 1022) - 52"] by (simp add: f64_round_def less_imp_le)
next
  case False
  define u where "u = pow2 (max (exponent \<bar>q\<bar>) (- 1022) - 52)"
  define n where "n = (of_int (round_half_even (\<bar>q\<bar> / u)) :: rat)"
  have u: "0 < u" by (simp add: u_def)
  have r: "r = sgn q * (n * u)" using assms False by (auto simp: f64_round_def u_def n_def Let_def split: if_splits)
  have "q = sgn q * \<bar>q\<bar>" by (simp add: sgn_mult_abs)
  then have "r - q = sgn q * (n * u - \<bar>q\<bar>)" by (metis r right_diff_distrib)
  then have "\<bar>r - q\<bar> = \<bar>n * u - \<bar>q\<bar>\<bar>" using False by (simp add: abs_mult abs_sgn_eq)
  also have "n * u - \<bar>q\<bar> = (n - \<bar>q\<bar> / u) * u" using u by (simp add: left_diff_distrib)
  also have "\<bar>(n - \<bar>q\<bar> / u) * u\<bar> \<le> 1 / 2 * u"
    unfolding abs_mult using u round_half_even_error [of "\<bar>q\<bar> / u"] by (intro mult_mono) (simp_all add: n_def)
  finally show ?thesis by (simp add: u_def)
qed

end
