(* ===== verification/Config.thy ===== *)
theory Config
  imports Floats Template
begin

text \<open>
  The configuration of the gateway (crate datum-config): the sections of
  \<open>sections.rs\<close> as records with their defaults, and the validation of \<open>validate.rs\<close>, which
  collects every violated rule.  Strings and paths are their UTF-8 bytes, an \<open>i32\<close> is a 32-bit
  word read with \<open>sint\<close>, and a \<open>BTreeMap\<close> is the list of its entries in key order.  The JSON
  reader is a parameter (crate serde_json).
\<close>

unbundle bit_operations_syntax

type_synonym i32 = "32 word"
type_synonym i64 = "64 word"

section \<open>The sections\<close>

record BitcoindConfig =
  rpccookiefile :: bytes
  rpcuser :: bytes
  rpcpassword :: bytes
  rpcurl :: bytes
  work_update_seconds :: i32
  notify_fallback :: bool

definition default_bitcoind :: BitcoindConfig where
  "default_bitcoind = \<lparr>rpccookiefile = [], rpcuser = [], rpcpassword = [], rpcurl = [],
     work_update_seconds = 40, notify_fallback = True\<rparr>"

type_synonym UsernameModifier = "(bytes \<times> fl) list"

record StratumConfig =
  st_listen_addr :: bytes
  st_listen_port :: u16
  max_clients :: i32
  max_threads :: i32
  max_clients_per_thread :: i32
  trust_proxy :: i32
  st_vardiff_min :: u64
  vardiff_target_shares_min :: i32
  vardiff_quickdiff_count :: i32
  vardiff_quickdiff_delta :: i32
  share_stale_seconds :: i32
  fingerprint_miners :: bool
  idle_timeout_no_subscribe :: i32
  idle_timeout_no_shares :: i32
  idle_timeout_max_last_work :: i32
  username_modifiers :: "(bytes \<times> UsernameModifier) list"

definition DEFAULT_STRATUM_LISTEN_PORT :: u16 where "DEFAULT_STRATUM_LISTEN_PORT = 23334"

definition default_stratum :: StratumConfig where
  "default_stratum = \<lparr>st_listen_addr = [], st_listen_port = DEFAULT_STRATUM_LISTEN_PORT, max_clients = 1024,
     max_threads = 8, max_clients_per_thread = 128, trust_proxy = - 1, st_vardiff_min = 16384,
     vardiff_target_shares_min = 8, vardiff_quickdiff_count = 8, vardiff_quickdiff_delta = 8,
     share_stale_seconds = 120, fingerprint_miners = True, idle_timeout_no_subscribe = 15,
     idle_timeout_no_shares = 7200, idle_timeout_max_last_work = 0, username_modifiers = []\<rparr>"

record StratumV2Config =
  v2_enabled :: bool
  v2_listen_addr :: bytes
  v2_listen_port :: u16
  authority_pubkey_path :: bytes
  authority_secret_path :: bytes
  cert_validity_sec :: u32
  min_hashrate_threshold :: fl
  expected_share_per_minute :: fl

definition DEFAULT_STRATUM_V2_LISTEN_ADDR :: bytes where "DEFAULT_STRATUM_V2_LISTEN_ADDR = ascii ''0.0.0.0''"
definition DEFAULT_STRATUM_V2_LISTEN_PORT :: u16 where "DEFAULT_STRATUM_V2_LISTEN_PORT = 23335"
definition DEFAULT_STRATUM_V2_CERT_VALIDITY_SEC :: u32 where "DEFAULT_STRATUM_V2_CERT_VALIDITY_SEC = 3600"
definition STRATUM_V2_CERT_VALIDITY_SEC_HARD_CAP :: u32 where "STRATUM_V2_CERT_VALIDITY_SEC_HARD_CAP = 31536000"
definition DEFAULT_STRATUM_V2_MIN_HASHRATE_THRESHOLD :: fl where
  "DEFAULT_STRATUM_V2_MIN_HASHRATE_THRESHOLD = Fin (10 ^ 12)"
definition DEFAULT_STRATUM_V2_EXPECTED_SHARE_PER_MINUTE :: fl where
  "DEFAULT_STRATUM_V2_EXPECTED_SHARE_PER_MINUTE = Fin 6"
definition STRATUM_V2_EXPECTED_SHARE_PER_MINUTE_MAX :: fl where
  "STRATUM_V2_EXPECTED_SHARE_PER_MINUTE_MAX = Fin 10000"

definition default_stratum_v2 :: StratumV2Config where
  "default_stratum_v2 = \<lparr>v2_enabled = False, v2_listen_addr = DEFAULT_STRATUM_V2_LISTEN_ADDR,
     v2_listen_port = DEFAULT_STRATUM_V2_LISTEN_PORT, authority_pubkey_path = [], authority_secret_path = [],
     cert_validity_sec = DEFAULT_STRATUM_V2_CERT_VALIDITY_SEC,
     min_hashrate_threshold = DEFAULT_STRATUM_V2_MIN_HASHRATE_THRESHOLD,
     expected_share_per_minute = DEFAULT_STRATUM_V2_EXPECTED_SHARE_PER_MINUTE\<rparr>"

definition is_active :: "StratumV2Config \<Rightarrow> bool" where
  "is_active s \<longleftrightarrow> v2_enabled s \<and> authority_pubkey_path s \<noteq> [] \<and> authority_secret_path s \<noteq> []"

record MiningConfig =
  mc_pool_address :: bytes
  mc_coinbase_tag_primary :: bytes
  mc_coinbase_tag_secondary :: bytes
  mc_coinbase_unique_id :: u32
  save_submitblocks_dir :: bytes

definition default_mining :: MiningConfig where
  "default_mining = \<lparr>mc_pool_address = [], mc_coinbase_tag_primary = ascii ''DATUM Gateway'',
     mc_coinbase_tag_secondary = ascii ''DATUM User'', mc_coinbase_unique_id = 4242, save_submitblocks_dir = []\<rparr>"

record ApiConfig =
  admin_password :: bytes
  allow_insecure_auth :: bool
  api_listen_addr :: bytes
  api_listen_port :: u16
  modify_conf :: bool

definition DEFAULT_API_LISTEN_PORT :: u16 where "DEFAULT_API_LISTEN_PORT = 0"

text \<open>Derived: every field at the default of its type.\<close>

definition default_api :: ApiConfig where
  "default_api = \<lparr>admin_password = [], allow_insecure_auth = False, api_listen_addr = [], api_listen_port = 0,
     modify_conf = False\<rparr>"

record LoggerConfig =
  log_to_console :: bool
  log_to_stderr :: bool
  log_to_file :: bool
  log_file :: bytes
  log_rotate_daily :: bool
  log_calling_function :: bool
  log_level_console :: i32
  log_level_file :: i32

definition default_logger :: LoggerConfig where
  "default_logger = \<lparr>log_to_console = True, log_to_stderr = False, log_to_file = False, log_file = [],
     log_rotate_daily = True, log_calling_function = True, log_level_console = 2, log_level_file = 1\<rparr>"

record DatumConfig =
  dc_pool_host :: bytes
  dc_pool_port :: u16
  dc_pool_pubkey :: bytes
  pool_pass_workers :: bool
  pool_pass_full_users :: bool
  always_pay_self :: bool
  pooled_mining_only :: bool
  protocol_global_timeout :: i32

definition DEFAULT_OCEAN_POOL_HOST :: bytes where "DEFAULT_OCEAN_POOL_HOST = ascii ''datum-beta1.mine.ocean.xyz''"
definition DEFAULT_OCEAN_POOL_PORT :: u16 where "DEFAULT_OCEAN_POOL_PORT = 28915"
definition DEFAULT_OCEAN_POOL_PUBKEY :: bytes where
  "DEFAULT_OCEAN_POOL_PUBKEY = ascii (''f21f2f0ef0aa1970468f22bad9bb7f4535146f8e4a8f646bebc93da3d89b1406''
     @ ''f40d032f09a417d94dc068055df654937922d2c89522e3e8f6f0e649de473003'')"

definition default_datum :: DatumConfig where
  "default_datum = \<lparr>dc_pool_host = DEFAULT_OCEAN_POOL_HOST, dc_pool_port = DEFAULT_OCEAN_POOL_PORT,
     dc_pool_pubkey = DEFAULT_OCEAN_POOL_PUBKEY, pool_pass_workers = True, pool_pass_full_users = True,
     always_pay_self = True, pooled_mining_only = True, protocol_global_timeout = 60\<rparr>"

record Config =
  c_bitcoind :: BitcoindConfig
  c_stratum :: StratumConfig
  c_stratum_v2 :: StratumV2Config
  c_mining :: MiningConfig
  c_api :: ApiConfig
  c_extra_urls :: "bytes list" \<comment> \<open>\<open>extra_block_submissions.urls\<close>\<close>
  c_logger :: LoggerConfig
  c_datum :: DatumConfig

definition example_config :: Config where
  "example_config = \<lparr>c_bitcoind = default_bitcoind, c_stratum = default_stratum, c_stratum_v2 = default_stratum_v2,
     c_mining = default_mining, c_api = default_api, c_extra_urls = [], c_logger = default_logger,
     c_datum = default_datum\<rparr>"

section \<open>Reading a file\<close>

text \<open>\<open>json\<close> is the deserializer, \<open>file\<close> the outcome of reading the path.\<close>

datatype ('i, 'j) ConfigError = ReadError 'i | ParseError 'j

definition from_json_str :: "(bytes \<Rightarrow> 'j + Config) \<Rightarrow> bytes \<Rightarrow> ('i, 'j) ConfigError + Config" where
  "from_json_str json s = map_err ParseError (json s)"

definition from_file :: "(bytes \<Rightarrow> 'j + Config) \<Rightarrow> 'i + bytes \<Rightarrow> ('i, 'j) ConfigError + Config" where
  "from_file json file = and_then (map_err ReadError file) (\<lambda>s. from_json_str json s)"

section \<open>Validation\<close>

definition COINBASE_TAGS_COMBINED_MAX :: nat where "COINBASE_TAGS_COMBINED_MAX = 88"
definition COINBASE_TAG_INDIVIDUAL_MAX :: nat where "COINBASE_TAG_INDIVIDUAL_MAX = 60"
definition MAX_EXTRA_BLOCK_SUBMIT_URLS :: nat where "MAX_EXTRA_BLOCK_SUBMIT_URLS = 32"
definition MAX_EXTRA_BLOCK_SUBMIT_URL_LEN :: nat where "MAX_EXTRA_BLOCK_SUBMIT_URL_LEN = 512"

datatype ValidationError =
    BitcoindMissingCredentials
  | BitcoindRpcUserMissingPassword
  | BitcoindRpcUrlEmpty
  | BitcoindWorkUpdateSecondsOutOfRange i32
  | StratumMaxThreadsTooHigh i32
  | StratumMaxClientsPerThreadTooHigh i32
  | StratumMaxClientsExceedsCap i32 i32 i32 i64
  | StratumVardiffMinTooLow u64
  | StratumVardiffMinNotPowerOfTwo u64 u64
  | StratumVardiffTargetSharesMinTooLow i32
  | StratumVardiffQuickdiffCountTooLow i32
  | StratumVardiffQuickdiffDeltaTooLow i32
  | StratumShareStaleSecondsOutOfRange i32
  | StratumUsernameModifierProportions bytes fl
  | MiningCoinbaseTagPrimaryTooLong nat
  | MiningCoinbaseTagSecondaryTooLong nat
  | MiningCoinbaseTagsCombinedTooLong nat
  | MiningPoolAddressEmpty
  | ExtraBlockSubmitTooManyUrls nat
  | ExtraBlockSubmitUrlTooLong nat nat
  | DatumProtocolTimeoutTooLow i32 i32
  | DatumPooledMiningWithoutHost
  | DatumPoolPubkeyBadLength nat
  | DatumPoolPubkeyNotHex
  | LoggerFileWithoutPath
  | LoggerLevelConsoleOutOfRange i32
  | LoggerLevelFileOutOfRange i32
  | StratumV2CertValiditySecTooLarge u32
  | StratumV2EnabledWithoutAuthorityPubkey
  | StratumV2EnabledWithoutAuthoritySecret
  | StratumV2MinHashrateThresholdInvalid fl
  | StratumV2ExpectedSharePerMinuteInvalid fl

text \<open>A validator is the errors that it pushes.\<close>

definition push_if :: "bool \<Rightarrow> ValidationError \<Rightarrow> ValidationError list" where
  "push_if b e = (if b then [e] else [])"

lemma set_push_if [simp]: "set (push_if b e) = (if b then {e} else {})" "push_if b e = [] \<longleftrightarrow> \<not> b"
  by (simp_all add: push_if_def)

definition validate_bitcoind :: "Config \<Rightarrow> ValidationError list" where
  "validate_bitcoind c =
     (let b = c_bitcoind c; has_cookie = rpccookiefile b \<noteq> []; has_user = rpcuser b \<noteq> [];
          has_pass = rpcpassword b \<noteq> []
      in (if \<not> has_cookie \<and> \<not> has_user \<and> \<not> has_pass then [BitcoindMissingCredentials]
          else push_if (has_user \<and> \<not> has_pass) BitcoindRpcUserMissingPassword)
         @ push_if (rpcurl b = []) BitcoindRpcUrlEmpty
         @ push_if (\<not> (5 \<le> sint (work_update_seconds b) \<and> sint (work_update_seconds b) \<le> 120))
             (BitcoindWorkUpdateSecondsOutOfRange (work_update_seconds b)))"

definition is_power_of_two :: "u64 \<Rightarrow> bool" where
  "is_power_of_two n \<longleftrightarrow> list_ex (\<lambda>k. n = push_bit k 1) [0..<64]"

definition prev_power_of_two :: "u64 \<Rightarrow> u64" where
  "prev_power_of_two n = (if n = 0 then 0 else push_bit (63 - leading_zeros n) 1)"

definition client_cap :: "StratumConfig \<Rightarrow> i64" where
  "client_cap s = scast (max_threads s) * scast (max_clients_per_thread s)"

text \<open>\<open>1e-6\<close> as an \<open>f64\<close>.\<close>

definition proportion_eps :: fl where "proportion_eps = f64_round (1 / 10 ^ 6)"

definition modifier_sum :: "UsernameModifier \<Rightarrow> fl" where "modifier_sum m = f64_sum (map snd m)"

definition bad_proportions :: "fl \<Rightarrow> bool" where
  "bad_proportions x = fl_lt proportion_eps (f64_abs (f64_sub x (Fin 1)))"

definition validate_stratum :: "Config \<Rightarrow> ValidationError list" where
  "validate_stratum c =
     (let s = c_stratum c; cap = client_cap s
      in push_if (256 < sint (max_threads s)) (StratumMaxThreadsTooHigh (max_threads s))
         @ push_if (1024 < sint (max_clients_per_thread s)) (StratumMaxClientsPerThreadTooHigh (max_clients_per_thread s))
         @ push_if (sint cap < sint (scast (max_clients s) :: i64))
             (StratumMaxClientsExceedsCap (max_clients s) (max_threads s) (max_clients_per_thread s) cap)
         @ (if st_vardiff_min s < 1 then [StratumVardiffMinTooLow (st_vardiff_min s)]
            else push_if (\<not> is_power_of_two (st_vardiff_min s))
              (StratumVardiffMinNotPowerOfTwo (st_vardiff_min s) (prev_power_of_two (st_vardiff_min s))))
         @ push_if (sint (vardiff_target_shares_min s) < 1) (StratumVardiffTargetSharesMinTooLow (vardiff_target_shares_min s))
         @ push_if (sint (vardiff_quickdiff_count s) < 4) (StratumVardiffQuickdiffCountTooLow (vardiff_quickdiff_count s))
         @ push_if (sint (vardiff_quickdiff_delta s) < 3) (StratumVardiffQuickdiffDeltaTooLow (vardiff_quickdiff_delta s))
         @ push_if (\<not> (60 \<le> sint (share_stale_seconds s) \<and> sint (share_stale_seconds s) \<le> 150))
             (StratumShareStaleSecondsOutOfRange (share_stale_seconds s))
         @ concat (map (\<lambda>(name, m). push_if (bad_proportions (modifier_sum m))
             (StratumUsernameModifierProportions name (modifier_sum m))) (username_modifiers s)))"

definition validate_stratum_v2 :: "Config \<Rightarrow> ValidationError list" where
  "validate_stratum_v2 c =
     (let s = c_stratum_v2 c
      in push_if (STRATUM_V2_CERT_VALIDITY_SEC_HARD_CAP < cert_validity_sec s) (StratumV2CertValiditySecTooLarge (cert_validity_sec s))
         @ (if v2_enabled s
            then push_if (authority_pubkey_path s = []) StratumV2EnabledWithoutAuthorityPubkey
              @ push_if (authority_secret_path s = []) StratumV2EnabledWithoutAuthoritySecret
            else [])
         @ push_if (\<not> fl_is_finite (min_hashrate_threshold s) \<or> fl_le (min_hashrate_threshold s) (Fin 0))
             (StratumV2MinHashrateThresholdInvalid (min_hashrate_threshold s))
         @ push_if (\<not> fl_is_finite (expected_share_per_minute s) \<or> fl_le (expected_share_per_minute s) (Fin 0)
               \<or> fl_le STRATUM_V2_EXPECTED_SHARE_PER_MINUTE_MAX (expected_share_per_minute s))
             (StratumV2ExpectedSharePerMinuteInvalid (expected_share_per_minute s)))"

definition validate_mining :: "Config \<Rightarrow> ValidationError list" where
  "validate_mining c =
     (let m = c_mining c; p = length (mc_coinbase_tag_primary m); q = length (mc_coinbase_tag_secondary m)
      in push_if (mc_pool_address m = []) MiningPoolAddressEmpty
         @ push_if (COINBASE_TAG_INDIVIDUAL_MAX < p) (MiningCoinbaseTagPrimaryTooLong p)
         @ push_if (COINBASE_TAG_INDIVIDUAL_MAX < q) (MiningCoinbaseTagSecondaryTooLong q)
         @ push_if (COINBASE_TAGS_COMBINED_MAX < p + q) (MiningCoinbaseTagsCombinedTooLong (p + q)))"

definition validate_extra_block_submissions :: "Config \<Rightarrow> ValidationError list" where
  "validate_extra_block_submissions c =
     (let urls = c_extra_urls c
      in push_if (MAX_EXTRA_BLOCK_SUBMIT_URLS < length urls) (ExtraBlockSubmitTooManyUrls (length urls))
         @ concat (map (\<lambda>(idx, url). push_if (MAX_EXTRA_BLOCK_SUBMIT_URL_LEN < length url)
             (ExtraBlockSubmitUrlTooLong idx (length url))) (enumerate 0 urls)))"

text \<open>\<open>i32::saturating_add\<close>.\<close>

definition saturating_add_i32 :: "i32 \<Rightarrow> i32 \<Rightarrow> i32" where
  "saturating_add_i32 a b = word_of_int (max (- (2 ^ 31)) (min (2 ^ 31 - 1) (sint a + sint b)))"

text \<open>\<open>char::is_ascii_hexdigit\<close> on the bytes: a character outside ASCII has none of these.\<close>

definition is_ascii_hexdigit :: "byte \<Rightarrow> bool" where
  "is_ascii_hexdigit b \<longleftrightarrow> 0x30 \<le> b \<and> b \<le> 0x39 \<or> 0x41 \<le> b \<and> b \<le> 0x46 \<or> 0x61 \<le> b \<and> b \<le> 0x66"

definition timeout_floor :: "Config \<Rightarrow> i32" where
  "timeout_floor c = saturating_add_i32 (work_update_seconds (c_bitcoind c)) 5"

definition validate_datum :: "Config \<Rightarrow> ValidationError list" where
  "validate_datum c =
     (let d = c_datum c; floor = timeout_floor c; n = length (dc_pool_pubkey d)
      in push_if (sint (protocol_global_timeout d) < sint floor) (DatumProtocolTimeoutTooLow (protocol_global_timeout d) floor)
         @ push_if (pooled_mining_only d \<and> dc_pool_host d = []) DatumPooledMiningWithoutHost
         @ (if dc_pool_pubkey d \<noteq> []
            then if n \<noteq> 128 then [DatumPoolPubkeyBadLength n]
              else push_if (\<not> list_all is_ascii_hexdigit (dc_pool_pubkey d)) DatumPoolPubkeyNotHex
            else []))"

definition validate_logger :: "Config \<Rightarrow> ValidationError list" where
  "validate_logger c =
     (let l = c_logger c
      in push_if (log_to_file l \<and> log_file l = []) LoggerFileWithoutPath
         @ push_if (\<not> (0 \<le> sint (log_level_console l) \<and> sint (log_level_console l) \<le> 5))
             (LoggerLevelConsoleOutOfRange (log_level_console l))
         @ push_if (\<not> (0 \<le> sint (log_level_file l) \<and> sint (log_level_file l) \<le> 5))
             (LoggerLevelFileOutOfRange (log_level_file l)))"

definition validate :: "Config \<Rightarrow> ValidationError list + unit" where
  "validate c =
     (let errs = validate_bitcoind c @ validate_stratum c @ validate_stratum_v2 c @ validate_mining c
        @ validate_extra_block_submissions c @ validate_datum c @ validate_logger c
      in if errs = [] then Ok () else Err errs)"

section \<open>The rules\<close>

text \<open>\<open>r\<close> is the largest power of two below \<open>n\<close>, and \<open>n\<close> is none.\<close>

definition power_below :: "u64 \<Rightarrow> u64 \<Rightarrow> bool" where
  "power_below r n \<longleftrightarrow> (\<exists>k < 64. unat r = 2 ^ k \<and> 2 ^ k < unat n \<and> unat n < 2 * 2 ^ k)"

text \<open>The rule that each error reports, over the integers that the machine words stand for.\<close>

fun violates :: "Config \<Rightarrow> ValidationError \<Rightarrow> bool" where
  "violates c BitcoindMissingCredentials =
     (rpccookiefile (c_bitcoind c) = [] \<and> rpcuser (c_bitcoind c) = [] \<and> rpcpassword (c_bitcoind c) = [])"
| "violates c BitcoindRpcUserMissingPassword = (rpcuser (c_bitcoind c) \<noteq> [] \<and> rpcpassword (c_bitcoind c) = [])"
| "violates c BitcoindRpcUrlEmpty = (rpcurl (c_bitcoind c) = [])"
| "violates c (BitcoindWorkUpdateSecondsOutOfRange got) =
     (got = work_update_seconds (c_bitcoind c) \<and> sint got \<notin> {5..120})"
| "violates c (StratumMaxThreadsTooHigh got) = (got = max_threads (c_stratum c) \<and> 256 < sint got)"
| "violates c (StratumMaxClientsPerThreadTooHigh got) =
     (got = max_clients_per_thread (c_stratum c) \<and> 1024 < sint got)"
| "violates c (StratumMaxClientsExceedsCap m t p cap) =
     (m = max_clients (c_stratum c) \<and> t = max_threads (c_stratum c) \<and> p = max_clients_per_thread (c_stratum c)
      \<and> sint cap = sint t * sint p \<and> sint t * sint p < sint m)"
| "violates c (StratumVardiffMinTooLow got) = (got = st_vardiff_min (c_stratum c) \<and> unat got = 0)"
| "violates c (StratumVardiffMinNotPowerOfTwo got rounded) =
     (got = st_vardiff_min (c_stratum c) \<and> power_below rounded got)"
| "violates c (StratumVardiffTargetSharesMinTooLow got) = (got = vardiff_target_shares_min (c_stratum c) \<and> sint got < 1)"
| "violates c (StratumVardiffQuickdiffCountTooLow got) = (got = vardiff_quickdiff_count (c_stratum c) \<and> sint got < 4)"
| "violates c (StratumVardiffQuickdiffDeltaTooLow got) = (got = vardiff_quickdiff_delta (c_stratum c) \<and> sint got < 3)"
| "violates c (StratumShareStaleSecondsOutOfRange got) =
     (got = share_stale_seconds (c_stratum c) \<and> sint got \<notin> {60..150})"
| "violates c (StratumUsernameModifierProportions name got) =
     (\<exists>m. (name, m) \<in> set (username_modifiers (c_stratum c)) \<and> got = modifier_sum m \<and> bad_proportions got)"
| "violates c (MiningCoinbaseTagPrimaryTooLong got) = (got = length (mc_coinbase_tag_primary (c_mining c)) \<and> 60 < got)"
| "violates c (MiningCoinbaseTagSecondaryTooLong got) = (got = length (mc_coinbase_tag_secondary (c_mining c)) \<and> 60 < got)"
| "violates c (MiningCoinbaseTagsCombinedTooLong got) =
     (got = length (mc_coinbase_tag_primary (c_mining c)) + length (mc_coinbase_tag_secondary (c_mining c)) \<and> 88 < got)"
| "violates c MiningPoolAddressEmpty = (mc_pool_address (c_mining c) = [])"
| "violates c (ExtraBlockSubmitTooManyUrls got) = (got = length (c_extra_urls c) \<and> 32 < got)"
| "violates c (ExtraBlockSubmitUrlTooLong idx got) =
     (idx < length (c_extra_urls c) \<and> got = length (c_extra_urls c ! idx) \<and> 512 < got)"
| "violates c (DatumProtocolTimeoutTooLow got least) =
     (got = protocol_global_timeout (c_datum c) \<and> sint got < sint least
      \<and> sint least = min (sint (work_update_seconds (c_bitcoind c)) + 5) (2 ^ 31 - 1))"
| "violates c DatumPooledMiningWithoutHost = (pooled_mining_only (c_datum c) \<and> dc_pool_host (c_datum c) = [])"
| "violates c (DatumPoolPubkeyBadLength got) =
     (got = length (dc_pool_pubkey (c_datum c)) \<and> got \<noteq> 0 \<and> got \<noteq> 128)"
| "violates c DatumPoolPubkeyNotHex =
     (length (dc_pool_pubkey (c_datum c)) = 128 \<and> \<not> list_all is_ascii_hexdigit (dc_pool_pubkey (c_datum c)))"
| "violates c LoggerFileWithoutPath = (log_to_file (c_logger c) \<and> log_file (c_logger c) = [])"
| "violates c (LoggerLevelConsoleOutOfRange got) = (got = log_level_console (c_logger c) \<and> sint got \<notin> {0..5})"
| "violates c (LoggerLevelFileOutOfRange got) = (got = log_level_file (c_logger c) \<and> sint got \<notin> {0..5})"
| "violates c (StratumV2CertValiditySecTooLarge got) = (got = cert_validity_sec (c_stratum_v2 c) \<and> 31536000 < unat got)"
| "violates c StratumV2EnabledWithoutAuthorityPubkey =
     (v2_enabled (c_stratum_v2 c) \<and> authority_pubkey_path (c_stratum_v2 c) = [])"
| "violates c StratumV2EnabledWithoutAuthoritySecret =
     (v2_enabled (c_stratum_v2 c) \<and> authority_secret_path (c_stratum_v2 c) = [])"
| "violates c (StratumV2MinHashrateThresholdInvalid got) =
     (got = min_hashrate_threshold (c_stratum_v2 c) \<and> \<not> (\<exists>q. got = Fin q \<and> 0 < q))"
| "violates c (StratumV2ExpectedSharePerMinuteInvalid got) =
     (got = expected_share_per_minute (c_stratum_v2 c) \<and> \<not> (\<exists>q. got = Fin q \<and> 0 < q \<and> q < 10000))"

lemma sint_i32_range: "- (2 ^ 31) \<le> sint (a :: i32)" "sint (a :: i32) < 2 ^ 31"
  using sint_ge [of a] sint_lt [of a] by simp_all

lemma sint_scast_i64: "sint (scast (a :: i32) :: i64) = sint a"
  by (rule sint_up_scast) (simp add: is_up)

lemma sint_of_int_i64: "\<lbrakk>- (2 ^ 63) \<le> k; k < 2 ^ 63\<rbrakk> \<Longrightarrow> sint (word_of_int k :: i64) = k"
  unfolding int_word_sint by simp

lemma sint_of_int_i32: "\<lbrakk>- (2 ^ 31) \<le> k; k < 2 ^ 31\<rbrakk> \<Longrightarrow> sint (word_of_int k :: i32) = k"
  unfolding int_word_sint by simp

lemma client_cap_value: "sint (client_cap s) = sint (max_threads s) * sint (max_clients_per_thread s)"
proof -
  let ?a = "sint (max_threads s)" and ?b = "sint (max_clients_per_thread s)"
  have "\<bar>?a\<bar> \<le> 2 ^ 31" "\<bar>?b\<bar> \<le> 2 ^ 31"
    using sint_i32_range [of "max_threads s"] sint_i32_range [of "max_clients_per_thread s"] by linarith+
  then have "\<bar>?a * ?b\<bar> \<le> 2 ^ 31 * 2 ^ 31" unfolding abs_mult by (intro mult_mono) simp_all
  then have "- (2 ^ 63) \<le> ?a * ?b" "?a * ?b < 2 ^ 63" by (simp_all add: abs_le_iff)
  moreover have "client_cap s = word_of_int (?a * ?b)"
    unfolding client_cap_def by (metis of_int_mult scast_eq)
  ultimately show ?thesis using sint_of_int_i64 by metis
qed

lemma timeout_floor_value:
  "sint (timeout_floor c) = min (sint (work_update_seconds (c_bitcoind c)) + 5) (2 ^ 31 - 1)"
proof -
  let ?v = "max (- (2 ^ 31)) (min (2 ^ 31 - 1) (sint (work_update_seconds (c_bitcoind c)) + sint (5 :: i32)))"
  have "sint (timeout_floor c) = ?v"
    unfolding timeout_floor_def saturating_add_i32_def by (rule sint_of_int_i32) simp_all
  then show ?thesis using sint_i32_range [of "work_update_seconds (c_bitcoind c)"] by simp
qed

lemma unat_single_bit: "k < 64 \<Longrightarrow> unat (push_bit k 1 :: u64) = 2 ^ k"
  by (simp only: unsigned_push_bit_eq) (simp add: take_bit_nat_eq_self_iff)

lemma prev_power_range:
  assumes "n \<noteq> 0"
  shows "\<exists>k < 64. unat (prev_power_of_two n) = 2 ^ k \<and> 2 ^ k \<le> unat n \<and> unat n < 2 ^ (k + 1)"
proof (intro exI conjI)
  let ?k = "63 - leading_zeros n"
  have lz: "leading_zeros n < 64" "bit n ?k" "\<And>k. ?k < k \<Longrightarrow> \<not> bit n k" using leading_zeros_top [OF assms] by simp_all
  show k: "?k < 64" by simp
  show "unat (prev_power_of_two n) = 2 ^ ?k"
    using assms by (simp add: prev_power_of_two_def unat_single_bit k del: push_bit_of_1)
  have "\<not> unat n < 2 ^ ?k" unfolding unat_lt_iff using lz(2) by auto
  then show "2 ^ ?k \<le> unat n" by simp
  show "unat n < 2 ^ (?k + 1)" unfolding unat_lt_iff using lz(3) by simp
qed

lemma is_power_of_two_iff: "is_power_of_two n \<longleftrightarrow> (\<exists>k < 64. unat n = 2 ^ k)"
  unfolding is_power_of_two_def list_ex_iff
  by (metis unat_single_bit word_unat_eq_iff atLeastLessThan_iff le0 set_upt)

lemma power_between: "\<lbrakk>2 ^ k \<le> (2 :: nat) ^ j; (2 :: nat) ^ j < 2 ^ (k + 1)\<rbrakk> \<Longrightarrow> j = k"
  by (metis Suc_eq_plus1 le_antisym less_Suc_eq_le one_less_numeral_iff power_increasing_iff power_strict_increasing_iff semiring_norm(76))

lemma not_power_of_two:
  assumes "n \<noteq> 0"
  shows "power_below r n \<longleftrightarrow> \<not> is_power_of_two n \<and> r = prev_power_of_two n"
proof -
  obtain k where k: "k < 64" "unat (prev_power_of_two n) = 2 ^ k" "2 ^ k \<le> unat n" "unat n < 2 ^ (k + 1)"
    using prev_power_range [OF assms] by blast
  have "is_power_of_two n \<longleftrightarrow> unat n = 2 ^ k"
    unfolding is_power_of_two_iff using k power_between by metis
  moreover have "r = prev_power_of_two n \<longleftrightarrow> unat r = 2 ^ k" by (simp add: word_unat_eq_iff k(2))
  moreover have "j = k" if "2 ^ j < unat n" "unat n < 2 * 2 ^ j" for j
  proof -
    have "(2 :: nat) ^ j < 2 ^ (k + 1)" "(2 :: nat) ^ k < 2 ^ (j + 1)" using that k by simp_all
    then have "j < k + 1 \<and> k < j + 1" using power_less_imp_less_exp [of "2 :: nat"] by (metis one_less_numeral_iff semiring_norm(76))
    then show ?thesis by simp
  qed
  moreover have "unat n < 2 * 2 ^ k" using k by simp
  ultimately show ?thesis unfolding power_below_def using k by (metis nat_less_le)
qed

lemma power_below_0: "\<not> power_below r 0" by (simp add: power_below_def)

text \<open>The errors of the SV1 section, and those of the others.\<close>

fun of_stratum :: "ValidationError \<Rightarrow> bool" where
  "of_stratum (StratumMaxThreadsTooHigh a) = True"
| "of_stratum (StratumMaxClientsPerThreadTooHigh a) = True"
| "of_stratum (StratumMaxClientsExceedsCap a b d e) = True"
| "of_stratum (StratumVardiffMinTooLow a) = True"
| "of_stratum (StratumVardiffMinNotPowerOfTwo a b) = True"
| "of_stratum (StratumVardiffTargetSharesMinTooLow a) = True"
| "of_stratum (StratumVardiffQuickdiffCountTooLow a) = True"
| "of_stratum (StratumVardiffQuickdiffDeltaTooLow a) = True"
| "of_stratum (StratumShareStaleSecondsOutOfRange a) = True"
| "of_stratum (StratumUsernameModifierProportions a b) = True"
| "of_stratum e = False"

lemma in_stratum: "e \<in> set (validate_stratum c) \<longleftrightarrow> violates c e \<and> of_stratum e"
proof -
  let ?s = "c_stratum c"
  have cap: "sint (client_cap ?s) < sint (scast (max_clients ?s) :: i64) \<longleftrightarrow>
    sint (max_threads ?s) * sint (max_clients_per_thread ?s) < sint (max_clients ?s)"
    by (simp only: client_cap_value sint_scast_i64)
  have cap': "x = client_cap ?s \<longleftrightarrow> sint x = sint (max_threads ?s) * sint (max_clients_per_thread ?s)" for x
    by (metis client_cap_value signed_word_eqI)
  show ?thesis
  proof (cases "st_vardiff_min ?s = 0")
    case True
    then show ?thesis by (cases e) (auto simp: validate_stratum_def Let_def cap cap' word_less_1 power_below_0)
  next
    case False
    then have "\<not> st_vardiff_min ?s < 1" "unat (st_vardiff_min ?s) \<noteq> 0" by (simp_all add: word_less_1 unat_eq_0)
    then show ?thesis
      by (cases e) (auto simp: validate_stratum_def Let_def cap cap' not_power_of_two [OF False] simp del: unat_gt_0)
  qed
qed

definition other_errors :: "Config \<Rightarrow> ValidationError list" where
  "other_errors c = validate_bitcoind c @ validate_stratum_v2 c @ validate_mining c
     @ validate_extra_block_submissions c @ validate_datum c @ validate_logger c"

lemmas limits = COINBASE_TAGS_COMBINED_MAX_def COINBASE_TAG_INDIVIDUAL_MAX_def MAX_EXTRA_BLOCK_SUBMIT_URLS_def
  MAX_EXTRA_BLOCK_SUBMIT_URL_LEN_def STRATUM_V2_CERT_VALIDITY_SEC_HARD_CAP_def STRATUM_V2_EXPECTED_SHARE_PER_MINUTE_MAX_def

lemma cert_limit: "(31536000 :: u32) < w \<longleftrightarrow> 31536000 < unat w"
  by (simp add: word_less_nat_alt)

lemma floor_iff: "x = timeout_floor c \<longleftrightarrow> sint x = min (sint (work_update_seconds (c_bitcoind c)) + 5) (2 ^ 31 - 1)"
  by (metis timeout_floor_value signed_word_eqI)

lemma positive_iff: "\<not> fl_is_finite x \<or> fl_le x (Fin 0) \<longleftrightarrow> \<not> (\<exists>q. x = Fin q \<and> 0 < q)"
  by (cases x) auto

lemma rate_iff:
  "\<not> fl_is_finite x \<or> fl_le x (Fin 0) \<or> fl_le (Fin 10000) x \<longleftrightarrow> \<not> (\<exists>q. x = Fin q \<and> 0 < q \<and> q < 10000)"
  by (cases x) auto

lemma in_urls: "e \<in> set (validate_extra_block_submissions c) \<longleftrightarrow> violates c e \<and>
    (case e of ExtraBlockSubmitTooManyUrls n \<Rightarrow> True | ExtraBlockSubmitUrlTooLong i n \<Rightarrow> True | _ \<Rightarrow> False)"
  by (cases e) (auto simp: validate_extra_block_submissions_def Let_def limits in_set_enumerate_eq)

lemma in_sv2: "e \<in> set (validate_stratum_v2 c) \<longleftrightarrow> violates c e \<and>
    (case e of StratumV2CertValiditySecTooLarge a \<Rightarrow> True | StratumV2EnabledWithoutAuthorityPubkey \<Rightarrow> True
     | StratumV2EnabledWithoutAuthoritySecret \<Rightarrow> True | StratumV2MinHashrateThresholdInvalid a \<Rightarrow> True
     | StratumV2ExpectedSharePerMinuteInvalid a \<Rightarrow> True | _ \<Rightarrow> False)"
  unfolding validate_stratum_v2_def Let_def limits positive_iff rate_iff cert_limit
  by (cases e) auto

lemma in_bitcoind: "e \<in> set (validate_bitcoind c) \<longleftrightarrow> violates c e \<and>
    (case e of BitcoindMissingCredentials \<Rightarrow> True | BitcoindRpcUserMissingPassword \<Rightarrow> True | BitcoindRpcUrlEmpty \<Rightarrow> True
     | BitcoindWorkUpdateSecondsOutOfRange a \<Rightarrow> True | _ \<Rightarrow> False)"
  by (cases e) (auto simp: validate_bitcoind_def Let_def)

lemma in_mining: "e \<in> set (validate_mining c) \<longleftrightarrow> violates c e \<and>
    (case e of MiningPoolAddressEmpty \<Rightarrow> True | MiningCoinbaseTagPrimaryTooLong a \<Rightarrow> True
     | MiningCoinbaseTagSecondaryTooLong a \<Rightarrow> True | MiningCoinbaseTagsCombinedTooLong a \<Rightarrow> True | _ \<Rightarrow> False)"
  by (cases e) (auto simp: validate_mining_def Let_def limits)

lemma in_datum: "e \<in> set (validate_datum c) \<longleftrightarrow> violates c e \<and>
    (case e of DatumProtocolTimeoutTooLow a b \<Rightarrow> True | DatumPooledMiningWithoutHost \<Rightarrow> True
     | DatumPoolPubkeyBadLength a \<Rightarrow> True | DatumPoolPubkeyNotHex \<Rightarrow> True | _ \<Rightarrow> False)"
proof -
  define fl where "fl = timeout_floor c"
  have fl: "x = fl \<longleftrightarrow> sint x = min (sint (work_update_seconds (c_bitcoind c)) + 5) (2 ^ 31 - 1)" for x
    unfolding fl_def by (rule floor_iff)
  then have fl': "sint fl = min (sint (work_update_seconds (c_bitcoind c)) + 5) (2 ^ 31 - 1)" by blast
  show ?thesis
    unfolding validate_datum_def Let_def fl_def [symmetric]
    by (cases e) (auto simp: fl fl')
qed

lemma in_logger: "e \<in> set (validate_logger c) \<longleftrightarrow> violates c e \<and>
    (case e of LoggerFileWithoutPath \<Rightarrow> True | LoggerLevelConsoleOutOfRange a \<Rightarrow> True | LoggerLevelFileOutOfRange a \<Rightarrow> True
     | _ \<Rightarrow> False)"
  by (cases e) (auto simp: validate_logger_def Let_def)

lemma validate_members:
  "e \<in> set (validate_bitcoind c @ validate_stratum c @ validate_stratum_v2 c @ validate_mining c
     @ validate_extra_block_submissions c @ validate_datum c @ validate_logger c) \<longleftrightarrow> violates c e"
  unfolding set_append Un_iff in_bitcoind in_stratum in_sv2 in_mining in_urls in_datum in_logger
  by (cases e) simp_all

text \<open>C22: Validation is exact and complete: a configuration is accepted if and only if it violates no
  rule, and otherwise the reported errors are precisely the violated rules, each with the value
  that violates it, all of them and not only the first: the products and sums behind the client
  cap and the timeout floor do not overflow, and a minimum difficulty that is no power of two is
  reported with the largest power below it.\<close>

theorem validate_exact:
  "case validate c of Inr u \<Rightarrow> \<forall>e. \<not> violates c e
   | Inl errs \<Rightarrow> errs \<noteq> [] \<and> set errs = {e. violates c e}"
proof -
  define errs where "errs = validate_bitcoind c @ validate_stratum c @ validate_stratum_v2 c @ validate_mining c
     @ validate_extra_block_submissions c @ validate_datum c @ validate_logger c"
  have "e \<in> set errs \<longleftrightarrow> violates c e" for e unfolding errs_def by (rule validate_members)
  moreover have "validate c = (if errs = [] then Ok () else Err errs)" by (simp add: validate_def errs_def Let_def)
  ultimately show ?thesis by (cases "errs = []") (auto simp del: violates.simps)
qed

text \<open>The printed example configuration is not usable as it is: it lacks exactly the credentials, the
  node's address and the payout address.\<close>

lemmas example_defs = example_config_def default_bitcoind_def default_stratum_def default_stratum_v2_def
  default_mining_def default_datum_def default_logger_def

lemma default_vardiff_power: "is_power_of_two 16384"
  unfolding is_power_of_two_iff by (rule exI [of _ 14]) simp

lemma default_pubkey: "length DEFAULT_OCEAN_POOL_PUBKEY = 128" "list_all is_ascii_hexdigit DEFAULT_OCEAN_POOL_PUBKEY"
  by (simp_all add: DEFAULT_OCEAN_POOL_PUBKEY_def ascii_def) code_simp

lemma example_rejected:
  "validate example_config = Err [BitcoindMissingCredentials, BitcoindRpcUrlEmpty, MiningPoolAddressEmpty]"
proof -
  have s: "validate_bitcoind example_config = [BitcoindMissingCredentials, BitcoindRpcUrlEmpty]"
    by (simp add: validate_bitcoind_def example_defs push_if_def)
  have t: "validate_stratum example_config = []"
    by (simp add: validate_stratum_def example_defs client_cap_value sint_scast_i64 default_vardiff_power)
  have u: "validate_stratum_v2 example_config = []"
    by (simp add: validate_stratum_v2_def example_defs limits DEFAULT_STRATUM_V2_CERT_VALIDITY_SEC_def
        DEFAULT_STRATUM_V2_MIN_HASHRATE_THRESHOLD_def DEFAULT_STRATUM_V2_EXPECTED_SHARE_PER_MINUTE_def)
  have v: "validate_mining example_config = [MiningPoolAddressEmpty]"
    by (simp add: validate_mining_def example_defs limits ascii_def push_if_def)
  have w: "validate_extra_block_submissions example_config = []"
    by (simp add: validate_extra_block_submissions_def example_defs limits enumerate_eq_zip)
  have x: "validate_datum example_config = []"
    by (simp add: validate_datum_def Let_def example_defs timeout_floor_value default_pubkey DEFAULT_OCEAN_POOL_HOST_def ascii_def)
  have y: "validate_logger example_config = []"
    by (simp add: validate_logger_def example_defs)
  show ?thesis by (simp add: validate_def s t u v w x y)
qed

end
