(* ===== verification/Rpc.thy ===== *)
theory Rpc
  imports Utf8 Sv1Server
begin

text \<open>
  The bitcoind client and the block submitter (crates datum-rpc and datum-submitblock): the
  credentials with their cache, one JSON-RPC call with its second try after a 401, the reading of
  the response, and the three steps of a block submission.  The HTTP stack is a function from a
  request to its outcome, and reading the cookie file has an outcome; text is UTF-8 bytes, JSON
  text is a parsed value.
\<close>

unbundle bit_operations_syntax

section \<open>Credentials\<close>

datatype Auth = Cookie bytes | UserPass bytes bytes

datatype ('h, 'e) RpcError = HttpError 'h | CookieRead bytes 'e | CookieEmpty bytes | Remote int string
  | Malformed json | Deserialize | AuthFailed

record RpcClient =
  cl_url :: bytes
  cl_auth :: Auth
  cached_userpass :: "bytes option"
  cl_next_id :: u64

definition client_new :: "bytes \<Rightarrow> Auth \<Rightarrow> RpcClient" where
  "client_new url auth = \<lparr>cl_url = url, cl_auth = auth, cached_userpass = None, cl_next_id = 1\<rparr>"

text \<open>The encodings of the characters that \<open>str::trim\<close> removes.\<close>

definition white_space :: "bytes list" where
  "white_space = map (\<lambda>b. [b]) [0x09, 0x0A, 0x0B, 0x0C, 0x0D, 0x20]
     @ [[0xC2, 0x85], [0xC2, 0xA0], [0xE1, 0x9A, 0x80]]
     @ map (\<lambda>b. [0xE2, 0x80, b]) [0x80, 0x81, 0x82, 0x83, 0x84, 0x85, 0x86, 0x87, 0x88, 0x89, 0x8A, 0xA8, 0xA9, 0xAF]
     @ [[0xE2, 0x81, 0x9F], [0xE3, 0x80, 0x80]]"

definition is_prefix :: "'a list \<Rightarrow> 'a list \<Rightarrow> bool" where
  "is_prefix w s \<longleftrightarrow> take (length w) s = w"

function strip_front :: "bytes list \<Rightarrow> bytes \<Rightarrow> bytes" where
  "strip_front ws s =
     (case find (\<lambda>w. w \<noteq> [] \<and> is_prefix w s) ws of None \<Rightarrow> s | Some w \<Rightarrow> strip_front ws (drop (length w) s))"
  by pat_completeness auto
termination
proof (relation "measure (\<lambda>(ws, s). length s)")
  fix ws s w assume "find (\<lambda>w. w \<noteq> [] \<and> is_prefix w s) ws = Some w"
  then have "w \<noteq> []" "take (length w) s = w" by (auto simp: find_Some_iff is_prefix_def)
  then have "0 < length w" "s \<noteq> []" by auto
  then show "((ws, drop (length w) s), (ws, s)) \<in> measure (\<lambda>(ws, s). length s)" by simp
qed simp

declare strip_front.simps [simp del]

definition trim :: "bytes \<Rightarrow> bytes" where
  "trim s = rev (strip_front (map rev white_space) (rev (strip_front white_space s)))"

text \<open>The first of the file's lines; a carriage return at its end is white space.\<close>

definition resolve_auth :: "Auth \<Rightarrow> 'e + bytes \<Rightarrow> ('h, 'e) RpcError + bytes" where
  "resolve_auth auth file =
     (case auth of
        Cookie path \<Rightarrow>
          (case file of
             Inl e \<Rightarrow> Err (CookieRead path e)
           | Inr raw \<Rightarrow> let line = trim (takeWhile (\<lambda>b. b \<noteq> 0x0A) raw)
               in if line = [] then Err (CookieEmpty path) else Ok line)
      | UserPass user pass \<Rightarrow> Ok (user @ [0x3A] @ pass))"

definition split_userpass :: "bytes \<Rightarrow> bytes \<times> bytes" where
  "split_userpass s = (takeWhile (\<lambda>b. b \<noteq> 0x3A) s, drop 1 (dropWhile (\<lambda>b. b \<noteq> 0x3A) s))"

definition userpass :: "RpcClient \<Rightarrow> 'e + bytes \<Rightarrow> (('h, 'e) RpcError + bytes) \<times> RpcClient" where
  "userpass c file =
     (case cached_userpass c of
        Some u \<Rightarrow> (Ok u, c)
      | None \<Rightarrow>
          (case resolve_auth (cl_auth c) file of
             Inl e \<Rightarrow> (Err e, c)
           | Inr u \<Rightarrow> (Ok u, c\<lparr>cached_userpass := Some u\<rparr>)))"

section \<open>One call\<close>

function decimal :: "nat \<Rightarrow> string" where
  "decimal n = (if n < 10 then [] else decimal (n div 10)) @ [''0123456789'' ! (n mod 10)]"
  by pat_completeness auto
termination by (relation "measure id") auto

declare decimal.simps [simp del]

definition request_body :: "u64 \<Rightarrow> string \<Rightarrow> json \<Rightarrow> json" where
  "request_body req_id method params =
     JObj [(''jsonrpc'', JStr ''1.0''), (''id'', JStr (decimal (unat req_id))), (''method'', JStr method), (''params'', params)]"

record HttpRequest =
  hq_url :: bytes
  hq_auth :: "bytes \<times> bytes"
  hq_body :: json
  hq_timeout :: "nat option" \<comment> \<open>seconds, None for the client's own\<close>

text \<open>The outcome of a request: it failed (in transport, with another error status, or with a body
  that is not JSON), it was refused with 401, or it brought a JSON body.\<close>

datatype 'h http = Failed 'h | Unauthorized | Body json

definition http_call ::
  "(HttpRequest \<Rightarrow> 'h http) \<Rightarrow> RpcClient \<Rightarrow> bytes \<Rightarrow> json \<Rightarrow> nat option
     \<Rightarrow> (('h, 'e) RpcError + json option) \<times> HttpRequest" where
  "http_call server c up body timeout =
     (let q = \<lparr>hq_url = cl_url c, hq_auth = split_userpass up, hq_body = body, hq_timeout = timeout\<rparr>
      in (case server q of Failed h \<Rightarrow> Err (HttpError h) | Unauthorized \<Rightarrow> Ok None | Body v \<Rightarrow> Ok (Some v), q))"

fun as_i64 :: "json \<Rightarrow> int option" where
  "as_i64 (JNum n) = (if n < 2 ^ 63 then Some (int n) else None)"
| "as_i64 (JInt i) = (if - (2 ^ 63) \<le> i \<and> i < 2 ^ 63 then Some i else None)"
| "as_i64 _ = None"

text \<open>The derived deserializer of \<open>RpcRemoteError\<close>: an object, or a sequence of its fields; the
  message may be missing.\<close>

fun remote_error :: "json \<Rightarrow> (int \<times> string) option" where
  "remote_error (JObj m) =
     Option.bind (Option.bind (map_of m ''code'') as_i64) (\<lambda>code.
       case map_of m ''message'' of None \<Rightarrow> Some (code, []) | Some v \<Rightarrow> map_option (Pair code) (as_str v))"
| "remote_error (JArr [v]) = map_option (\<lambda>code. (code, [])) (as_i64 v)"
| "remote_error (JArr [v, w]) = Option.bind (as_i64 v) (\<lambda>code. map_option (Pair code) (as_str w))"
| "remote_error _ = None"

definition parse_rpc_response :: "json \<Rightarrow> ('h, 'e) RpcError + json" where
  "parse_rpc_response v =
     (case as_object v of
        None \<Rightarrow> Err (Malformed v)
      | Some m \<Rightarrow>
          (case map_of m ''error'' of
             Some e \<Rightarrow>
               if e \<noteq> JNull
               then (case remote_error e of None \<Rightarrow> Err Deserialize | Some (code, msg) \<Rightarrow> Err (Remote code msg))
               else (case map_of m ''result'' of Some r \<Rightarrow> Ok r | None \<Rightarrow> Err (Malformed v))
           | None \<Rightarrow> (case map_of m ''result'' of Some r \<Rightarrow> Ok r | None \<Rightarrow> Err (Malformed v))))"

text \<open>What a call meets: the cookie file and the server, at its first and at its second try.\<close>

record ('h, 'e) Peer =
  file1 :: "'e + bytes"
  server1 :: "HttpRequest \<Rightarrow> 'h http"
  file2 :: "'e + bytes"
  server2 :: "HttpRequest \<Rightarrow> 'h http"

text \<open>The result, the requests sent, and the client after the call.\<close>

definition call_value ::
  "('h, 'e) Peer \<Rightarrow> RpcClient \<Rightarrow> string \<Rightarrow> json \<Rightarrow> nat option
     \<Rightarrow> (('h, 'e) RpcError + json) \<times> HttpRequest list \<times> RpcClient" where
  "call_value w c method params timeout =
     (case userpass c (file1 w) of
        (Inl e, c1) \<Rightarrow> (Err e, [], c1)
      | (Inr up, c1) \<Rightarrow>
          let body = request_body (cl_next_id c1) method params; c2 = c1\<lparr>cl_next_id := cl_next_id c1 + 1\<rparr>;
              (r, q) = http_call (server1 w) c2 up body timeout
          in (case r of
                Inl e \<Rightarrow> (Err e, [q], c2)
              | Inr (Some v) \<Rightarrow> (parse_rpc_response v, [q], c2)
              | Inr None \<Rightarrow>
                  (case cl_auth c2 of
                     UserPass user pass \<Rightarrow> (Err AuthFailed, [q], c2)
                   | Cookie path \<Rightarrow>
                       (case userpass (c2\<lparr>cached_userpass := None\<rparr>) (file2 w) of
                          (Inl e, c3) \<Rightarrow> (Err e, [q], c3)
                        | (Inr up', c3) \<Rightarrow>
                            let (r', q') = http_call (server2 w) c3 up' body timeout
                            in (case r' of
                                  Inl e \<Rightarrow> (Err e, [q, q'], c3)
                                | Inr (Some v) \<Rightarrow> (parse_rpc_response v, [q, q'], c3)
                                | Inr None \<Rightarrow> (Err AuthFailed, [q, q'], c3))))))"

text \<open>\<open>deser\<close> is the deserializer of the result type.\<close>

definition rpc_call ::
  "(json \<Rightarrow> 'a option) \<Rightarrow> ('h, 'e) Peer \<Rightarrow> RpcClient \<Rightarrow> string \<Rightarrow> json \<Rightarrow> nat option
     \<Rightarrow> (('h, 'e) RpcError + 'a) \<times> HttpRequest list \<times> RpcClient" where
  "rpc_call deser w c method params timeout =
     (case call_value w c method params timeout of (r, qs, c') \<Rightarrow>
        (and_then r (\<lambda>v. ok_or (deser v) Deserialize), qs, c'))"

section \<open>Methods\<close>

definition getbestblockhash :: "('h, 'e) Peer \<Rightarrow> RpcClient \<Rightarrow> (('h, 'e) RpcError + string) \<times> HttpRequest list \<times> RpcClient" where
  "getbestblockhash w c = rpc_call as_str w c ''getbestblockhash'' (JArr []) None"

definition getblocktemplate ::
  "('h, 'e) Peer \<Rightarrow> RpcClient \<Rightarrow> string list \<Rightarrow> (('h, 'e) RpcError + json) \<times> HttpRequest list \<times> RpcClient" where
  "getblocktemplate w c rules =
     rpc_call Some w c ''getblocktemplate'' (JArr [JObj [(''rules'', JArr (map JStr rules))]]) None"

text \<open>\<open>printer\<close> is the JSON printer.\<close>

definition submit_result :: "(json \<Rightarrow> string) \<Rightarrow> json \<Rightarrow> ('h, 'e) RpcError + unit" where
  "submit_result printer v =
     (case v of JNull \<Rightarrow> Ok ()
      | JStr s \<Rightarrow> if s = [] then Ok () else Err (Remote (- 1) s)
      | _ \<Rightarrow> Err (Remote (- 1) (printer v)))"

definition submitblock ::
  "(json \<Rightarrow> string) \<Rightarrow> ('h, 'e) Peer \<Rightarrow> RpcClient \<Rightarrow> string \<Rightarrow> (('h, 'e) RpcError + unit) \<times> HttpRequest list \<times> RpcClient" where
  "submitblock printer w c hex_block =
     (case rpc_call Some w c ''submitblock'' (JArr [JStr hex_block]) None of (r, qs, c') \<Rightarrow>
        (and_then r (submit_result printer), qs, c'))"

definition preciousblock :: "('h, 'e) Peer \<Rightarrow> RpcClient \<Rightarrow> string \<Rightarrow> (('h, 'e) RpcError + unit) \<times> HttpRequest list \<times> RpcClient" where
  "preciousblock w c blockhash_hex =
     (case rpc_call Some w c ''preciousblock'' (JArr [JStr blockhash_hex]) None of (r, qs, c') \<Rightarrow>
        (and_then r (\<lambda>v. Ok ()), qs, c'))"

section \<open>Submitting a block\<close>

record BlockSubmitter =
  bs_primary :: RpcClient
  bs_extras :: "RpcClient list"

definition block_submitter_new :: "RpcClient \<Rightarrow> BlockSubmitter" where
  "block_submitter_new c = \<lparr>bs_primary = c, bs_extras = []\<rparr>"

definition with_extras :: "BlockSubmitter \<Rightarrow> RpcClient list \<Rightarrow> BlockSubmitter" where
  "with_extras b extras = b\<lparr>bs_extras := extras\<rparr>"

text \<open>The requests of the three stages; those of the extra nodes run concurrently, each node's own
  in order.\<close>

record SubmitTrace =
  tr_primary :: "HttpRequest list"
  tr_extras :: "HttpRequest list list"
  tr_precious :: "HttpRequest list"

definition submit ::
  "(json \<Rightarrow> string) \<Rightarrow> ('h, 'e) Peer \<Rightarrow> ('h, 'e) Peer list \<Rightarrow> ('h, 'e) Peer \<Rightarrow> BlockSubmitter \<Rightarrow> string \<Rightarrow> string
     \<Rightarrow> (('h, 'e) RpcError + unit) \<times> SubmitTrace \<times> BlockSubmitter" where
  "submit printer w ws w' b hex_block blockhash_hex =
     (case submitblock printer w (bs_primary b) hex_block of
        (Inl e, qs, c) \<Rightarrow> (Err e, \<lparr>tr_primary = qs, tr_extras = [], tr_precious = []\<rparr>, b\<lparr>bs_primary := c\<rparr>)
      | (Inr u, qs, c) \<Rightarrow>
          let fan = map (\<lambda>(v, x). snd (submitblock printer v x hex_block)) (zip ws (bs_extras b));
              (r, ps, c') = preciousblock w' c blockhash_hex
          in (Ok (), \<lparr>tr_primary = qs, tr_extras = map fst fan, tr_precious = ps\<rparr>,
              b\<lparr>bs_primary := c', bs_extras := map snd fan\<rparr>))"

section \<open>Cookie rotation\<close>

lemma parse_not_auth_failed: "parse_rpc_response v \<noteq> Inl AuthFailed"
  by (simp add: parse_rpc_response_def split: option.splits)

lemma http_call_result:
  "http_call server c up body timeout = (r, q) \<Longrightarrow>
     hq_auth q = split_userpass up \<and> hq_url q = cl_url c \<and> hq_body q = body
     \<and> (r = Inr None \<longleftrightarrow> server q = Unauthorized) \<and> r \<noteq> Inl AuthFailed"
  by (auto simp: http_call_def Let_def split: http.splits)

text \<open>The server accepts one pair of credentials and no other.\<close>

definition accepts_only :: "bytes \<Rightarrow> (HttpRequest \<Rightarrow> 'h http) \<Rightarrow> bool" where
  "accepts_only k server \<longleftrightarrow> (\<forall>q. server q = Unauthorized \<longleftrightarrow> hq_auth q \<noteq> split_userpass k)"

text \<open>C32: A rotated cookie is picked up within one call: with cookie authentication, when the cookie
  file holds the credentials that bitcoind accepts (bitcoind writes a new cookie on every start),
  no call fails for authentication, whatever stale credentials the cache holds; it sends at most
  two requests, the last one with the file's credentials, and one only where the cache is
  already good, and it leaves the cache good for the next call.\<close>

theorem cookie_rotation_recovers:
  fixes w :: "('h, 'e) Peer"
  assumes "cl_auth c = Cookie path" "k \<noteq> []" "k = trim (takeWhile (\<lambda>b. b \<noteq> 0x0A) raw)"
    and "file2 w = Inr raw" "cached_userpass c = None \<Longrightarrow> file1 w = Inr raw"
    and "accepts_only k (server1 w)" "accepts_only k (server2 w)"
    and "call_value w c method params timeout = (r, qs, c')"
  shows "r \<noteq> Inl AuthFailed \<and> length qs \<le> 2 \<and> qs \<noteq> [] \<and> hq_auth (last qs) = split_userpass k
    \<and> (map_option split_userpass (cached_userpass c) = Some (split_userpass k) \<longrightarrow> length qs = 1)
    \<and> map_option split_userpass (cached_userpass c') = Some (split_userpass k)"
proof -
  have res: "resolve_auth (Cookie path) (Inr raw) = (Inr k :: ('h, 'e) RpcError + bytes)"
    using assms(2,3) by (simp add: resolve_auth_def)
  obtain up c1 where u: "userpass c (file1 w) = (Inr up :: ('h, 'e) RpcError + bytes, c1)" "cached_userpass c1 = Some up"
      "cl_auth c1 = Cookie path"
    and stale: "split_userpass up \<noteq> split_userpass k \<Longrightarrow> cached_userpass c = Some up"
    using assms(1,5) res by (cases "cached_userpass c") (auto simp: userpass_def)
  let ?body = "request_body (cl_next_id c1) method params" and ?c2 = "c1\<lparr>cl_next_id := cl_next_id c1 + 1\<rparr>"
  obtain r1 :: "('h, 'e) RpcError + json option" and q1 where h1: "http_call (server1 w) ?c2 up ?body timeout = (r1, q1)" by fastforce
  have k1: "hq_auth q1 = split_userpass up" "r1 = Inr None \<longleftrightarrow> split_userpass up \<noteq> split_userpass k" "r1 \<noteq> Inl AuthFailed"
    using http_call_result [OF h1] assms(6) by (simp_all add: accepts_only_def)
  show ?thesis
  proof (cases "split_userpass up = split_userpass k")
    case True
    with k1 have "(\<exists>v. r1 = Inr (Some v)) \<or> (\<exists>e. r1 = Inl e)" by (metis obj_sumE option.exhaust)
    with k1 True show ?thesis
      using assms(8) u h1 by (auto simp: call_value_def Let_def parse_not_auth_failed)
  next
    case False
    then have no: "r1 = Inr None" using k1(2) by simp
    let ?c3 = "?c2\<lparr>cached_userpass := Some k\<rparr>"
    have up2: "userpass (?c2\<lparr>cached_userpass := None\<rparr>) (file2 w) = (Inr k :: ('h, 'e) RpcError + bytes, ?c3)"
      using assms(4) res u(3) by (simp add: userpass_def)
    obtain r2 :: "('h, 'e) RpcError + json option" and q2 where h2: "http_call (server2 w) ?c3 k ?body timeout = (r2, q2)" by fastforce
    have k2: "hq_auth q2 = split_userpass k" "r2 \<noteq> Inr None" "r2 \<noteq> Inl AuthFailed"
      using http_call_result [OF h2] assms(7) by (simp_all add: accepts_only_def)
    have c: "c' = ?c3 \<and> qs = [q1, q2] \<and> r \<noteq> Inl AuthFailed"
      using assms(8) u h1 h2 no up2 k2
      by (auto simp: call_value_def Let_def parse_not_auth_failed split: sum.splits option.splits)
    have "map_option split_userpass (cached_userpass c) \<noteq> Some (split_userpass k)"
      using False stale by auto
    then show ?thesis using c k2 by simp
  qed
qed

section \<open>What a block submission sends\<close>

definition carries :: "string \<Rightarrow> string \<Rightarrow> HttpRequest \<Rightarrow> bool" where
  "carries method arg q \<longleftrightarrow> (\<exists>i. hq_body q = request_body i method (JArr [JStr arg]))"

lemma call_value_requests:
  "call_value w c method (JArr [JStr arg]) timeout = (r, qs, c') \<Longrightarrow> length qs \<le> 2 \<and> list_all (carries method arg) qs"
  by (auto simp: call_value_def Let_def carries_def dest!: http_call_result
      split: prod.splits sum.splits option.splits Auth.splits)

lemma rpc_call_requests:
  "rpc_call deser w c method (JArr [JStr arg]) timeout = (r, qs, c') \<Longrightarrow> length qs \<le> 2 \<and> list_all (carries method arg) qs"
  by (auto simp: rpc_call_def dest!: call_value_requests split: prod.splits)

lemma submitblock_requests:
  "submitblock printer w c hex = (r, qs, c') \<Longrightarrow> length qs \<le> 2 \<and> list_all (carries ''submitblock'' hex) qs"
  by (auto simp: submitblock_def dest!: rpc_call_requests split: prod.splits)

lemma preciousblock_requests:
  "preciousblock w c hash = (r, qs, c') \<Longrightarrow> length qs \<le> 2 \<and> list_all (carries ''preciousblock'' hash) qs"
  by (auto simp: preciousblock_def dest!: rpc_call_requests split: prod.splits)

lemma submitblock_accepted:
  "is_ok (fst (submitblock printer w c hex)) \<longleftrightarrow>
     fst (call_value w c ''submitblock'' (JArr [JStr hex]) None) \<in> {Inr JNull, Inr (JStr '''')}"
proof -
  obtain r qs c' where cv: "call_value w c ''submitblock'' (JArr [JStr hex]) None = (r, qs, c')" by (rule prod_cases3)
  show ?thesis
  proof (cases r)
    case (Inr v)
    then show ?thesis by (cases v) (auto simp: submitblock_def rpc_call_def cv submit_result_def)
  qed (simp add: submitblock_def rpc_call_def cv)
qed


section \<open>Concrete calls\<close>

definition rotated :: bytes where "rotated = [0x61, 0x3A, 0x63]"

definition bitcoind :: "HttpRequest \<Rightarrow> unit http" where
  "bitcoind q = (if hq_auth q = split_userpass rotated then Body (JObj [(''result'', JNull), (''error'', JNull)]) else Unauthorized)"

definition sample_peer :: "(unit, unit) Peer" where
  "sample_peer = \<lparr>file1 = Inr (rotated @ [0x0D, 0x0A]), server1 = bitcoind, file2 = Inr (rotated @ [0x0D, 0x0A]), server2 = bitcoind\<rparr>"

definition stale_client :: RpcClient where
  "stale_client = (client_new [] (Cookie [0x2F]))\<lparr>cached_userpass := Some [0x61, 0x3A, 0x62]\<rparr>"

lemma trim_rotated: "trim (takeWhile (\<lambda>b. b \<noteq> 0x0A) (rotated @ [0x0D, 0x0A])) = rotated"
  by (simp add: trim_def rotated_def strip_front.simps white_space_def is_prefix_def)

lemma bitcoind_accepts: "accepts_only rotated bitcoind"
  by (simp add: accepts_only_def bitcoind_def)

theorem cookie_rotation_recovers_witness:
  "\<exists>r qs c'. call_value sample_peer stale_client ''getbestblockhash'' (JArr []) None = (r, qs, c')
     \<and> r \<noteq> Inl AuthFailed \<and> length qs \<le> 2 \<and> hq_auth (last qs) = split_userpass rotated"
proof -
  obtain r qs c' where c: "call_value sample_peer stale_client ''getbestblockhash'' (JArr []) None = (r, qs, c')"
    by (rule prod_cases3)
  have a: "cl_auth stale_client = Cookie [0x2F]" "rotated \<noteq> []" "file2 sample_peer = Inr (rotated @ [0x0D, 0x0A])"
    "file1 sample_peer = Inr (rotated @ [0x0D, 0x0A])" "server1 sample_peer = bitcoind" "server2 sample_peer = bitcoind"
    by (simp_all add: stale_client_def client_new_def sample_peer_def rotated_def)
  show ?thesis
    using cookie_rotation_recovers [OF a(1,2) trim_rotated [symmetric] a(3) _ _ _ c] a bitcoind_accepts c by simp
qed


end
