(* ===== verification/Sv2Channels.thy ===== *)
theory Sv2Channels
  imports Floats ShareEncoder
begin

text \<open>
  The channels of one Stratum V2 connection (\<open>channel_manager.rs\<close> and the target clamp of
  \<open>share_path.rs\<close> of crate datum-stratum-sv2): opening standard and extended channels with
  their first job, closing, and the new jobs of a template change.  What the crate calls of the
  SRI stack (the extranonce allocator, the target of a hash rate, the share accounting) is a
  record of functions; text is its UTF-8 bytes, a 256-bit target its 32 little-endian bytes.
\<close>

unbundle bit_operations_syntax

section \<open>The SRI stack\<close>

text \<open>An error code is a literal of this crate or one of the SRI constants, by its name.\<close>

datatype error_code = Lit string | OPEN_MINING_CHANNEL_INVALID_USER_IDENTITY
  | OPEN_MINING_CHANNEL_INVALID_NOMINAL_HASHRATE | SUBMIT_SHARES_BAD_EXTRANONCE_SIZE
  | SUBMIT_SHARES_INVALID_JOB_ID | SUBMIT_SHARES_INVALID_SHARE | SUBMIT_SHARES_INVALID_CHANNEL_ID
  | VERSION_ROLLING_NOT_ALLOWED | UPDATE_CHANNEL_INVALID_CHANNEL_ID | UPDATE_CHANNEL_INVALID_NOMINAL_HASHRATE
  | SET_CUSTOM_MINING_JOB_JD_NOT_SUPPORTED | SETUP_CONNECTION_UNSUPPORTED_PROTOCOL
  | SETUP_CONNECTION_UNSUPPORTED_FEATURE_FLAGS

record ('a, 'p, 'g) sri =
  alloc_new :: "bytes \<Rightarrow> byte \<Rightarrow> u32 \<Rightarrow> 'a option"
  allocate_extended :: "nat \<Rightarrow> 'a \<Rightarrow> ('p \<times> 'a) option"
  allocate_standard :: "'a \<Rightarrow> ('p \<times> 'a) option"
  prefix_bytes :: "'p \<Rightarrow> bytes"
  release :: "'p \<Rightarrow> 'a \<Rightarrow> 'a" \<comment> \<open>the drop of a prefix\<close>
  hash_rate_to_target :: "fl \<Rightarrow> fl \<Rightarrow> bytes option"
  acct_new :: "nat \<Rightarrow> 'g"
  increment_rejected_shares :: "error_code \<Rightarrow> 'g \<Rightarrow> 'g"
  should_acknowledge :: "'g \<Rightarrow> bool"
  last_share_sequence_number :: "'g \<Rightarrow> u32"
  last_batch_accepted :: "'g \<Rightarrow> u32"
  last_batch_work_sum :: "'g \<Rightarrow> u64"
  has_work_selection :: "u32 \<Rightarrow> bool"

section \<open>Messages\<close>

datatype SupportedChannelTypes = ChStandard | ChExtended | StandardAndExtended | ChGroup | GroupAndExtended

text \<open>\<open>OpenStandardMiningChannel\<close> and \<open>OpenExtendedMiningChannel\<close>, as far as they are read.\<close>

record OpenMsg =
  om_request_id :: u32
  om_user_identity :: bytes
  om_nominal_hash_rate :: fl
  om_max_target :: bytes

record OpenSuccess =
  os_request_id :: u32
  os_channel_id :: u32
  os_target :: bytes
  os_extranonce_size :: "u16 option" \<comment> \<open>only in the reply to an extended channel\<close>
  os_extranonce_prefix :: bytes
  os_group_channel_id :: u32

record ExtJob =
  xj_channel_id :: u32
  xj_job_id :: u32
  xj_min_ntime :: "u32 option"
  xj_version :: u32
  xj_version_rolling_allowed :: bool
  xj_merkle_path :: "bytes list"
  xj_coinbase_tx_prefix :: bytes
  xj_coinbase_tx_suffix :: bytes

record StdJob =
  sj_channel_id :: u32
  sj_job_id :: u32
  sj_min_ntime :: "u32 option"
  sj_version :: u32
  sj_merkle_root :: bytes

record PrevHash =
  ph_channel_id :: u32
  ph_job_id :: u32
  ph_prev_hash :: bytes
  ph_min_ntime :: u32
  ph_nbits :: u32

record SubmitSuccess =
  sok_channel_id :: u32
  sok_last_sequence_number :: u32
  sok_new_submits_accepted_count :: u32
  sok_new_shares_sum :: u64

datatype MiningOut =
    OpenExtendedMiningChannelSuccess OpenSuccess
  | OpenStandardMiningChannelSuccess OpenSuccess
  | OpenMiningChannelError u32 error_code \<comment> \<open>request, error code\<close>
  | NewExtendedMiningJob ExtJob
  | NewMiningJob StdJob
  | SetNewPrevHash PrevHash
  | SubmitSharesSuccess SubmitSuccess
  | SubmitSharesError u32 u32 error_code \<comment> \<open>channel, sequence number, error code\<close>
  | SetTarget u32 bytes \<comment> \<open>channel, maximum target\<close>
  | UpdateChannelError u32 error_code
  | SetCustomMiningJobError u32 u32 error_code \<comment> \<open>channel, request, error code\<close>

fun channel_msg :: "MiningOut \<Rightarrow> bool" where
  "channel_msg (OpenExtendedMiningChannelSuccess m) = False"
| "channel_msg (OpenStandardMiningChannelSuccess m) = False"
| "channel_msg (OpenMiningChannelError r e) = False"
| "channel_msg (NewExtendedMiningJob m) = True"
| "channel_msg (NewMiningJob m) = True"
| "channel_msg (SetNewPrevHash m) = True"
| "channel_msg (SubmitSharesSuccess m) = True"
| "channel_msg (SubmitSharesError c s e) = True"
| "channel_msg (SetTarget c t) = True"
| "channel_msg (UpdateChannelError c e) = True"
| "channel_msg (SetCustomMiningJobError c r e) = True"

section \<open>Targets\<close>

text \<open>\<open>for i in (0..n).rev()\<close> of the two clamps.\<close>

fun clamp_from :: "nat \<Rightarrow> bytes \<Rightarrow> bytes \<Rightarrow> bytes" where
  "clamp_from 0 p m = p"
| "clamp_from (Suc i) p m = (if p ! i > m ! i then m else if p ! i < m ! i then p else clamp_from i p m)"

definition clamp_target_to_min_hashrate_le :: "bytes \<Rightarrow> bytes \<Rightarrow> bytes" where
  "clamp_target_to_min_hashrate_le proposed min_target = clamp_from 32 proposed min_target"

definition clamp_target_to_channel_max :: "bytes \<Rightarrow> bytes \<Rightarrow> bytes" where
  "clamp_target_to_channel_max proposed max_target = clamp_from 32 proposed max_target"

definition compute_min_target_le :: "('a, 'p, 'g) sri \<Rightarrow> fl \<Rightarrow> fl \<Rightarrow> bytes" where
  "compute_min_target_le S threshold rate =
     (case hash_rate_to_target S threshold rate of Some t \<Rightarrow> t | None \<Rightarrow> replicate 32 0xFF)"

section \<open>The manager\<close>

record 'p OpenedChannel =
  oc_channel_id :: u32
  oc_user_identity :: bytes
  oc_is_extended :: bool
  oc_extranonce_prefix :: 'p
  oc_last_job_id :: u32
  oc_nominal_hash_rate :: fl
  oc_max_target_le :: bytes

datatype ChannelOpenError = AllocatorError | NoTemplateYet | InvalidUserIdentity | EncodeError

record ('a, 'p) ChannelManager =
  cm_allocator :: 'a
  cm_channels :: "u32 \<rightharpoonup> 'p OpenedChannel"
  cm_next_channel_id :: u32
  cm_next_job_id :: u32
  cm_min_hashrate_threshold :: fl
  cm_min_target_le :: bytes

definition TOTAL_EXTRANONCE_LEN :: byte where "TOTAL_EXTRANONCE_LEN = 12"
definition MAX_CHANNELS :: u32 where "MAX_CHANNELS = 65536"
definition DEFAULT_MIN_HASHRATE_THRESHOLD :: fl where "DEFAULT_MIN_HASHRATE_THRESHOLD = Fin (10 ^ 12)"
definition DEFAULT_EXPECTED_SHARE_PER_MINUTE :: fl where "DEFAULT_EXPECTED_SHARE_PER_MINUTE = Fin 6"

definition with_policy :: "('a, 'p, 'g) sri \<Rightarrow> fl \<Rightarrow> fl \<Rightarrow> ('a, 'p) ChannelManager option" where
  "with_policy S threshold rate =
     (case alloc_new S [] TOTAL_EXTRANONCE_LEN MAX_CHANNELS of
        None \<Rightarrow> None
      | Some allocator \<Rightarrow>
          Some \<lparr>cm_allocator = allocator, cm_channels = Map.empty, cm_next_channel_id = 1, cm_next_job_id = 1,
            cm_min_hashrate_threshold = threshold, cm_min_target_le = compute_min_target_le S threshold rate\<rparr>)"

definition channel_manager_new :: "('a, 'p, 'g) sri \<Rightarrow> ('a, 'p) ChannelManager option" where
  "channel_manager_new S = with_policy S DEFAULT_MIN_HASHRATE_THRESHOLD DEFAULT_EXPECTED_SHARE_PER_MINUTE"

definition get_channel_type_for_client :: SupportedChannelTypes where
  "get_channel_type_for_client = StandardAndExtended"

definition is_work_selection_enabled_for_client :: bool where "is_work_selection_enabled_for_client = False"

definition is_client_authorized :: "bytes \<Rightarrow> bool" where "is_client_authorized user_identity = (user_identity \<noteq> [])"

definition str_from_str0255 :: "bytes \<Rightarrow> bytes option" where
  "str_from_str0255 s = (if s = [] then None else if utf8_valid s then Some s else None)"

section \<open>Jobs\<close>

text \<open>The wire types bound their lengths (\<open>Seq0255\<close>, \<open>B064K\<close>); None is the encoding error.\<close>

definition build_new_extended_job :: "u32 \<Rightarrow> u32 \<Rightarrow> TemplateState \<Rightarrow> ExtJob option" where
  "build_new_extended_job channel_id job_id t =
     (if 255 < length (merkle_branches t) then None
      else if 65535 < length (coinb1 t) then None
      else if 65535 < length (coinb2 t) then None
      else Some \<lparr>xj_channel_id = channel_id, xj_job_id = job_id, xj_min_ntime = None, xj_version = version t,
        xj_version_rolling_allowed = True, xj_merkle_path = map rev (merkle_branches t),
        xj_coinbase_tx_prefix = coinb1 t, xj_coinbase_tx_suffix = coinb2 t\<rparr>)"

definition build_set_new_prev_hash :: "u32 \<Rightarrow> u32 \<Rightarrow> TemplateState \<Rightarrow> PrevHash" where
  "build_set_new_prev_hash channel_id job_id t =
     \<lparr>ph_channel_id = channel_id, ph_job_id = job_id, ph_prev_hash = prev_hash t, ph_min_ntime = min_ntime t,
      ph_nbits = be_word (nbits t)\<rparr>"

definition compute_merkle_root_for_standard :: "libs \<Rightarrow> bytes \<Rightarrow> bytes \<Rightarrow> bytes \<Rightarrow> bytes list \<Rightarrow> bytes" where
  "compute_merkle_root_for_standard X c1 extranonce_prefix c2 branches_be =
     foldl (\<lambda>hash_le branch_be. double_sha256 X (hash_le @ rev branch_be))
       (double_sha256 X (c1 @ extranonce_prefix @ c2)) branches_be"

definition standard_job :: "libs \<Rightarrow> u32 \<Rightarrow> u32 \<Rightarrow> bytes \<Rightarrow> TemplateState \<Rightarrow> StdJob" where
  "standard_job X channel_id job_id xprefix t =
     \<lparr>sj_channel_id = channel_id, sj_job_id = job_id, sj_min_ntime = None, sj_version = version t,
      sj_merkle_root = compute_merkle_root_for_standard X (coinb1 t) xprefix (coinb2 t) (merkle_branches t)\<rparr>"

section \<open>Opening a channel\<close>

text \<open>The inner functions: the messages or the error, and the manager.  An error after the
  allocation drops the prefix, which frees its slot; the counters stay advanced.\<close>

definition insert_channel ::
  "('a, 'p, 'g) sri \<Rightarrow> u32 \<Rightarrow> 'p OpenedChannel \<Rightarrow> ('a, 'p) ChannelManager \<Rightarrow> ('a, 'p) ChannelManager" where
  "insert_channel S cid ch m =
     (let a = (case cm_channels m cid of None \<Rightarrow> cm_allocator m
                | Some old \<Rightarrow> release S (oc_extranonce_prefix old) (cm_allocator m))
      in m\<lparr>cm_channels := (cm_channels m)(cid \<mapsto> ch), cm_allocator := a\<rparr>)"

definition open_extended_inner ::
  "('a, 'p, 'g) sri \<Rightarrow> TemplateState option \<Rightarrow> u32 \<Rightarrow> bytes \<Rightarrow> fl \<Rightarrow> bytes \<Rightarrow> ('a, 'p) ChannelManager
     \<Rightarrow> (ChannelOpenError + MiningOut list) \<times> ('a, 'p) ChannelManager" where
  "open_extended_inner S tmpl request_id user rate max_target m =
     (case tmpl of None \<Rightarrow> (Err NoTemplateYet, m) | Some t \<Rightarrow>
      (case allocate_extended S 10 (cm_allocator m) of None \<Rightarrow> (Err AllocatorError, m) | Some (p, a) \<Rightarrow>
       (let xprefix = prefix_bytes S p; cid = cm_next_channel_id m; job_id = cm_next_job_id m;
            m1 = m\<lparr>cm_allocator := a, cm_next_channel_id := cid + 1, cm_next_job_id := job_id + 1\<rparr>;
            failed = m1\<lparr>cm_allocator := release S p a\<rparr>;
            initial = clamp_target_to_min_hashrate_le max_target (cm_min_target_le m)
        in if 32 < length xprefix then (Err EncodeError, failed)
           else case build_new_extended_job cid job_id t of None \<Rightarrow> (Err EncodeError, failed) | Some job \<Rightarrow>
             (Ok [OpenExtendedMiningChannelSuccess \<lparr>os_request_id = request_id, os_channel_id = cid,
                    os_target = initial, os_extranonce_size = Some 10, os_extranonce_prefix = xprefix,
                    os_group_channel_id = 0\<rparr>,
                  NewExtendedMiningJob job, SetNewPrevHash (build_set_new_prev_hash cid job_id t)],
              insert_channel S cid \<lparr>oc_channel_id = cid, oc_user_identity = user, oc_is_extended = True,
                oc_extranonce_prefix = p, oc_last_job_id = job_id, oc_nominal_hash_rate = rate,
                oc_max_target_le = max_target\<rparr> m1))))"

definition open_standard_inner ::
  "libs \<Rightarrow> ('a, 'p, 'g) sri \<Rightarrow> TemplateState option \<Rightarrow> u32 \<Rightarrow> bytes \<Rightarrow> fl \<Rightarrow> bytes \<Rightarrow> ('a, 'p) ChannelManager
     \<Rightarrow> (ChannelOpenError + MiningOut list) \<times> ('a, 'p) ChannelManager" where
  "open_standard_inner X S tmpl request_id user rate max_target m =
     (case tmpl of None \<Rightarrow> (Err NoTemplateYet, m) | Some t \<Rightarrow>
      (case allocate_standard S (cm_allocator m) of None \<Rightarrow> (Err AllocatorError, m) | Some (p, a) \<Rightarrow>
       (let xprefix = prefix_bytes S p; cid = cm_next_channel_id m; job_id = cm_next_job_id m;
            m1 = m\<lparr>cm_allocator := a, cm_next_channel_id := cid + 1, cm_next_job_id := job_id + 1\<rparr>;
            initial = clamp_target_to_min_hashrate_le max_target (cm_min_target_le m)
        in if 32 < length xprefix then (Err EncodeError, m1\<lparr>cm_allocator := release S p a\<rparr>)
           else
             (Ok [OpenStandardMiningChannelSuccess \<lparr>os_request_id = request_id, os_channel_id = cid,
                    os_target = initial, os_extranonce_size = None, os_extranonce_prefix = xprefix,
                    os_group_channel_id = 0\<rparr>,
                  NewMiningJob (standard_job X cid job_id xprefix t),
                  SetNewPrevHash (build_set_new_prev_hash cid job_id t)],
              insert_channel S cid \<lparr>oc_channel_id = cid, oc_user_identity = user, oc_is_extended = False,
                oc_extranonce_prefix = p, oc_last_job_id = job_id, oc_nominal_hash_rate = rate,
                oc_max_target_le = max_target\<rparr> m1))))"

definition open_error_code :: "ChannelOpenError \<Rightarrow> error_code" where
  "open_error_code e = (case e of AllocatorError \<Rightarrow> Lit ''min-extranonce-size-too-large''
     | NoTemplateYet \<Rightarrow> Lit ''unknown-user'' | InvalidUserIdentity \<Rightarrow> OPEN_MINING_CHANNEL_INVALID_USER_IDENTITY
     | EncodeError \<Rightarrow> Lit ''internal-encode-error'')"

definition hashrate_refused :: "fl \<Rightarrow> fl \<Rightarrow> bool" where
  "hashrate_refused rate threshold \<longleftrightarrow> \<not> fl_is_finite rate \<or> fl_le rate (Fin 0) \<or> fl_lt rate threshold"

text \<open>The checks of both open handlers; \<open>inner\<close> is what each then does.\<close>

definition checked_open ::
  "(bytes \<Rightarrow> ('a, 'p) ChannelManager \<Rightarrow> (ChannelOpenError + MiningOut list) \<times> ('a, 'p) ChannelManager)
     \<Rightarrow> OpenMsg \<Rightarrow> ('a, 'p) ChannelManager \<Rightarrow> MiningOut list \<times> ('a, 'p) ChannelManager" where
  "checked_open inner msg m =
     (let fail = (\<lambda>code. ([OpenMiningChannelError (om_request_id msg) code], m))
      in if \<not> is_client_authorized (om_user_identity msg) then fail OPEN_MINING_CHANNEL_INVALID_USER_IDENTITY
         else case str_from_str0255 (om_user_identity msg) of None \<Rightarrow> fail OPEN_MINING_CHANNEL_INVALID_USER_IDENTITY
         | Some user \<Rightarrow>
             if hashrate_refused (om_nominal_hash_rate msg) (cm_min_hashrate_threshold m)
             then fail OPEN_MINING_CHANNEL_INVALID_NOMINAL_HASHRATE
             else if length (om_max_target msg) \<noteq> 32 then fail (Lit ''max-target-out-of-range'')
             else case inner user m of
                 (Inr outs, m') \<Rightarrow> (outs, m')
               | (Inl e, m') \<Rightarrow> ([OpenMiningChannelError (om_request_id msg) (open_error_code e)], m'))"

definition handle_open_extended_mining_channel ::
  "('a, 'p, 'g) sri \<Rightarrow> TemplateState option \<Rightarrow> OpenMsg \<Rightarrow> ('a, 'p) ChannelManager
     \<Rightarrow> MiningOut list \<times> ('a, 'p) ChannelManager" where
  "handle_open_extended_mining_channel S tmpl msg m =
     checked_open (\<lambda>user. open_extended_inner S tmpl (om_request_id msg) user (om_nominal_hash_rate msg) (om_max_target msg)) msg m"

definition handle_open_standard_mining_channel ::
  "libs \<Rightarrow> ('a, 'p, 'g) sri \<Rightarrow> TemplateState option \<Rightarrow> OpenMsg \<Rightarrow> ('a, 'p) ChannelManager
     \<Rightarrow> MiningOut list \<times> ('a, 'p) ChannelManager" where
  "handle_open_standard_mining_channel X S tmpl msg m =
     checked_open (\<lambda>user. open_standard_inner X S tmpl (om_request_id msg) user (om_nominal_hash_rate msg) (om_max_target msg)) msg m"

definition handle_close_channel ::
  "('a, 'p, 'g) sri \<Rightarrow> u32 \<Rightarrow> ('a, 'p) ChannelManager \<Rightarrow> ('a, 'p) ChannelManager" where
  "handle_close_channel S cid m =
     (case cm_channels m cid of None \<Rightarrow> m
      | Some ch \<Rightarrow> m\<lparr>cm_channels := (cm_channels m)(cid := None),
          cm_allocator := release S (oc_extranonce_prefix ch) (cm_allocator m)\<rparr>)"

text \<open>\<open>ids\<close> are the keys in the unspecified order of the hash map.\<close>

fun on_template_update ::
  "libs \<Rightarrow> ('a, 'p, 'g) sri \<Rightarrow> TemplateState \<Rightarrow> u32 list \<Rightarrow> ('a, 'p) ChannelManager
     \<Rightarrow> MiningOut list \<times> ('a, 'p) ChannelManager" where
  "on_template_update X S t [] m = ([], m)"
| "on_template_update X S t (cid # ids) m =
     (let job_id = cm_next_job_id m; m1 = m\<lparr>cm_next_job_id := job_id + 1\<rparr>;
          is_extended = (case cm_channels m cid of Some c \<Rightarrow> oc_is_extended c | None \<Rightarrow> False);
          xprefix = (case cm_channels m cid of Some c \<Rightarrow> prefix_bytes S (oc_extranonce_prefix c) | None \<Rightarrow> []);
          job = (if is_extended
                 then (case build_new_extended_job cid job_id t of Some j \<Rightarrow> [NewExtendedMiningJob j] | None \<Rightarrow> [])
                 else [NewMiningJob (standard_job X cid job_id xprefix t)]);
          m2 = (case cm_channels m1 cid of None \<Rightarrow> m1
                | Some c \<Rightarrow> m1\<lparr>cm_channels := (cm_channels m1)(cid \<mapsto> c\<lparr>oc_last_job_id := job_id\<rparr>)\<rparr>);
          (rest, m3) = on_template_update X S t ids m2
      in (job @ [SetNewPrevHash (build_set_new_prev_hash cid job_id t)] @ rest, m3))"

end
