(* ===== verification/Sv2Share.thy ===== *)
theory Sv2Share
  imports Sv2Channels
begin

text \<open>
  The share path of the Stratum V2 server (\<open>share_path.rs\<close>): the variable difficulty of a
  channel, the target of a difficulty, the metadata of a tracked job, the validation of extended
  and standard shares (which builds the DATUM submission), and the replies to \<open>UpdateChannel\<close>
  and \<open>SetCustomMiningJob\<close>.  Time is the number of whole seconds since the last snapshot.
\<close>

unbundle bit_operations_syntax

section \<open>Variable difficulty\<close>

record Sv2VardiffParams =
  vp_min :: u64
  vp_target_shares_min :: u32
  vp_recheck_secs :: u64
  vp_max :: u64

definition default_sv2_vardiff :: Sv2VardiffParams where
  "default_sv2_vardiff = \<lparr>vp_min = 1, vp_target_shares_min = 6, vp_recheck_secs = 30, vp_max = push_bit 40 1\<rparr>"

record VardiffState =
  vs_params :: Sv2VardiffParams
  vs_current_diff :: u64
  vs_shares_since_snap :: u32

definition vardiff_state_new :: "Sv2VardiffParams \<Rightarrow> u64 \<Rightarrow> VardiffState" where
  "vardiff_state_new p initial_diff =
     \<lparr>vs_params = p, vs_current_diff = max initial_diff (vp_min p), vs_shares_since_snap = 0\<rparr>"

definition record_share :: "VardiffState \<Rightarrow> VardiffState" where
  "record_share v = v\<lparr>vs_shares_since_snap := saturating_add (vs_shares_since_snap v) 1\<rparr>"

text \<open>\<open>target * window_secs\<close> wraps in a release build.\<close>

definition maybe_step :: "u64 \<Rightarrow> VardiffState \<Rightarrow> u64 option \<times> VardiffState" where
  "maybe_step elapsed v =
     (let p = vs_params v; target = ucast (vp_target_shares_min p) :: u64; window = max elapsed 1;
          expected = max (div_ceil (target * window) 60) 1; observed = ucast (vs_shares_since_snap v) :: u64;
          d = (if 16 \<le> observed \<and> saturating_mul expected 2 < observed
               then min (saturating_mul (vs_current_diff v) 2) (vp_max p)
               else if saturating_mul observed 2 < expected \<and> vp_recheck_secs p \<le> elapsed
               then max (vs_current_diff v div 2) (vp_min p)
               else vs_current_diff v);
          d = (if d < vp_min p then vp_min p else d);
          v1 = v\<lparr>vs_shares_since_snap := 0\<rparr>
      in if d \<noteq> vs_current_diff v then (Some d, v1\<lparr>vs_current_diff := d\<rparr>) else (None, v1))"

definition diff_to_target_le :: "u64 \<Rightarrow> bytes" where
  "diff_to_target_le diff =
     (if diff = 0 then replicate 32 0xFF
      else let max_top = push_bit 64 0xFFFF0000 :: 128 word; scaled = max_top div ucast diff
           in replicate 16 0 @ le_bytes 16 scaled)"

section \<open>Validating a share\<close>

definition job_meta_from_template :: "TemplateState \<Rightarrow> byte \<Rightarrow> byte \<Rightarrow> JobMeta" where
  "job_meta_from_template t datum_job_idx coinbase_id =
     \<lparr>jm_datum_job_idx = datum_job_idx, jm_coinbase_id = coinbase_id, jm_target_pot_index = target_pot_index t,
      jm_version = version t, jm_height = height t, jm_coinbase_value = ts_coinbase_value t,
      jm_prevhash_bin = prev_hash t, jm_nbits_bin = nbits t, jm_merkle_branches_bin = merkle_branches t,
      jm_coinb1_bin = coinb1 t, jm_coinb2_bin = coinb2 t, jm_datum_coinbaser_id = datum_coinbaser_id t,
      jm_txn_count = txn_count t, jm_txn_total_weight = txn_total_weight t, jm_txn_total_size = txn_total_size t,
      jm_txn_total_sigops = txn_total_sigops t, jm_block_target = block_target t, jm_txn_data_hex = txn_data_hex t\<rparr>"

datatype ShareOutcome = Valid bytes | BlockFound bytes BlockSubmissionPayload | ShareRejected error_code

record SharesExtended =
  se_channel_id :: u32
  se_sequence_number :: u32
  se_job_id :: u32
  se_nonce :: u32
  se_ntime :: u32
  se_version :: u32
  se_extranonce :: bytes \<comment> \<open>extended shares only\<close>

text \<open>What the share functions change: the accounting, the job tracker and the padding state.\<close>

type_synonym 'g share_state = "'g \<times> JobTracker \<times> u64"

definition rejected :: "('a, 'p, 'g) sri \<Rightarrow> error_code \<Rightarrow> 'g share_state \<Rightarrow> ShareOutcome \<times> 'g share_state" where
  "rejected S code s = (case s of (g, t, pad) \<Rightarrow> (ShareRejected code, increment_rejected_shares S code g, t, pad))"

definition finalize_share ::
  "libs \<Rightarrow> ('a, 'p, 'g) sri \<Rightarrow> u32 \<Rightarrow> u32 \<Rightarrow> u32 \<Rightarrow> bytes \<Rightarrow> bytes \<Rightarrow> u64 \<Rightarrow> ShareUserConfig \<Rightarrow> JobKey \<Rightarrow> u64
     \<Rightarrow> 'g share_state \<Rightarrow> ShareOutcome \<times> 'g share_state" where
  "finalize_share X S nonce ntime ver extranonce username current_diff user_cfg key seed s =
     (case s of (g, t, pad) \<Rightarrow>
      case get_entry t key of
        None \<Rightarrow> rejected S SUBMIT_SHARES_INVALID_JOB_ID s
      | Some entry \<Rightarrow>
          (let cb = jm_coinbase_id (je_meta entry);
               seen = cross_protocol_coinbase_already_seen t seed cb;
               inputs = \<lparr>si_username = username, si_extranonce = extranonce, si_ntime = ntime, si_nonce = nonce,
                 si_version = ver, si_current_diff = current_diff, si_patched_coinb1 = None\<rparr>;
               (enc, entry', pad') = build_share_submission X inputs entry user_cfg seen pad;
               t1 = set_entry t key entry';
               sent = (unat cb < length (server_has_coinbase entry') \<and> server_has_coinbase entry' ! unat cb);
               t2 = (if sent \<and> \<not> seen then mark_cross_protocol_coinbase_seen t1 seed cb else t1)
           in (case se_block_submission enc of
                 Some bp \<Rightarrow> BlockFound (se_body enc) bp
               | None \<Rightarrow> Valid (se_body enc), g, t2, pad')))"

text \<open>The twelve bytes: the prefix, then as much of the miner's part as fits, then zeros.\<close>

definition full_extranonce :: "bytes \<Rightarrow> bytes \<Rightarrow> bytes" where
  "full_extranonce xprefix extra =
     (let p = min (length xprefix) 12; n = min (12 - p) (length extra)
      in take p xprefix @ take n extra @ replicate (12 - p - n) 0)"

definition validate_extended_share ::
  "libs \<Rightarrow> ('a, 'p, 'g) sri \<Rightarrow> SharesExtended \<Rightarrow> u16 \<Rightarrow> bytes \<Rightarrow> u64 \<Rightarrow> ShareUserConfig \<Rightarrow> bytes \<Rightarrow> bool \<Rightarrow> JobKey
     \<Rightarrow> u64 \<Rightarrow> 'g share_state \<Rightarrow> ShareOutcome \<times> 'g share_state" where
  "validate_extended_share X S share expected_size xprefix current_diff user_cfg username rolling_allowed key seed s =
     (if length (se_extranonce share) \<noteq> unat expected_size then rejected S SUBMIT_SHARES_BAD_EXTRANONCE_SIZE s
      else if \<not> rolling_allowed \<and> se_version share AND 0x1fffe000 \<noteq> 0 then rejected S VERSION_ROLLING_NOT_ALLOWED s
      else finalize_share X S (se_nonce share) (se_ntime share) (se_version share)
        (full_extranonce xprefix (se_extranonce share)) username current_diff user_cfg key seed s)"

definition validate_standard_share ::
  "libs \<Rightarrow> ('a, 'p, 'g) sri \<Rightarrow> SharesExtended \<Rightarrow> bytes \<Rightarrow> u64 \<Rightarrow> ShareUserConfig \<Rightarrow> bytes \<Rightarrow> bool \<Rightarrow> JobKey \<Rightarrow> u64
     \<Rightarrow> 'g share_state \<Rightarrow> ShareOutcome \<times> 'g share_state" where
  "validate_standard_share X S share xprefix current_diff user_cfg username rolling_allowed key seed s =
     (if \<not> rolling_allowed \<and> se_version share AND 0x1fffe000 \<noteq> 0 then rejected S VERSION_ROLLING_NOT_ALLOWED s
      else finalize_share X S (se_nonce share) (se_ntime share) (se_version share)
        (full_extranonce xprefix []) username current_diff user_cfg key seed s)"

section \<open>Replies\<close>

definition build_submit_shares_error :: "u32 \<Rightarrow> u32 \<Rightarrow> error_code \<Rightarrow> MiningOut" where
  "build_submit_shares_error channel_id sequence_number code = SubmitSharesError channel_id sequence_number code"

definition build_submit_shares_success :: "('a, 'p, 'g) sri \<Rightarrow> u32 \<Rightarrow> 'g \<Rightarrow> MiningOut" where
  "build_submit_shares_success S channel_id g = SubmitSharesSuccess
     \<lparr>sok_channel_id = channel_id, sok_last_sequence_number = last_share_sequence_number S g,
      sok_new_submits_accepted_count = last_batch_accepted S g, sok_new_shares_sum = last_batch_work_sum S g\<rparr>"

record UpdateMsg =
  um_channel_id :: u32
  um_nominal_hash_rate :: fl
  um_maximum_target :: bytes

definition handle_update_channel :: "UpdateMsg \<Rightarrow> fl \<Rightarrow> bytes \<Rightarrow> MiningOut + MiningOut" where
  "handle_update_channel msg threshold min_target =
     (if hashrate_refused (um_nominal_hash_rate msg) threshold
      then Err (UpdateChannelError (um_channel_id msg) UPDATE_CHANNEL_INVALID_NOMINAL_HASHRATE)
      else if length (um_maximum_target msg) \<noteq> 32
      then Err (UpdateChannelError (um_channel_id msg) UPDATE_CHANNEL_INVALID_CHANNEL_ID)
      else Ok (SetTarget (um_channel_id msg) (clamp_target_to_min_hashrate_le (um_maximum_target msg) min_target)))"

definition handle_set_custom_mining_job :: "u32 \<Rightarrow> u32 \<Rightarrow> MiningOut" where
  "handle_set_custom_mining_job channel_id request_id =
     SetCustomMiningJobError channel_id request_id SET_CUSTOM_MINING_JOB_JD_NOT_SUPPORTED"

end
