(* ===== verification/Sv2Listener.thy ===== *)
theory Sv2Listener
  imports Sv2Share
begin

text \<open>
  One Stratum V2 connection (\<open>listener.rs\<close>, \<open>setup_connection.rs\<close>): the reply to
  \<open>SetupConnection\<close>, the dispatch of the messages that follow, the jobs entered into the shared
  tracker, and the shares forwarded to the pool.  Frames are parsed messages, and a step
  returns the messages handed to the frame writer.
\<close>

unbundle bit_operations_syntax

section \<open>SetupConnection\<close>

datatype Protocol = MiningProtocol | JobDeclarationProtocol | TemplateDistributionProtocol

definition FLAG_REQUIRES_WORK_SELECTION :: u32 where "FLAG_REQUIRES_WORK_SELECTION = 2"

datatype SetupConnectionResponse =
    SetupSuccess u16 u32 \<comment> \<open>used version, flags\<close>
  | SetupError u32 error_code \<comment> \<open>flags, error code\<close>

definition handle_setup_connection :: "('a, 'p, 'g) sri \<Rightarrow> Protocol \<Rightarrow> u32 \<Rightarrow> SetupConnectionResponse" where
  "handle_setup_connection S protocol flags =
     (if protocol \<noteq> MiningProtocol then SetupError 0 SETUP_CONNECTION_UNSUPPORTED_PROTOCOL
      else if has_work_selection S flags
      then SetupError FLAG_REQUIRES_WORK_SELECTION SETUP_CONNECTION_UNSUPPORTED_FEATURE_FLAGS
      else SetupSuccess 2 0)"

section \<open>Messages after the setup\<close>

datatype sv2_msg =
    OpenStandard OpenMsg
  | OpenExtended OpenMsg
  | CloseChannel u32
  | UpdateChannel UpdateMsg
  | SubmitStandard SharesExtended
  | SubmitExtended SharesExtended
  | SetCustomMiningJob u32 u32
  | OtherMessage

text \<open>What a connection shares with the rest of the gateway: the template channel, the tracker
  with the padding state, and whether the upstream queue is still open.\<close>

record Sv2Shared =
  sh_template :: "TemplateState option"
  sh_tracker :: JobTracker
  sh_pad :: u64
  sh_upstream_open :: bool
  sh_user_cfg :: ShareUserConfig
  sh_min_hashrate_threshold :: fl

record ('a, 'p, 'g) Sv2Conn =
  co_mgr :: "('a, 'p) ChannelManager"
  co_acct :: 'g

text \<open>What a step emits: frames, bodies enqueued for the pool, blocks for the submitter.\<close>

record Sv2Out =
  out_frames :: "MiningOut list"
  out_shares :: "bytes list"
  out_blocks :: "BlockSubmissionPayload list"

definition no_out :: Sv2Out where "no_out = \<lparr>out_frames = [], out_shares = [], out_blocks = []\<rparr>"

definition frames :: "MiningOut list \<Rightarrow> Sv2Out" where "frames ms = no_out\<lparr>out_frames := ms\<rparr>"

datatype ConnectionError = UnexpectedFirstFrame byte | ParseFailed | UpstreamGone | ManagerInit

section \<open>Seeding the tracker\<close>

fun seed_keys :: "MiningOut list \<Rightarrow> JobKey list" where
  "seed_keys [] = []"
| "seed_keys (NewExtendedMiningJob j # outs) = Sv2 (xj_channel_id j) (xj_job_id j) # seed_keys outs"
| "seed_keys (NewMiningJob j # outs) = Sv2 (sj_channel_id j) (sj_job_id j) # seed_keys outs"
| "seed_keys (m # outs) = seed_keys outs"

definition seed_job_tracker :: "TemplateState option \<Rightarrow> MiningOut list \<Rightarrow> JobTracker \<Rightarrow> JobTracker" where
  "seed_job_tracker tmpl outs t =
     (case tmpl of None \<Rightarrow> t
      | Some template \<Rightarrow>
          foldl (\<lambda>t key. tracker_insert t key (job_meta_from_template template 0 0) (job_id_seed template)) t (seed_keys outs))"

section \<open>Shares\<close>

definition forward_share_outcome ::
  "('a, 'p, 'g) sri \<Rightarrow> bool \<Rightarrow> u32 \<Rightarrow> u32 \<Rightarrow> ShareOutcome \<Rightarrow> 'g \<Rightarrow> ConnectionError + Sv2Out" where
  "forward_share_outcome S upstream_open cid seq outcome g =
     (case outcome of
        Valid body \<Rightarrow>
          if \<not> upstream_open then Err UpstreamGone
          else Ok (no_out\<lparr>out_shares := [body],
                 out_frames := (if should_acknowledge S g then [build_submit_shares_success S cid g] else [])\<rparr>)
      | BlockFound body payload \<Rightarrow>
          if \<not> upstream_open then Err UpstreamGone
          else Ok (no_out\<lparr>out_shares := [body], out_blocks := [payload], out_frames := [build_submit_shares_success S cid g]\<rparr>)
      | ShareRejected code \<Rightarrow> Ok (frames [build_submit_shares_error cid seq code]))"

text \<open>The difficulty that the dispatcher uses for every channel.\<close>

definition DISPATCH_DIFF :: u64 where "DISPATCH_DIFF = 8"

definition current_seed :: "TemplateState option \<Rightarrow> u64" where
  "current_seed tmpl = (case tmpl of Some t \<Rightarrow> job_id_seed t | None \<Rightarrow> 0)"

definition after_share ::
  "('a, 'p, 'g) sri \<Rightarrow> u32 \<Rightarrow> u32 \<Rightarrow> ShareOutcome \<times> 'g share_state \<Rightarrow> Sv2Shared \<Rightarrow> ('a, 'p, 'g) Sv2Conn
     \<Rightarrow> (ConnectionError + Sv2Out) \<times> Sv2Shared \<times> ('a, 'p, 'g) Sv2Conn" where
  "after_share S cid seq r sh c =
     (case r of (outcome, g, t, pad) \<Rightarrow>
        (forward_share_outcome S (sh_upstream_open sh) cid seq outcome g,
         sh\<lparr>sh_tracker := t, sh_pad := pad\<rparr>, c\<lparr>co_acct := g\<rparr>))"

definition handle_submit_extended ::
  "libs \<Rightarrow> ('a, 'p, 'g) sri \<Rightarrow> SharesExtended \<Rightarrow> Sv2Shared \<Rightarrow> ('a, 'p, 'g) Sv2Conn
     \<Rightarrow> (ConnectionError + Sv2Out) \<times> Sv2Shared \<times> ('a, 'p, 'g) Sv2Conn" where
  "handle_submit_extended X S share sh c =
     (let cid = se_channel_id share; seq = se_sequence_number share;
          refuse = (\<lambda>code. (Ok (frames [build_submit_shares_error cid seq code]), sh, c))
      in case cm_channels (co_mgr c) cid of
           None \<Rightarrow> refuse SUBMIT_SHARES_INVALID_CHANNEL_ID
         | Some ch \<Rightarrow>
             if \<not> oc_is_extended ch then refuse SUBMIT_SHARES_BAD_EXTRANONCE_SIZE
             else after_share S cid seq
               (validate_extended_share X S share 10 (prefix_bytes S (oc_extranonce_prefix ch)) DISPATCH_DIFF (sh_user_cfg sh)
                  (oc_user_identity ch) True (Sv2 cid (se_job_id share)) (current_seed (sh_template sh))
                  (co_acct c, sh_tracker sh, sh_pad sh)) sh c)"

definition handle_submit_standard ::
  "libs \<Rightarrow> ('a, 'p, 'g) sri \<Rightarrow> SharesExtended \<Rightarrow> Sv2Shared \<Rightarrow> ('a, 'p, 'g) Sv2Conn
     \<Rightarrow> (ConnectionError + Sv2Out) \<times> Sv2Shared \<times> ('a, 'p, 'g) Sv2Conn" where
  "handle_submit_standard X S share sh c =
     (let cid = se_channel_id share; seq = se_sequence_number share;
          refuse = (\<lambda>code. (Ok (frames [build_submit_shares_error cid seq code]), sh, c))
      in case cm_channels (co_mgr c) cid of
           None \<Rightarrow> refuse SUBMIT_SHARES_INVALID_CHANNEL_ID
         | Some ch \<Rightarrow>
             if oc_is_extended ch then refuse SUBMIT_SHARES_INVALID_SHARE
             else after_share S cid seq
               (validate_standard_share X S share (prefix_bytes S (oc_extranonce_prefix ch)) DISPATCH_DIFF (sh_user_cfg sh)
                  (oc_user_identity ch) True (Sv2 cid (se_job_id share)) (current_seed (sh_template sh))
                  (co_acct c, sh_tracker sh, sh_pad sh)) sh c)"

section \<open>The dispatch\<close>

definition opened ::
  "MiningOut list \<times> ('a, 'p) ChannelManager \<Rightarrow> Sv2Shared \<Rightarrow> ('a, 'p, 'g) Sv2Conn
     \<Rightarrow> (ConnectionError + Sv2Out) \<times> Sv2Shared \<times> ('a, 'p, 'g) Sv2Conn" where
  "opened r sh c =
     (case r of (outs, m) \<Rightarrow>
        (Ok (frames outs), sh\<lparr>sh_tracker := seed_job_tracker (sh_template sh) outs (sh_tracker sh)\<rparr>, c\<lparr>co_mgr := m\<rparr>))"

definition dispatch_frame ::
  "libs \<Rightarrow> ('a, 'p, 'g) sri \<Rightarrow> sv2_msg \<Rightarrow> Sv2Shared \<Rightarrow> ('a, 'p, 'g) Sv2Conn
     \<Rightarrow> (ConnectionError + Sv2Out) \<times> Sv2Shared \<times> ('a, 'p, 'g) Sv2Conn" where
  "dispatch_frame X S msg sh c =
     (case msg of
        OpenStandard m \<Rightarrow> opened (handle_open_standard_mining_channel X S (sh_template sh) m (co_mgr c)) sh c
      | OpenExtended m \<Rightarrow> opened (handle_open_extended_mining_channel S (sh_template sh) m (co_mgr c)) sh c
      | CloseChannel cid \<Rightarrow> (Ok no_out, sh, c\<lparr>co_mgr := handle_close_channel S cid (co_mgr c)\<rparr>)
      | UpdateChannel m \<Rightarrow>
          (Ok (frames [case handle_update_channel m (sh_min_hashrate_threshold sh) (cm_min_target_le (co_mgr c)) of
                         Inr out \<Rightarrow> out | Inl out \<Rightarrow> out]), sh, c)
      | SubmitStandard share \<Rightarrow> handle_submit_standard X S share sh c
      | SubmitExtended share \<Rightarrow> handle_submit_extended X S share sh c
      | SetCustomMiningJob channel_id request_id \<Rightarrow>
          (Ok (frames [handle_set_custom_mining_job channel_id request_id]), sh, c)
      | OtherMessage \<Rightarrow> (Ok no_out, sh, c))"

section \<open>The connection\<close>

text \<open>The first frame: a \<open>SetupConnection\<close>, another message type, a frame of that type that does
  not parse, or a frame of the handshake.\<close>

datatype first_frame = Setup Protocol u32 | NotSetup byte | Unparsable | Handshake

datatype ('a, 'p, 'g) start = StartError ConnectionError | Closed SetupConnectionResponse
  | InitFailed SetupConnectionResponse ConnectionError
  | Running SetupConnectionResponse "('a, 'p, 'g) Sv2Conn"

definition start_connection ::
  "('a, 'p, 'g) sri \<Rightarrow> fl \<Rightarrow> fl \<Rightarrow> first_frame \<Rightarrow> ('a, 'p, 'g) start" where
  "start_connection S threshold rate f =
     (case f of
        Handshake \<Rightarrow> StartError (UnexpectedFirstFrame 0xFF)
      | NotSetup mt \<Rightarrow> StartError (UnexpectedFirstFrame mt)
      | Unparsable \<Rightarrow> StartError ParseFailed
      | Setup protocol flags \<Rightarrow>
          (let reply = handle_setup_connection S protocol flags
           in case reply of
                SetupError fl code \<Rightarrow> Closed reply
              | SetupSuccess v fl \<Rightarrow>
                  (case with_policy S threshold rate of
                     None \<Rightarrow> InitFailed reply ManagerInit
                   | Some m \<Rightarrow> Running reply \<lparr>co_mgr = m, co_acct = acct_new S 8\<rparr>)))"

text \<open>The events of the loop, the later ones with the state of the shared values when they
  arrive: the shutdown signal, a change of the template (with the hash map's key order, or the
  sender dropped), a frame (None where it does not parse), and the end of the socket.\<close>

datatype sv2_event =
    ShutdownChanged bool \<comment> \<open>stop\<close>
  | TemplateUpdate "u32 list"
  | PublisherDropped
  | FrameReceived "sv2_msg option"
  | SocketClosed

definition sv2_step ::
  "libs \<Rightarrow> ('a, 'p, 'g) sri \<Rightarrow> sv2_event \<Rightarrow> Sv2Shared \<Rightarrow> ('a, 'p, 'g) Sv2Conn
     \<Rightarrow> (ConnectionError option + Sv2Out) \<times> Sv2Shared \<times> ('a, 'p, 'g) Sv2Conn" where
  "sv2_step X S ev sh c =
     (case ev of
        ShutdownChanged stop \<Rightarrow> (if stop then Inl None else Inr no_out, sh, c)
      | PublisherDropped \<Rightarrow> (Inr no_out, sh, c)
      | TemplateUpdate ids \<Rightarrow>
          (case sh_template sh of
             None \<Rightarrow> (Inr no_out, sh, c)
           | Some t \<Rightarrow> (let (outs, m) = on_template_update X S t ids (co_mgr c) in (Inr (frames outs), sh, c\<lparr>co_mgr := m\<rparr>)))
      | FrameReceived None \<Rightarrow> (Inr no_out, sh, c)
      | FrameReceived (Some msg) \<Rightarrow> (let (r, sh', c') = dispatch_frame X S msg sh c in (map_err Some r, sh', c'))
      | SocketClosed \<Rightarrow> (Inl None, sh, c))"

end
