(* ===== verification/Gateway.thy ===== *)
theory Gateway
  imports Upstream Config Rpc Sv2Listener
begin

text \<open>
  The gateway process of \<open>crates/datum-bin/src/main.rs\<close>: the command line, the start-up checks,
  what each task is configured with, the counters and their metrics, and what one turn of the
  share relay does outside the tracker (the block submission and the forwarded share).
\<close>

unbundle bit_operations_syntax

section \<open>The command line\<close>

datatype Cmd = Help | Version | ExampleConf | ValidateConfig bytes | Run bytes | ParseError bytes

definition DEFAULT_CONFIG_PATH :: bytes where "DEFAULT_CONFIG_PATH = ascii ''./datum_gateway_config.json''"

fun parse_from :: "bytes option \<Rightarrow> bytes list \<Rightarrow> Cmd" where
  "parse_from config [] = Run (case config of Some p \<Rightarrow> p | None \<Rightarrow> DEFAULT_CONFIG_PATH)"
| "parse_from config (arg # rest) =
     (if arg \<in> set (map ascii [''-h'', ''-?'', ''--help'']) then Help
      else if arg \<in> set (map ascii [''-V'', ''--version'']) then Version
      else if arg = ascii ''--example-conf'' then ExampleConf
      else if arg = ascii ''--validate-config''
      then (case rest of p # r \<Rightarrow> ValidateConfig p | [] \<Rightarrow> ParseError (ascii ''--validate-config requires a path''))
      else if arg \<in> set (map ascii [''-c'', ''--config''])
      then (case rest of p # r \<Rightarrow> parse_from (Some p) r | [] \<Rightarrow> ParseError (arg @ ascii '' requires a path''))
      else if is_prefix (ascii ''--config='') arg then parse_from (Some (drop 9 arg)) rest
      else ParseError (ascii ''unknown argument: '' @ arg))"

definition parse_args :: "bytes list \<Rightarrow> Cmd" where "parse_args args = parse_from None args"

section \<open>Start-up\<close>

text \<open>\<open>file\<close> reads a path and \<open>json\<close> is the deserializer; \<open>runtime\<close> says whether the async
  runtime could be built, and \<open>returns\<close> whether \<open>run_async\<close> returns from a configuration (and does
  not panic).  The result is the exit code's success and the configuration that the gateway ran
  with, if it ran.\<close>

definition run_gateway ::
  "(bytes \<Rightarrow> 'j + Config) \<Rightarrow> (bytes \<Rightarrow> 'i + bytes) \<Rightarrow> bool \<Rightarrow> (Config \<Rightarrow> bool) \<Rightarrow> bytes \<Rightarrow> bool \<times> Config option" where
  "run_gateway json file runtime returns path =
     (case from_file json (file path) of
        Inl e \<Rightarrow> (False, None)
      | Inr cfg \<Rightarrow>
          (case validate cfg of
             Inl errs \<Rightarrow> (False, None)
           | Inr u \<Rightarrow> if \<not> runtime then (False, None) else (returns cfg, Some cfg)))"

datatype ('i, 'j) ConfigReport = ReportRead 'i | ReportParse 'j | ReportInvalid "ValidationError list"

definition validate_config :: "(bytes \<Rightarrow> 'j + Config) \<Rightarrow> 'i + bytes \<Rightarrow> ('i, 'j) ConfigReport + unit" where
  "validate_config json file =
     (case from_file json file of
        Inl (ReadError e) \<Rightarrow> Err (ReportRead e)
      | Inl (ConfigError.ParseError e) \<Rightarrow> Err (ReportParse e)
      | Inr cfg \<Rightarrow> map_err ReportInvalid (validate cfg))"

definition gateway_main ::
  "(bytes \<Rightarrow> 'j + Config) \<Rightarrow> (bytes \<Rightarrow> 'i + bytes) \<Rightarrow> bool \<Rightarrow> (Config \<Rightarrow> bool) \<Rightarrow> bytes list \<Rightarrow> bool \<times> Config option" where
  "gateway_main json file runtime returns argv =
     (case parse_args argv of
        Help \<Rightarrow> (True, None)
      | Version \<Rightarrow> (True, None)
      | ExampleConf \<Rightarrow> (True, None)
      | ValidateConfig path \<Rightarrow> (is_ok (validate_config json (file path)), None)
      | Run path \<Rightarrow> run_gateway json file runtime returns path
      | ParseError msg \<Rightarrow> (False, None))"

section \<open>What the tasks are configured with\<close>

definition api_addr_or_default :: "Config \<Rightarrow> bytes" where
  "api_addr_or_default cfg = (if api_listen_addr (c_api cfg) = [] then ascii ''0.0.0.0'' else api_listen_addr (c_api cfg))"

definition stratum_addr_or_default :: "Config \<Rightarrow> bytes" where
  "stratum_addr_or_default cfg =
     (if st_listen_addr (c_stratum cfg) = [] then ascii ''0.0.0.0'' else st_listen_addr (c_stratum cfg))"

text \<open>\<open>vardiff_target_shares_min.max(1) as u32\<close>.\<close>

definition vardiff_params :: "Config \<Rightarrow> VardiffParams" where
  "vardiff_params cfg =
     \<lparr>vd_min = st_vardiff_min (c_stratum cfg),
      vd_target_shares_min = (let n = vardiff_target_shares_min (c_stratum cfg) in if sint n < 1 then 1 else n),
      vd_recheck_secs = 30, vd_max = push_bit 40 1\<rparr>"

definition sv1_state :: "Config \<Rightarrow> ServerState" where
  "sv1_state cfg = with_vardiff (vardiff_params cfg) (with_submit_tx server_new)"

definition rpc_auth :: "Config \<Rightarrow> Auth option" where
  "rpc_auth cfg =
     (let b = c_bitcoind cfg
      in if rpccookiefile b \<noteq> [] then Some (Cookie (rpccookiefile b))
         else if rpcuser b \<noteq> [] then Some (UserPass (rpcuser b) (rpcpassword b))
         else None)"

text \<open>The RPC client, where there is one; \<open>http\<close> says whether the HTTP client could be built.
  The puller and the block submitter share it, and the submitter gets no extra node.\<close>

definition rpc_client :: "bool \<Rightarrow> Config \<Rightarrow> RpcClient option" where
  "rpc_client http cfg =
     (if rpcurl (c_bitcoind cfg) = [] then None
      else case rpc_auth cfg of None \<Rightarrow> None
        | Some auth \<Rightarrow> if http then Some (client_new (rpcurl (c_bitcoind cfg)) auth) else None)"

definition block_submitter :: "bool \<Rightarrow> Config \<Rightarrow> BlockSubmitter option" where
  "block_submitter http cfg = map_option block_submitter_new (rpc_client http cfg)"

definition driver_config :: "Config \<Rightarrow> DriverConfig" where
  "driver_config cfg =
     \<lparr>cfg_tag_primary = mc_coinbase_tag_primary (c_mining cfg), cfg_tag_secondary = mc_coinbase_tag_secondary (c_mining cfg),
      cfg_unique_id = mc_coinbase_unique_id (c_mining cfg)\<rparr>"

definition user_config :: "Config \<Rightarrow> ShareUserConfig" where
  "user_config cfg = \<lparr>pool_address = mc_pool_address (c_mining cfg), pass_full_users = pool_pass_full_users (c_datum cfg),
     pass_workers = pool_pass_workers (c_datum cfg)\<rparr>"

definition upstream_spawned :: "Config \<Rightarrow> bool" where
  "upstream_spawned cfg \<longleftrightarrow> dc_pool_host (c_datum cfg) \<noteq> [] \<and> dc_pool_pubkey (c_datum cfg) \<noteq> []"

section \<open>Counters and metrics\<close>

record RuntimeStats =
  rs_started :: bool
  rs_rpc_url :: bytes
  rs_registry :: "nat option" \<comment> \<open>the registry, by its number of channels\<close>
  rs_sv2_pubkey :: bytes
  rs_shares_accepted :: u64
  rs_shares_rejected :: u64
  rs_sv2_accepted :: u64
  rs_sv2_rejected :: u64
  rs_blocks_found :: u64

definition stats_new :: RuntimeStats where
  "stats_new = \<lparr>rs_started = False, rs_rpc_url = [], rs_registry = None, rs_sv2_pubkey = [], rs_shares_accepted = 0,
     rs_shares_rejected = 0, rs_sv2_accepted = 0, rs_sv2_rejected = 0, rs_blocks_found = 0\<rparr>"

definition mark_started :: "RuntimeStats \<Rightarrow> RuntimeStats" where "mark_started s = s\<lparr>rs_started := True\<rparr>"
definition set_rpc_url :: "bytes \<Rightarrow> RuntimeStats \<Rightarrow> RuntimeStats" where "set_rpc_url url s = s\<lparr>rs_rpc_url := url\<rparr>"
definition set_sv2_registry :: "nat \<Rightarrow> RuntimeStats \<Rightarrow> RuntimeStats" where "set_sv2_registry n s = s\<lparr>rs_registry := Some n\<rparr>"
definition set_sv2_authority_pubkey_b58 :: "bytes \<Rightarrow> RuntimeStats \<Rightarrow> RuntimeStats" where
  "set_sv2_authority_pubkey_b58 k s = s\<lparr>rs_sv2_pubkey := k\<rparr>"

definition record_sv2_share_accepted :: "RuntimeStats \<Rightarrow> RuntimeStats" where
  "record_sv2_share_accepted s = s\<lparr>rs_sv2_accepted := rs_sv2_accepted s + 1, rs_shares_accepted := rs_shares_accepted s + 1\<rparr>"
definition record_sv2_share_rejected :: "RuntimeStats \<Rightarrow> RuntimeStats" where
  "record_sv2_share_rejected s = s\<lparr>rs_sv2_rejected := rs_sv2_rejected s + 1, rs_shares_rejected := rs_shares_rejected s + 1\<rparr>"
definition record_block_found :: "RuntimeStats \<Rightarrow> RuntimeStats" where
  "record_block_found s = s\<lparr>rs_blocks_found := rs_blocks_found s + 1\<rparr>"

text \<open>JSON strings hold the bytes of their text.\<close>

definition jtext :: "bytes \<Rightarrow> json" where "jtext s = JStr (map (\<lambda>b. char_of (unat b)) s)"
definition jnum :: "'a::len word \<Rightarrow> json" where "jnum w = JNum (unat w)"

definition cfg_summary :: "Config \<Rightarrow> json" where
  "cfg_summary cfg = JObj
     [(''stratum_listen_port'', jnum (st_listen_port (c_stratum cfg))), (''stratum_v2_enabled'', JBool (v2_enabled (c_stratum_v2 cfg))),
      (''stratum_v2_listen_port'', jnum (v2_listen_port (c_stratum_v2 cfg))), (''api_listen_port'', jnum (api_listen_port (c_api cfg))),
      (''datum_pool_host'', jtext (dc_pool_host (c_datum cfg))), (''datum_pool_port'', jnum (dc_pool_port (c_datum cfg)))]"

text \<open>The version is the package's (\<open>Cargo.toml\<close>).\<close>

definition PKG_VERSION :: bytes where "PKG_VERSION = ascii ''0.0.1''"

definition METRICS_NOTE :: bytes where
  "METRICS_NOTE = ascii ''alpha '' @ [0xE2, 0x80, 0x94]
     @ ascii '' sv1 listener bound; sv2 listener bound when stratum_v2.enabled + authority paths set''"

definition snapshot :: "json \<Rightarrow> RuntimeStats \<Rightarrow> json" where
  "snapshot summary s = JObj
     [(''version'', jtext PKG_VERSION), (''started'', JBool (rs_started s)), (''rpc_url'', jtext (rs_rpc_url s)),
      (''shares_accepted'', jnum (rs_shares_accepted s)), (''shares_rejected'', jnum (rs_shares_rejected s)),
      (''blocks_found'', jnum (rs_blocks_found s)),
      (''sv2_active_channels'', JNum (case rs_registry s of Some n \<Rightarrow> n | None \<Rightarrow> 0)),
      (''sv2_shares_accepted'', jnum (rs_sv2_accepted s)), (''sv2_shares_rejected'', jnum (rs_sv2_rejected s)),
      (''sv2_authority_pubkey_b58'', jtext (rs_sv2_pubkey s)), (''config'', summary), (''note'', jtext METRICS_NOTE)]"

section \<open>The effects of a share\<close>

text \<open>What a turn of the share relay does in this order: the block submission that it spawns, where
  a submitter is wired, and the share for the pool.\<close>

datatype effect = SpawnSubmit BlockSubmissionPayload | Forward bytes

definition share_effects :: "bool \<Rightarrow> ShareEncoded \<Rightarrow> effect list" where
  "share_effects wired enc =
     (case se_block_submission enc of Some p \<Rightarrow> if wired then [SpawnSubmit p] else [] | None \<Rightarrow> []) @ [Forward (se_body enc)]"

definition relay_turn ::
  "libs \<Rightarrow> ShareUserConfig \<Rightarrow> bool \<Rightarrow> SubmittedShare \<Rightarrow> (JobTracker \<times> u64) \<times> RuntimeStats
     \<Rightarrow> ((JobTracker \<times> u64) \<times> RuntimeStats) \<times> effect list" where
  "relay_turn X cfg wired share s =
     (case s of (t, st) \<Rightarrow>
      case relay_share X cfg share t of
        (t', None) \<Rightarrow> ((t', st), [])
      | (t', Some enc) \<Rightarrow>
          ((t', if se_block_submission enc \<noteq> None \<and> wired then record_block_found st else st), share_effects wired enc))"

section \<open>Only valid configurations run\<close>

lemma validate_ok: "validate c = Inr u \<longleftrightarrow> (\<forall>e. \<not> violates c e)"
proof -
  define errs where "errs = validate_bitcoind c @ validate_stratum c @ validate_stratum_v2 c @ validate_mining c
     @ validate_extra_block_submissions c @ validate_datum c @ validate_logger c"
  have "errs = [] \<longleftrightarrow> (\<forall>e. \<not> violates c e)"
    unfolding validate_members [symmetric] errs_def [symmetric] by (cases errs) auto
  moreover have "validate c = (if errs = [] then Ok () else Err errs)" by (simp add: validate_def errs_def Let_def)
  ultimately show ?thesis by simp
qed

lemma is_ok_validate: "is_ok (validate c) \<longleftrightarrow> (\<forall>e. \<not> violates c e)"
proof (cases "validate c")
  case (Inl errs)
  then show ?thesis using validate_ok [of c "()"] by (simp add: is_ok_def del: violates.simps)
next
  case (Inr u)
  then show ?thesis using validate_ok [of c u] by (simp add: is_ok_def del: violates.simps)
qed

lemma validate_config_ok: "is_ok (validate_config json r) \<longleftrightarrow> (\<exists>cfg. from_file json r = Inr cfg \<and> (\<forall>e. \<not> violates cfg e))"
  unfolding is_ok_validate [symmetric] by (auto simp: validate_config_def is_ok_def split: sum.splits ConfigError.splits)

lemma run_gateway_ran:
  "snd (run_gateway json file runtime returns path) = Some cfg
     \<longleftrightarrow> runtime \<and> from_file json (file path) = Inr cfg \<and> (\<forall>e. \<not> violates cfg e)"
  "fst (run_gateway json file runtime returns path)
     \<longleftrightarrow> runtime \<and> (\<exists>cfg. from_file json (file path) = Inr cfg \<and> (\<forall>e. \<not> violates cfg e) \<and> returns cfg)"
  unfolding is_ok_validate [symmetric] by (auto simp: run_gateway_def is_ok_def split: sum.splits)

section \<open>The shape of a job state\<close>

lemma merkle_rounds_shape:
  assumes "sha_laws X"
  shows "list_all (\<lambda>b. length b = 32) (merkle_rounds X level n) \<and> (\<forall>k. n \<le> 2 ^ k \<longrightarrow> length (merkle_rounds X level n) \<le> k)"
  using assms
proof (induction X level n rule: merkle_rounds.induct)
  case (1 X level n)
  show ?case
  proof (cases "n > 1")
    case True
    define m where "m = (if n mod 2 \<noteq> 0 then n + 1 else n) div 2"
    let ?l = "next_merkle_level X level m"
    note IH = 1(1) [OF True refl m_def refl 1(2)]
    have step: "merkle_rounds X level n = (if m > 1 then [?l ! 1] else []) @ merkle_rounds X ?l m"
      using True by (subst merkle_rounds.simps) (simp add: m_def Let_def)
    have w: "length (?l ! 1) = 32" if "1 < m"
      using that by (simp add: next_merkle_level_def Let_def double_sha256_length [OF 1(2)])
    have "length (merkle_rounds X level n) \<le> k" if "n \<le> 2 ^ k" for k
    proof (cases k)
      case (Suc j)
      then have "n \<le> 2 * 2 ^ j" using that by simp
      then have "(n + 1) div 2 \<le> 2 ^ j" by arith
      moreover have "m \<le> (n + 1) div 2" by (simp add: m_def div_le_mono)
      ultimately have "m \<le> 2 ^ j" by simp
      then have "length (merkle_rounds X ?l m) \<le> j" using IH by blast
      then show ?thesis by (simp add: step Suc)
    qed (use that True in simp)
    then show ?thesis using IH w by (simp add: step)
  qed (simp add: merkle_rounds.simps)
qed

lemma txid_leaf_length: "length (txid_leaf X h) = 32"
  by (simp add: txid_leaf_def Let_def)

lemma merkle_branches_shape:
  assumes "sha_laws X" "length (transactions t) < 2 ^ k"
  shows "list_all (\<lambda>b. length b = 32) (build_merkle_branches X t)" "length (build_merkle_branches X t) \<le> k + 1"
proof -
  let ?l = "map (\<lambda>t. txid_leaf X (tt_txid t)) (transactions t)"
  have "length ?l + 1 \<le> 2 ^ k" using assms(2) by simp
  then have m: "list_all (\<lambda>b. length b = 32) (merkle_rounds X ?l (length ?l + 1))" "length (merkle_rounds X ?l (length ?l + 1)) \<le> k"
    using merkle_rounds_shape [OF assms(1)] by blast+
  have h: "length (?l ! 0) = 32" if "transactions t \<noteq> []"
    using that by (cases "transactions t") (simp_all add: txid_leaf_length)
  show "list_all (\<lambda>b. length b = 32) (build_merkle_branches X t)" "length (build_merkle_branches X t) \<le> k + 1"
    using m h by (auto simp: build_merkle_branches_def Let_def list_all_iff)
qed


lemma push_varint_length: "length (push_varint n) \<le> 9"
  by (simp add: push_varint_def)

lemma split_coinbase_shape:
  assumes "build_split_coinbase_bin t s outs = (c1, c2, pot)" "inputs_ok t s"
  shows "length c1 < 2 ^ 16" "length c2 = length outs + 8" "unat pot < length c1" "c1 ! unat pot = pot_placeholder s"
proof -
  obtain n where "length c1 = 41 + length (push_varint n) + length (scriptsig_head t s) + 7"
    using assms(1) by (auto simp: build_split_coinbase_bin_def build_uid_push_block_def Let_def)
  then show "length c1 < 2 ^ 16"
    using assms(2) push_varint_length [of n] bip34_length [of "t_height t"]
      tag_block_length [of "coinbase_tag_primary s" "coinbase_tag_secondary s"]
    by (simp add: scriptsig_head_def inputs_ok_def)
  show "length c2 = length outs + 8"
    using assms(1) by (auto simp: build_split_coinbase_bin_def Let_def)
  show "unat pot < length c1" "c1 ! unat pot = pot_placeholder s"
    using coinb1_layout [OF assms] by (auto simp: nth_append)
qed

section \<open>Every published state fits\<close>

lemma session_tag:
  "\<lbrakk>run_session X (s, r) evs = ((s', r'), cmds); rt_pool_tag r = None \<or> length (the (rt_pool_tag r)) \<le> 86\<rbrakk> \<Longrightarrow>
     rt_pool_tag r' = None \<or> length (the (rt_pool_tag r')) \<le> 86"
proof (induction evs arbitrary: s r cmds)
  case (Cons a evs)
  obtain chan ev where a: "a = (chan, ev)" by fastforce
  obtain s1 r1 c1 where st: "session_step X chan ev (s, r) = ((s1, r1), c1)" by (metis surj_pair)
  obtain c2 where rest: "run_session X (s1, r1) evs = ((s', r'), c2)"
    using Cons.prems(1) by (auto simp: a st Let_def split: prod.splits)
  have "rt_pool_tag r1 = None \<or> length (the (rt_pool_tag r1)) \<le> 86"
    using st Cons.prems(2)
    by (auto simp: session_step_def on_client_config_def on_coinbaser_def on_share_response_def Let_def
        record_share_accepted_def record_share_rejected_def
        split: session_event.splits UpstreamEvent.splits if_splits sum.splits ShareStatus.splits)
  then show ?case by (rule Cons.IH [OF rest])
qed simp

lemma nbits_target_length: "length (nbits_to_target_le X h) = 32"
  by (simp add: nbits_to_target_le_def Let_def split: option.splits)

lemma valid_tags:
  assumes "validate cfg = Inr u"
  shows "length (mc_coinbase_tag_primary (c_mining cfg)) \<le> 60" "length (mc_coinbase_tag_secondary (c_mining cfg)) \<le> 60"
    "length (mc_coinbase_tag_primary (c_mining cfg)) + length (mc_coinbase_tag_secondary (c_mining cfg)) \<le> 88"
proof -
  have no: "\<not> violates cfg e" for e using assms validate_ok by blast
  show "length (mc_coinbase_tag_primary (c_mining cfg)) \<le> 60" "length (mc_coinbase_tag_secondary (c_mining cfg)) \<le> 60"
    "length (mc_coinbase_tag_primary (c_mining cfg)) + length (mc_coinbase_tag_secondary (c_mining cfg)) \<le> 88"
    using no [of "MiningCoinbaseTagPrimaryTooLong (length (mc_coinbase_tag_primary (c_mining cfg)))"]
      no [of "MiningCoinbaseTagSecondaryTooLong (length (mc_coinbase_tag_secondary (c_mining cfg)))"]
      no [of "MiningCoinbaseTagsCombinedTooLong (length (mc_coinbase_tag_primary (c_mining cfg)) + length (mc_coinbase_tag_secondary (c_mining cfg)))"]
    by auto
qed

lemma driven_state_fits:
  assumes "sha_laws X" "validate cfg = Inr ()" "tag = None \<or> length (the tag) \<le> 86"
    and "drive_template X (driver_config cfg) tag (Some t) (Some blob) d = (d', Some st)"
    and "length (transactions t) < 2 ^ 64" "length (build_outputs X t blob) + 8 < 2 ^ 16"
  shows "state_fits st \<and> length (block_target st) = 32 \<and> target_pot_index st \<noteq> 0
    \<and> unat (target_pot_index st) < length (coinb1 st) \<and> coinb1 st ! unat (target_pot_index st) = 0xFF"
proof -
  define sc where "sc = \<lparr>coinbase_tag_primary = (case tag of Some b \<Rightarrow> from_utf8_lossy b | None \<Rightarrow> mc_coinbase_tag_primary (c_mining cfg)),
     coinbase_tag_secondary = mc_coinbase_tag_secondary (c_mining cfg), coinbase_unique_id = ucast (mc_coinbase_unique_id (c_mining cfg)) :: u16,
     enprefix = enprefix_counter d XOR 0xB10C, pot_placeholder = 0xFF\<rparr>"
  have st: "st = from_template_and_blob X t blob sc (next_seed d)"
    using assms(4) by (cases tag) (auto simp: drive_template_def driver_config_def sc_def Let_def)
  obtain c1 c2 pot where b: "build_split_coinbase_bin t sc (build_outputs X t blob) = (c1, c2, pot)" by (rule prod_cases3)
  have "length (coinbase_tag_primary sc) \<le> 258"
    using valid_tags(1) [OF assms(2)] lossy_length [of "the tag"] assms(3) by (auto simp: sc_def split: option.split)
  then have ok: "inputs_ok t sc" using valid_tags(2) [OF assms(2)] by (simp add: inputs_ok_def sc_def)
  note sh = split_coinbase_shape [OF b ok] and m = merkle_branches_shape [OF assms(1,5)]
  have f: "coinb1 st = c1" "coinb2 st = c2" "target_pot_index st = pot" "merkle_branches st = build_merkle_branches X t"
    "length (prev_hash st) = 32" "length (nbits st) = 4" "length (block_target st) = 32"
    by (simp_all add: st from_template_and_blob_def b Let_def exact_bytes_def nbits_target_length split: option.splits)
  have "pot \<noteq> 0" using coinb1_layout [OF b ok] by auto
  then show ?thesis
    using sh m assms(6) by (simp add: state_fits_def f) (simp add: sc_def)
qed

text \<open>C28: Every job state that the gateway publishes is well-formed: under a valid configuration, with
  the tag override of any pool session, whatever bytes the pool sent, and any template and
  coinbaser whose serialized outputs fit the two-byte length field, the state has the widths that
  the share encoder relies on (a 32-byte previous hash, target and merkle branches, four bytes of
  target bits, fewer than 256 branches, halves below 65536 bytes), and its proof-of-target offset
  lies inside the first half, on the placeholder 0xFF.\<close>

theorem published_states_fit:
  assumes "sha_laws X" "validate cfg = Inr ()" "run_session X (new_session, runtime_new) evs = ((s, r), cmds)"
    and "drive_template X (driver_config cfg) (rt_pool_tag r) (Some t) (Some blob) d = (d', Some st)"
    and "length (transactions t) < 2 ^ 64" "length (build_outputs X t blob) + 8 < 2 ^ 16"
  shows "state_fits st \<and> length (block_target st) = 32 \<and> unat (target_pot_index st) < length (coinb1 st)
    \<and> coinb1 st ! unat (target_pot_index st) = 0xFF"
proof -
  have "rt_pool_tag r = None \<or> length (the (rt_pool_tag r)) \<le> 86"
    by (rule session_tag [OF assms(3)]) (simp add: runtime_new_def)
  from driven_state_fits [OF assms(1,2) this assms(4-6)] show ?thesis by blast
qed

section \<open>The size of the coinbase script\<close>

lemma bip34_three_bytes:
  assumes "2 ^ 15 \<le> unat h" "unat h < 2 ^ 23"
  shows "length (bip34_height_script h) = 4"
proof -
  obtain bs where b: "bip34_height_script h = of_nat (length bs) # bs" "1 \<le> length bs" "le_nat bs = unat h" "unat (last bs) < 128"
    "h = 0 \<or> 0 < unat (last bs) \<or> 128 \<le> unat (last (butlast bs))"
    using bip34_script_number [of h] by blast
  let ?n = "length bs - 1"
  have ne: "bs \<noteq> []" using b(2) by auto
  have v: "unat h = le_nat (butlast bs) + 256 ^ ?n * unat (last bs)"
    using arg_cong [OF append_butlast_last_id [OF ne], of le_nat] b(3) by (simp add: le_nat_append)
  have lt: "le_nat (butlast bs) < 256 ^ ?n" using le_nat_bound [of "butlast bs"] by simp
  have "unat h < 256 ^ ?n * (unat (last bs) + 1)" using v lt by simp
  also have "\<dots> \<le> 256 ^ ?n * 128" using b(4) by (intro mult_le_mono) simp_all
  finally have up: "2 ^ 15 < (256 :: nat) ^ ?n * 128" using assms(1) by simp
  have "2 \<le> ?n"
  proof (rule ccontr)
    assume "\<not> 2 \<le> ?n"
    then have "?n = 0 \<or> ?n = 1" by arith
    then show False using up by auto
  qed
  moreover have "\<not> 3 \<le> ?n"
  proof
    assume n: "3 \<le> ?n"
    have p: "(256 :: nat) ^ 2 \<le> 256 ^ (?n - 1)" "(256 :: nat) ^ 3 \<le> 256 ^ ?n" 
      using n power_increasing [of 2 "?n - 1" "256 :: nat"] power_increasing [of 3 ?n "256 :: nat"] by simp_all
    have "h \<noteq> 0" using assms(1) by auto
    then consider "0 < unat (last bs)" | "128 \<le> unat (last (butlast bs))" using b(5) by auto
    then show False
    proof cases
      case 1
      then have "256 ^ 3 \<le> 256 ^ ?n * unat (last bs)" using p(2) by (simp add: order_trans)
      then show False using v assms(2) by simp
    next
      case 2
      have nb: "butlast bs \<noteq> []" using n by (cases bs rule: rev_cases) auto
      have "le_nat (butlast bs) = le_nat (butlast (butlast bs)) + 256 ^ (?n - 1) * unat (last (butlast bs))"
        using arg_cong [OF append_butlast_last_id [OF nb], of le_nat] by (simp add: le_nat_append)
      moreover have "256 ^ 2 * 128 \<le> 256 ^ (?n - 1) * unat (last (butlast bs))" using p(1) 2 by (intro mult_le_mono)
      ultimately show False using v assms(2) by simp
    qed
  qed
  ultimately show ?thesis using b(1,2) by simp
qed

lemma tag_block_size:
  "length (build_tag_push_block p s) \<le> 77 \<longleftrightarrow> length p + length s \<le> (if s = [] then 74 else 73)"
  by (simp add: build_tag_push_block_def tag_body_def Let_def)

text \<open>C38: The tags that a block can carry: for any valid configuration, whose tags have up to 88 bytes
  together, and any tag override of a pool session, of at most 86 bytes, which replaces the primary
  tag by its reading as UTF-8 (without a session the configured one is used), at any height whose
  script number takes three bytes (32768 to 8388607) the script of the published coinbase stays
  within the consensus limit of 100 bytes if and only if the primary tag in use and the secondary
  tag have at most 73 bytes together, or 74 where there is no secondary tag: without a session,
  valid tags can make every block invalid.  The witness commitment is hex and the outputs fit their
  length fields.\<close>

theorem script_limit_of_valid_tags:
  assumes "validate cfg = Inr ()" "tag = None \<or> length (the tag) \<le> 86"
    and "drive_template X (driver_config cfg) tag (Some t) (Some blob) d = (d', Some st)"
    and "blob_ok X t blob" "length extranonce = 12" "2 ^ 15 \<le> unat (t_height t)" "unat (t_height t) < 2 ^ 23"
    and "primary = (case tag of Some b \<Rightarrow> from_utf8_lossy b | None \<Rightarrow> mc_coinbase_tag_primary (c_mining cfg))"
    and "secondary = mc_coinbase_tag_secondary (c_mining cfg)"
  shows "length (mc_coinbase_tag_primary (c_mining cfg)) + length secondary \<le> 88
    \<and> (\<exists>script outs. read_coinbase (coinb1 st @ extranonce @ coinb2 st) = Some (script, outs)
      \<and> (length script \<le> 100 \<longleftrightarrow> length primary + length secondary \<le> (if secondary = [] then 74 else 73)))"
proof -
  define sc where "sc = \<lparr>coinbase_tag_primary = primary,
     coinbase_tag_secondary = secondary, coinbase_unique_id = ucast (mc_coinbase_unique_id (c_mining cfg)) :: u16,
     enprefix = enprefix_counter d XOR 0xB10C, pot_placeholder = 0xFF\<rparr>"
  have st: "st = from_template_and_blob X t blob sc (next_seed d)"
    using assms(3) by (cases tag) (auto simp: drive_template_def driver_config_def sc_def assms(8,9) Let_def)
  obtain c1 c2 pot where b: "build_split_coinbase_bin t sc (build_outputs X t blob) = (c1, c2, pot)" by (rule prod_cases3)
  note v = valid_tags [OF assms(1)]
  have "length primary \<le> 258"
    using assms(2) v(1) lossy_length [of "the tag"] by (cases tag) (simp_all add: assms(8))
  then have ok: "inputs_ok t sc" using v(2) by (simp add: inputs_ok_def sc_def assms(9))
  have f: "coinb1 st = c1" "coinb2 st = c2" by (simp_all add: st from_template_and_blob_def b Let_def)
  have r: "read_coinbase (c1 @ extranonce @ c2) = Some (full_script t sc extranonce, outputs blob @ commitment_output X t)"
    by (rule split_coinbase_reads [OF ok assms(4) _ b]) (simp add: assms(5) EXTRANONCE_PLACEHOLDER_LEN_def)
  have "length (full_script t sc extranonce) = 23 + length (build_tag_push_block primary secondary)"
    using bip34_three_bytes [OF assms(6,7)] assms(5)
    by (simp add: full_script_def scriptsig_head_def build_uid_push_block_def sc_def)
  then have "length (full_script t sc extranonce) \<le> 100 \<longleftrightarrow> length primary + length secondary \<le> (if secondary = [] then 74 else 73)"
    using tag_block_size [of primary secondary] by linarith
  then show ?thesis using r v(3) by (simp add: f assms(9))
qed

text \<open>A pool can do so too: the cap of 86 bytes on its tag override is applied before the bytes are
  read as text, and every byte that is not UTF-8 becomes three.\<close>

theorem pool_tag_overflows_script:
  assumes "validate cfg = Inr ()" "pool_coinbase_tag c = replicate n 0x80" "86 \<le> n"
    and "run_session X (sess, r0) [(chan, Received (EvClientConfig c))] = ((sess', r), cmds)"
    and "drive_template X (driver_config cfg) (rt_pool_tag r) (Some t) (Some blob) d = (d', Some st)"
    and "blob_ok X t blob" "length extranonce = 12"
  shows "\<exists>script outs. read_coinbase (coinb1 st @ extranonce @ coinb2 st) = Some (script, outs) \<and> 258 < length script"
proof -
  have tag: "rt_pool_tag r = Some (replicate 86 0x80)"
    using assms(2-4) by (auto simp: session_step_def on_client_config_def Let_def min_def split: if_splits)
  let ?p = "concat (replicate 86 REPLACEMENT)"
  have p: "from_utf8_lossy (replicate 86 0x80) = ?p" "length ?p = 258"
    by (simp_all only: lossy_lone_continuations) (simp add: length_concat REPLACEMENT_def sum_list_replicate)
  define sc where "sc = \<lparr>coinbase_tag_primary = ?p,
     coinbase_tag_secondary = mc_coinbase_tag_secondary (c_mining cfg), coinbase_unique_id = ucast (mc_coinbase_unique_id (c_mining cfg)) :: u16,
     enprefix = enprefix_counter d XOR 0xB10C, pot_placeholder = 0xFF\<rparr>"
  have st: "st = from_template_and_blob X t blob sc (next_seed d)"
    using assms(5) unfolding drive_template_def tag by (simp only: option.case p(1)) (simp add: driver_config_def sc_def Let_def)
  obtain c1 c2 pot where b: "build_split_coinbase_bin t sc (build_outputs X t blob) = (c1, c2, pot)" by (rule prod_cases3)
  have sl: "length (coinbase_tag_primary sc) = 258" "coinbase_tag_primary sc \<noteq> []"
    using p(2) by (simp_all only: sc_def ScriptSigInputs.simps length_0_conv [symmetric])
  have ok: "inputs_ok t sc" using valid_tags(2) [OF assms(1)] by (simp add: inputs_ok_def sl) (simp add: sc_def)
  have f: "coinb1 st = c1" "coinb2 st = c2" by (simp_all add: st from_template_and_blob_def b Let_def)
  have r: "read_coinbase (c1 @ extranonce @ c2) = Some (full_script t sc extranonce, outputs blob @ commitment_output X t)"
    by (rule split_coinbase_reads [OF ok assms(6) _ b]) (simp add: assms(7) EXTRANONCE_PLACEHOLDER_LEN_def)
  have "258 \<le> length (build_tag_push_block (coinbase_tag_primary sc) (coinbase_tag_secondary sc))"
    using sl by (simp add: build_tag_push_block_def tag_body_def Let_def)
  then have "258 < length (full_script t sc extranonce)"
    by (simp add: full_script_def scriptsig_head_def build_uid_push_block_def)
  then show ?thesis using r by (auto simp: f)
qed

section \<open>A valid configuration\<close>

definition sample_cfg_with :: "bytes \<Rightarrow> bytes \<Rightarrow> Config" where
  "sample_cfg_with p q = example_config\<lparr>c_bitcoind := default_bitcoind\<lparr>rpcuser := [0x75], rpcpassword := [0x70], rpcurl := [0x68]\<rparr>,
     c_mining := default_mining\<lparr>mc_pool_address := [0x62], mc_coinbase_tag_primary := p, mc_coinbase_tag_secondary := q\<rparr>\<rparr>"

lemma sample_cfg_valid:
  assumes "length p \<le> 60" "length q \<le> 60" "length p + length q \<le> 88"
  shows "validate (sample_cfg_with p q) = Inr ()"
proof -
  let ?c = "sample_cfg_with p q"
  have s: "validate_bitcoind ?c = []"
    by (simp add: validate_bitcoind_def sample_cfg_with_def example_defs push_if_def)
  have t: "validate_stratum ?c = []"
    by (simp add: validate_stratum_def sample_cfg_with_def example_defs client_cap_value sint_scast_i64 default_vardiff_power)
  have u: "validate_stratum_v2 ?c = []"
    by (simp add: validate_stratum_v2_def sample_cfg_with_def example_defs limits DEFAULT_STRATUM_V2_CERT_VALIDITY_SEC_def
        DEFAULT_STRATUM_V2_MIN_HASHRATE_THRESHOLD_def DEFAULT_STRATUM_V2_EXPECTED_SHARE_PER_MINUTE_def)
  have v: "validate_mining ?c = []"
    using assms by (simp add: validate_mining_def sample_cfg_with_def example_defs limits push_if_def)
  have w: "validate_extra_block_submissions ?c = []"
    by (simp add: validate_extra_block_submissions_def sample_cfg_with_def example_defs limits enumerate_eq_zip)
  have x: "validate_datum ?c = []"
    by (simp add: validate_datum_def Let_def sample_cfg_with_def example_defs timeout_floor_value default_pubkey
        DEFAULT_OCEAN_POOL_HOST_def ascii_def)
  have y: "validate_logger ?c = []"
    by (simp add: validate_logger_def sample_cfg_with_def example_defs)
  show ?thesis by (simp add: validate_def s t u v w x y)
qed

lemma sample_driver: "\<exists>st d'. drive_template plain_libs cfg tag (Some sample_template) (Some sample_blob) new_driver = (d', Some st)"
  by (simp add: drive_template_def Let_def)

lemma sample_blob_fits: "blob_ok plain_libs sample_template sample_blob" "length (build_outputs plain_libs sample_template sample_blob) + 8 < 2 ^ 16"
  "length (transactions sample_template) < 2 ^ 64" "unat (t_height sample_template) = 800000"
  by (simp_all add: blob_ok_def commitment_decodes_def commitment_output_def sample_template_def sample_blob_def build_outputs_def
      serialize_output_def push_varint_def)

theorem published_states_fit_witness:
  "\<exists>st d'. drive_template plain_libs (driver_config (sample_cfg_with [0x41] [])) (Some [0x80]) (Some sample_template) (Some sample_blob) new_driver
      = (d', Some st) \<and> state_fits st \<and> coinb1 st ! unat (target_pot_index st) = 0xFF"
proof -
  let ?c = "sample_cfg_with [0x41] []"
  let ?cc = "plain_config\<lparr>pool_coinbase_tag := [0x80]\<rparr>"
  obtain s r cmds where run: "run_session plain_libs (new_session, runtime_new) [(None, Received (EvClientConfig ?cc))] = ((s, r), cmds)"
    by (metis surj_pair)
  have tag: "rt_pool_tag r = Some [0x80]"
    using run by (auto simp: session_step_def on_client_config_def Let_def plain_config_def split: if_splits)
  obtain st d' where d: "drive_template plain_libs (driver_config ?c) (rt_pool_tag r) (Some sample_template) (Some sample_blob) new_driver = (d', Some st)"
    using sample_driver by blast
  have v: "validate ?c = Inr ()" by (rule sample_cfg_valid) simp_all
  show ?thesis
    using published_states_fit [OF plain_libs_laws(2) v run d sample_blob_fits(3,2)] d tag by auto
qed

theorem script_limit_of_valid_tags_witness:
  "\<exists>st d' script outs st' e' script' outs'.
      drive_template plain_libs (driver_config (sample_cfg_with (replicate 60 0x41) (replicate 28 0x42))) None
      (Some sample_template) (Some sample_blob) new_driver = (d', Some st)
    \<and> read_coinbase (coinb1 st @ replicate 12 7 @ coinb2 st) = Some (script, outs) \<and> 100 < length script
    \<and> drive_template plain_libs (driver_config (sample_cfg_with (replicate 60 0x41) (replicate 28 0x42))) (Some [])
      (Some sample_template) (Some sample_blob) new_driver = (e', Some st')
    \<and> read_coinbase (coinb1 st' @ replicate 12 7 @ coinb2 st') = Some (script', outs') \<and> length script' \<le> 100"
proof -
  let ?c = "sample_cfg_with (replicate 60 0x41) (replicate 28 0x42)"
  obtain st d' where d: "drive_template plain_libs (driver_config ?c) None (Some sample_template) (Some sample_blob) new_driver = (d', Some st)"
    using sample_driver by blast
  obtain st' e' where e: "drive_template plain_libs (driver_config ?c) (Some []) (Some sample_template) (Some sample_blob) new_driver = (e', Some st')"
    using sample_driver by blast
  have v: "validate ?c = Inr ()" by (rule sample_cfg_valid) simp_all
  have l: "length (mc_coinbase_tag_primary (c_mining ?c)) = 60" "length (mc_coinbase_tag_secondary (c_mining ?c)) = 28"
    "mc_coinbase_tag_secondary (c_mining ?c) \<noteq> []"
    by (simp_all add: sample_cfg_with_def flip: length_0_conv)
  have x: "length (replicate 12 (7 :: byte)) = 12" and h: "2 ^ 15 \<le> unat (t_height sample_template)" "unat (t_height sample_template) < 2 ^ 23"
    and lossy: "from_utf8_lossy [] = []"
    by (simp_all add: sample_blob_fits(4) from_utf8_lossy.simps)
  note limit = script_limit_of_valid_tags [OF v _ _ sample_blob_fits(1) x h refl refl]
  obtain script outs where 1: "read_coinbase (coinb1 st @ replicate 12 7 @ coinb2 st) = Some (script, outs)" "100 < length script"
    using limit [OF _ d] l by auto
  obtain script' outs' where 2: "read_coinbase (coinb1 st' @ replicate 12 7 @ coinb2 st') = Some (script', outs')" "length script' \<le> 100"
    using limit [OF _ e] l lossy by auto
  show ?thesis using d e 1 2 by (intro exI conjI)
qed

end
