(* ===== verification/Sv2Auth.thy ===== *)
theory Sv2Auth
  imports Rpc Config
begin

text \<open>
  The authority key of the SV2 listener (\<open>auth.rs\<close>) and the listener's configuration
  (\<open>ListenerConfig::from_datum_config\<close> of \<open>listener.rs\<close>).  The base58 and elliptic curve libraries
  are parameters; a file is the outcome of reading it as text.
\<close>

text \<open>\<open>'s\<close> is the error of the curve library.  \<open>xonly_of_secret\<close> parses a secret and gives the
  x-only public key that it derives.\<close>

record 's keylibs =
  b58check_decode :: "bytes \<Rightarrow> bytes option"
  b58check_encode :: "bytes \<Rightarrow> bytes"
  xonly_of_secret :: "bytes \<Rightarrow> 's + bytes"
  xonly_parse :: "bytes \<Rightarrow> 's option" \<comment> \<open>the error, if any\<close>

definition AUTHORITY_PUBKEY_VERSION :: bytes where "AUTHORITY_PUBKEY_VERSION = [1, 0]"

datatype key_kind = PubkeyFile | SecretFile

datatype ('e, 's) AuthorityKeyError =
    KeyRead bytes 'e
  | Bs58 bytes key_kind
  | WrongVersion bytes u16
  | WrongPubkeyLen bytes nat
  | WrongSecretLen bytes nat
  | Mismatch bytes bytes
  | InvalidSecret bytes 's
  | InvalidPubkey bytes 's

record AuthorityKey =
  pubkey_bytes :: bytes
  secret_bytes :: bytes
  pubkey_b58 :: bytes

definition encode_authority_pubkey_b58 :: "'s keylibs \<Rightarrow> bytes \<Rightarrow> bytes" where
  "encode_authority_pubkey_b58 K pubkey = b58check_encode K (AUTHORITY_PUBKEY_VERSION @ pubkey)"

definition authority_load ::
  "'s keylibs \<Rightarrow> (bytes \<Rightarrow> 'e + bytes) \<Rightarrow> bytes \<Rightarrow> bytes \<Rightarrow> ('e, 's) AuthorityKeyError + AuthorityKey" where
  "authority_load K file pubkey_path secret_path =
     and_then (map_err (KeyRead pubkey_path) (file pubkey_path)) (\<lambda>pub_text.
     and_then (map_err (KeyRead secret_path) (file secret_path)) (\<lambda>sec_text.
     and_then (ok_or (b58check_decode K (trim pub_text)) (Bs58 pubkey_path PubkeyFile)) (\<lambda>pub.
     and_then (ok_or (b58check_decode K (trim sec_text)) (Bs58 secret_path SecretFile)) (\<lambda>secret.
       if length pub \<noteq> 34 then Err (WrongPubkeyLen pubkey_path (length pub))
       else let version = le_word (take 2 pub) :: u16; pubkey = drop 2 pub in
       if version \<noteq> 1 then Err (WrongVersion pubkey_path version)
       else if length secret \<noteq> 32 then Err (WrongSecretLen secret_path (length secret))
       else (case xonly_of_secret K secret of
           Inl e \<Rightarrow> Err (InvalidSecret secret_path e)
         | Inr derived \<Rightarrow>
             if derived \<noteq> pubkey then Err (Mismatch pubkey_path secret_path)
             else (case xonly_parse K pubkey of
                 Some e \<Rightarrow> Err (InvalidPubkey pubkey_path e)
               | None \<Rightarrow> Ok \<lparr>pubkey_bytes = pubkey, secret_bytes = secret,
                   pubkey_b58 = encode_authority_pubkey_b58 K pubkey\<rparr>))))))"

section \<open>The configuration of the listener\<close>

record 'a ListenerConfig =
  bind_addr :: 'a
  cert_validity :: nat \<comment> \<open>seconds\<close>
  lc_authority :: AuthorityKey
  handshake_timeout :: nat \<comment> \<open>seconds\<close>
  lc_min_hashrate_threshold :: fl
  lc_expected_share_per_minute :: fl

datatype ('e, 's) ListenerError = BindError u16 | Authority "('e, 's) AuthorityKeyError"

text \<open>\<open>parse_addr\<close> is the parser of socket addresses, given the host and the port.\<close>

definition listener_config ::
  "'s keylibs \<Rightarrow> (bytes \<Rightarrow> 'e + bytes) \<Rightarrow> (bytes \<Rightarrow> u16 \<Rightarrow> 'a option) \<Rightarrow> StratumV2Config
     \<Rightarrow> ('e, 's) ListenerError + 'a ListenerConfig" where
  "listener_config K file parse_addr cfg =
     (let listen_addr = (if v2_listen_addr cfg = [] then DEFAULT_STRATUM_V2_LISTEN_ADDR else v2_listen_addr cfg)
      in and_then (ok_or (parse_addr listen_addr (v2_listen_port cfg)) (BindError (v2_listen_port cfg))) (\<lambda>addr.
         and_then (map_err Authority (authority_load K file (authority_pubkey_path cfg) (authority_secret_path cfg))) (\<lambda>key.
           Ok \<lparr>bind_addr = addr, cert_validity = unat (cert_validity_sec cfg), lc_authority = key, handshake_timeout = 3,
               lc_min_hashrate_threshold = min_hashrate_threshold cfg,
               lc_expected_share_per_minute = expected_share_per_minute cfg\<rparr>)))"


section \<open>Writing and loading a key\<close>

text \<open>No element is a proper prefix of another.\<close>

definition prefix_free :: "bytes list \<Rightarrow> bool" where
  "prefix_free ws \<longleftrightarrow> (\<forall>w \<in> set ws. \<forall>u \<in> set ws. is_prefix w u \<longrightarrow> w = u)"

lemma is_prefix_append: "is_prefix w (u @ x) \<Longrightarrow> is_prefix w u \<or> is_prefix u w"
  by (auto simp: is_prefix_def take_append split: if_splits) (metis append_eq_conv_conj take_all_iff nat_le_linear take_append)

lemma strip_front_stops: "\<forall>w \<in> set ws. \<not> is_prefix w x \<Longrightarrow> strip_front ws x = x"
  by (subst strip_front.simps) (auto simp: find_None_iff split: option.split dest!: find_Some_iff [THEN iffD1])

lemma strip_front_spaces:
  assumes "prefix_free ws" "[] \<notin> set ws" "\<forall>w \<in> set ws. \<not> is_prefix w x"
  shows "set us \<subseteq> set ws \<Longrightarrow> strip_front ws (concat us @ x) = x"
proof (induction us)
  case Nil
  then show ?case using assms(3) by (simp add: strip_front_stops)
next
  case (Cons u us)
  have u: "u \<in> set ws" "u \<noteq> []" "is_prefix u (u @ concat us @ x)" using Cons.prems assms(2) by (auto simp: is_prefix_def)
  have eq: "w = u" if "w \<in> set ws" "is_prefix w (u @ concat us @ x)" for w
    using is_prefix_append [OF that(2)] that(1) u(1) assms(1) by (auto simp: prefix_free_def)
  have "find (\<lambda>w. w \<noteq> [] \<and> is_prefix w (u @ concat us @ x)) ws = Some u"
  proof (cases "find (\<lambda>w. w \<noteq> [] \<and> is_prefix w (u @ concat us @ x)) ws")
    case None
    then show ?thesis using u by (auto simp: find_None_iff)
  next
    case (Some w)
    then have "w \<in> set ws" "is_prefix w (u @ concat us @ x)" by (auto simp: find_Some_iff)
    then show ?thesis using eq Some by simp
  qed
  then show ?case using Cons by (subst strip_front.simps) simp
qed

definition printable :: "bytes \<Rightarrow> bool" where
  "printable bs \<longleftrightarrow> bs \<noteq> [] \<and> list_all (\<lambda>b. 0x21 \<le> b \<and> b < 0x7F) bs"

lemma prefix_freeI:
  assumes "\<forall>w \<in> set ws. w \<noteq> [] \<and> length w = (if hd w < 0x80 then 1 else if w ! 1 = 0xC2 \<or> w ! 1 = 0x85 \<or> w ! 1 = 0xA0 then 2 else 3)"
  shows "prefix_free ws"
  unfolding prefix_free_def
proof (intro ballI impI)
  fix w u assume w: "w \<in> set ws" "u \<in> set ws" "is_prefix w u"
  have t: "take (length w) u = w" using w(3) by (simp add: is_prefix_def)
  have hd: "hd u = hd w" using t assms w(1) by (metis hd_take length_greater_0_conv)
  have "u ! 1 = w ! 1" if "1 < length w" using t that by (metis nth_take)
  then have "length u = length w"
    using assms [rule_format, OF w(1)] assms [rule_format, OF w(2)] hd by (auto split: if_splits)
  then show "w = u" using t by simp
qed

lemma white_space_codes:
  "prefix_free white_space" "prefix_free (map rev white_space)" "[] \<notin> set white_space" "[] \<notin> set (map rev white_space)"
  by (intro prefix_freeI, simp add: white_space_def)+ (simp_all add: white_space_def)

lemma printable_no_space:
  assumes "printable x"
  shows "\<forall>w \<in> set white_space. \<not> is_prefix w (x @ y)" "\<forall>w \<in> set (map rev white_space). \<not> is_prefix w (rev x @ y)"
proof -
  obtain b bs where x: "x = b # bs" "0x21 \<le> b" "b < 0x7F" using assms by (cases x) (auto simp: printable_def)
  obtain cs c where r: "rev x = c # cs" "0x21 \<le> c" "c < 0x7F"
    using assms by (cases x rule: rev_cases) (auto simp: printable_def)
  have first: "\<forall>w \<in> set white_space. hd w < 0x21 \<or> 0x7F \<le> hd w" "\<forall>w \<in> set white_space. last w < 0x21 \<or> 0x7F \<le> last w"
    by (simp_all add: white_space_def)
  have pre: "hd w = d" if "is_prefix w (d # ds)" "w \<noteq> []" for w :: bytes and d ds
    using that by (cases w) (auto simp: is_prefix_def)
  show "\<forall>w \<in> set white_space. \<not> is_prefix w (x @ y)"
  proof (intro ballI notI)
    fix w assume w: "w \<in> set white_space" "is_prefix w (x @ y)"
    then have "hd w = b" using pre [of w b "bs @ y"] white_space_codes(3) x(1) by auto
    then show False using bspec [OF first(1) w(1)] x by (auto simp: not_less [symmetric])
  qed
  show "\<forall>w \<in> set (map rev white_space). \<not> is_prefix w (rev x @ y)"
  proof (intro ballI notI)
    fix w assume w: "w \<in> set (map rev white_space)" "is_prefix w (rev x @ y)"
    then obtain u where u: "w = rev u" "u \<in> set white_space" "u \<noteq> []" using white_space_codes(3) by auto
    then have "last u = c" using pre [of w c "cs @ y"] w(2) r(1) by (simp add: hd_rev)
    then show False using bspec [OF first(2) u(2)] r by (auto simp: not_less [symmetric])
  qed
qed

lemma trim_spaces:
  assumes "printable x" "set us \<subseteq> set white_space" "set vs \<subseteq> set white_space"
  shows "trim (concat us @ x @ concat vs) = x"
proof -
  have "strip_front white_space (concat us @ x @ concat vs) = x @ concat vs"
    by (rule strip_front_spaces [OF white_space_codes(1,3) _ assms(2)]) (rule printable_no_space [OF assms(1)])
  moreover have "strip_front (map rev white_space) (concat (map rev (rev vs)) @ rev x) = rev x"
    using assms(3) printable_no_space(2) [OF assms(1), of "[]"]
    by (intro strip_front_spaces [OF white_space_codes(2,4)]) auto
  ultimately show ?thesis by (simp add: trim_def rev_concat)
qed

text \<open>The documented behaviour of the libraries: base58check decodes what it encodes, to printable
  text; a derived x-only key is 32 bytes long and parses.\<close>

definition keylib_laws :: "'s keylibs \<Rightarrow> bool" where
  "keylib_laws K \<longleftrightarrow>
     (\<forall>bs. b58check_decode K (b58check_encode K bs) = Some bs \<and> printable (b58check_encode K bs))
     \<and> (\<forall>s p. xonly_of_secret K s = Inr p \<longrightarrow> length p = 32 \<and> xonly_parse K p = None)"

text \<open>C23: A published authority key can be loaded: whatever white space surrounds them, the file that
  holds the published form of the public key and the file that holds the base58check form of the
  secret load as exactly that pair, with the published form to pin, if the public key is the
  secret's, and are refused as a mismatch if it belongs to another secret.\<close>

theorem authority_key_loads:
  assumes "keylib_laws K" "xonly_of_secret K secret = Inr p" "xonly_of_secret K other = Inr q" "length secret = 32"
    and "set us \<union> set vs \<union> set us' \<union> set vs' \<subseteq> set white_space"
    and "file pubkey_path = Inr (concat us @ encode_authority_pubkey_b58 K q @ concat vs)"
    and "file secret_path = Inr (concat us' @ b58check_encode K secret @ concat vs')"
  shows "authority_load K file pubkey_path secret_path =
    (if p = q then Ok \<lparr>pubkey_bytes = p, secret_bytes = secret, pubkey_b58 = encode_authority_pubkey_b58 K p\<rparr>
     else Err (Mismatch pubkey_path secret_path))"
proof -
  have enc: "b58check_decode K (b58check_encode K bs) = Some bs" "printable (b58check_encode K bs)" for bs
    using assms(1) by (simp_all add: keylib_laws_def)
  have q: "length q = 32" "xonly_parse K q = None" using assms(1,3) by (auto simp: keylib_laws_def)
  have t: "trim (concat us @ encode_authority_pubkey_b58 K q @ concat vs) = b58check_encode K (AUTHORITY_PUBKEY_VERSION @ q)"
    "trim (concat us' @ b58check_encode K secret @ concat vs') = b58check_encode K secret"
    using assms(5) by (auto simp: encode_authority_pubkey_b58_def intro!: trim_spaces enc(2))
  have v: "le_word (take 2 (AUTHORITY_PUBKEY_VERSION @ q)) = (1 :: u16)" "drop 2 (AUTHORITY_PUBKEY_VERSION @ q) = q"
    by (simp_all add: AUTHORITY_PUBKEY_VERSION_def)
  show ?thesis
    using q assms(2,4) by (simp add: authority_load_def assms(6,7) t enc v Let_def AUTHORITY_PUBKEY_VERSION_def)
qed

section \<open>An instance\<close>

text \<open>A printable code in place of base58, and reversal in place of the curve.\<close>

fun counted :: "nat \<Rightarrow> bytes \<Rightarrow> bytes option" where
  "counted n [] = Some []"
| "counted n (c # cs) = (if c = 0x41 then counted (n + 1) cs else map_option ((#) (of_nat n)) (counted 0 cs))"

definition sample_keylibs :: "unit keylibs" where
  "sample_keylibs = \<lparr>b58check_decode = (\<lambda>s. counted 0 (drop 1 s)),
     b58check_encode = (\<lambda>bs. 0x43 # concat (map (\<lambda>b. replicate (unat b) 0x41 @ [0x42]) bs)),
     xonly_of_secret = (\<lambda>s. if length s = 32 then Inr (rev s) else Inl ()), xonly_parse = (\<lambda>p. None)\<rparr>"

lemma counted_replicate: "counted n (replicate k 0x41 @ 0x42 # cs) = map_option ((#) (of_nat (n + k))) (counted 0 cs)"
  by (induction k arbitrary: n) (simp_all add: add.assoc)

lemma counted_code: "counted 0 (concat (map (\<lambda>b :: byte. replicate (unat b) 0x41 @ [0x42]) bs)) = Some bs"
  by (induction bs) (simp_all add: counted_replicate)

lemma sample_keylibs_laws: "keylib_laws sample_keylibs"
  by (auto simp: keylib_laws_def sample_keylibs_def counted_code printable_def list_all_iff split: if_splits)

definition sample_key_file :: "bytes \<Rightarrow> unit + bytes" where
  "sample_key_file path = Inr (if path = [1] then encode_authority_pubkey_b58 sample_keylibs (replicate 32 9) @ [0x0D, 0x0A]
     else b58check_encode sample_keylibs (replicate 32 9))"

theorem authority_key_loads_witness:
  "authority_load sample_keylibs sample_key_file [1] [2]
   = Inr \<lparr>pubkey_bytes = replicate 32 9, secret_bytes = replicate 32 9,
        pubkey_b58 = encode_authority_pubkey_b58 sample_keylibs (replicate 32 9)\<rparr>"
proof -
  let ?k = "replicate 32 9 :: bytes"
  have d: "xonly_of_secret sample_keylibs ?k = Inr ?k" by (simp add: sample_keylibs_def)
  have w: "set [] \<union> set [[0x0D], [0x0A]] \<union> set [] \<union> set [] \<subseteq> set white_space" by (simp add: white_space_def)
  have f: "sample_key_file [1] = Inr (concat [] @ encode_authority_pubkey_b58 sample_keylibs ?k @ concat [[0x0D], [0x0A]])"
    "sample_key_file [2] = Inr (concat [] @ b58check_encode sample_keylibs ?k @ concat [])"
    by (simp_all add: sample_key_file_def)
  show ?thesis
    using authority_key_loads [of sample_keylibs ?k ?k ?k ?k "[]" "[[0x0D], [0x0A]]" "[]" "[]" sample_key_file "[1]" "[2]",
        OF sample_keylibs_laws d d _ w f] by simp
qed

end
