(* ===== verification/Backlog.thy ===== *)
theory Backlog
  imports Gateway Sv2Auth
begin

text \<open>
  The queue between the share relay and the pool, and the wiring of the SV2 listener
  (\<open>crates/datum-bin/src/main.rs\<close>): which listener is started, what its shares and blocks cause, and
  what is left of the relay's work while no pool connection drains the queue.
\<close>

section \<open>The SV2 listener in the gateway\<close>

text \<open>The configuration with which the listener is bound, None where SV2 stays disabled.\<close>

definition sv2_listener_config ::
  "'s keylibs \<Rightarrow> (bytes \<Rightarrow> 'e + bytes) \<Rightarrow> (bytes \<Rightarrow> u16 \<Rightarrow> 'a option) \<Rightarrow> Config \<Rightarrow> RuntimeStats
     \<Rightarrow> 'a ListenerConfig option \<times> RuntimeStats" where
  "sv2_listener_config K file parse_addr cfg st =
     (if is_active (c_stratum_v2 cfg)
      then (case listener_config K file parse_addr (c_stratum_v2 cfg) of
              Inr lc \<Rightarrow> (Some lc, set_sv2_authority_pubkey_b58 (pubkey_b58 (lc_authority lc)) st)
            | Inl e \<Rightarrow> (None, st))
      else (None, st))"

text \<open>What a step of an SV2 connection causes outside it, in this order: the bridge forwards the share,
  then the callback counts the block and spawns its submission, where a submitter is wired.\<close>

definition sv2_effects :: "bool \<Rightarrow> Sv2Out \<Rightarrow> RuntimeStats \<Rightarrow> effect list \<times> RuntimeStats" where
  "sv2_effects wired out st =
     (map Forward (out_shares out) @ (if wired then map SpawnSubmit (out_blocks out) else []),
      if wired then (record_block_found ^^ length (out_blocks out)) st else st)"

text \<open>An SV2 share whose queue is gone ends the connection, and the block that it found with it.\<close>

theorem sv2_block_needs_pool_queue:
  "forward_share_outcome S False cid seq (BlockFound body payload) g = Err UpstreamGone"
  "forward_share_outcome S True cid seq (BlockFound body payload) g = Ok out \<Longrightarrow>
     fst (sv2_effects True out st) = [Forward body, SpawnSubmit payload]"
  by (auto simp: forward_share_outcome_def sv2_effects_def no_out_def)

section \<open>The relay while the pool is away\<close>

definition COMMANDS_CAPACITY :: nat where "COMMANDS_CAPACITY = 1024"

text \<open>\<open>room\<close> is the free room of the queue, which nothing drains: a turn whose share does not fit in
  waits at the send, after it has spawned the submission of its block, and no later share is
  taken.  The tracker changes here by the relay's own turns only: the jobs that the notify assembler
  enters meanwhile, and the jobs that they evict, are interleaved in the theory \<open>Interleave\<close>.\<close>

fun is_forward :: "effect \<Rightarrow> bool" where
  "is_forward (Forward body) = True"
| "is_forward (SpawnSubmit p) = False"

fun relay_backlog ::
  "libs \<Rightarrow> ShareUserConfig \<Rightarrow> bool \<Rightarrow> nat \<Rightarrow> SubmittedShare list \<Rightarrow> (JobTracker \<times> u64) \<times> RuntimeStats \<Rightarrow> effect list" where
  "relay_backlog X cfg wired room [] s = []"
| "relay_backlog X cfg wired room (share # shares) s =
     (case relay_turn X cfg wired share s of
        (s', es) \<Rightarrow>
          if es = [] then relay_backlog X cfg wired room shares s'
          else if room = 0 then filter (\<lambda>e. \<not> is_forward e) es
          else es @ relay_backlog X cfg wired (room - 1) shares s')"

lemma relayable_meta:
  "relayable X t share = (case map_option je_meta (get_entry t (Sv1 (ss_job_id share))) of
      None \<Rightarrow> False | Some m \<Rightarrow> is_ok (sv1_share_to_inputs X share (jm_version m)))"
  by (simp add: relayable_def split: option.split)

lemma relayable_keeps: "(\<And>k. map_option je_meta (get_entry t' k) = map_option je_meta (get_entry t k)) \<Longrightarrow> relayable X t' = relayable X t"
  by (rule ext) (simp only: relayable_meta)

lemma relay_turn_effects:
  assumes "relay_turn X cfg wired share ((t, pad), st) = (s', es)"
  obtains t' pad' st' where "s' = ((t', pad'), st')" "relayable X t' = relayable X t"
    "(es = []) = (\<not> relayable X t share)" "length (filter is_forward es) = (if relayable X t share then 1 else 0)"
    "filter is_forward (filter (\<lambda>e. \<not> is_forward e) es) = []"
proof -
  obtain t' pad' enc where r: "relay_share X cfg share (t, pad) = ((t', pad'), enc)" by (metis surj_pair)
  note k = relay_keeps_meta [OF r]
  obtain st' where s: "s' = ((t', pad'), st')" using assms r by (auto simp: relay_turn_def split: option.splits)
  have "(es = []) = (\<not> relayable X t share) \<and> length (filter is_forward es) = (if relayable X t share then 1 else 0)"
    using assms r k(2) by (cases enc) (auto simp: relay_turn_def share_effects_def split: option.splits)
  then show thesis using that [OF s relayable_keeps [OF k(1)]] by simp
qed

lemma backlog_forwards:
  "length (filter is_forward (relay_backlog X cfg wired room shares ((t, pad), st))) = min room (length (filter (relayable X t) shares))"
proof (induction shares arbitrary: room t pad st)
  case (Cons share shares)
  obtain s' es where turn: "relay_turn X cfg wired share ((t, pad), st) = (s', es)" by (metis surj_pair)
  from relay_turn_effects [OF turn] obtain t' pad' st' where e: "s' = ((t', pad'), st')" "relayable X t' = relayable X t"
    "(es = []) = (\<not> relayable X t share)" "length (filter is_forward es) = (if relayable X t share then 1 else 0)"
    "filter is_forward (filter (\<lambda>e. \<not> is_forward e) es) = []" by blast
  show ?case using Cons.IH [of _ t' pad' st'] e by (simp add: turn split del: if_split) (auto simp: min_def)
qed simp

lemma backlog_stops:
  "room < length (filter (relayable X t) pre) \<Longrightarrow>
     relay_backlog X cfg wired room (pre @ post) ((t, pad), st) = relay_backlog X cfg wired room pre ((t, pad), st)"
proof (induction pre arbitrary: room t pad st)
  case (Cons share shares)
  obtain s' es where turn: "relay_turn X cfg wired share ((t, pad), st) = (s', es)" by (metis surj_pair)
  from relay_turn_effects [OF turn] obtain t' pad' st' where e: "s' = ((t', pad'), st')" "relayable X t' = relayable X t"
    "(es = []) = (\<not> relayable X t share)" by blast
  show ?case
  proof (cases "relayable X t share")
    case True
    then show ?thesis using Cons.prems Cons.IH [of "room - 1" t' pad' st'] e by (cases room) (simp_all add: turn)
  next
    case False
    then show ?thesis using Cons.prems Cons.IH [of room t' pad' st'] e by (simp add: turn)
  qed
qed simp

text \<open>C31: Blocks wait for the pool after all: while no connection drains the queue to the pool, the relay
  forwards at most 1024 shares, and from the next encodable share on it takes no share at all, so
  that no block found by a later share is submitted to bitcoind, whatever it is, although the
  block of a single share is spawned before the share is sent so as not to depend on the queue.\<close>

theorem relay_stalls_without_pool:
  assumes "COMMANDS_CAPACITY < length (filter (relayable X t) before)"
  shows "relay_backlog X cfg wired COMMANDS_CAPACITY (before @ later) ((t, pad), st)
      = relay_backlog X cfg wired COMMANDS_CAPACITY before ((t, pad), st)
    \<and> length (filter is_forward (relay_backlog X cfg wired COMMANDS_CAPACITY (before @ later) ((t, pad), st))) = COMMANDS_CAPACITY"
  using backlog_stops [OF assms] backlog_forwards [of X cfg wired COMMANDS_CAPACITY before t pad st] assms by simp

theorem relay_stalls_without_pool_witness:
  "\<exists>t. relay_backlog plain_libs sample_cfg True COMMANDS_CAPACITY (replicate 1025 sample_submit @ [sample_submit]) ((t, 0), stats_new)
      = relay_backlog plain_libs sample_cfg True COMMANDS_CAPACITY (replicate 1025 sample_submit) ((t, 0), stats_new)
    \<and> relayable plain_libs t sample_submit"
proof -
  obtain tick t job where a: "assemble_job plain_libs sample_state (0, tracker_new) = ((tick, t), job)" by (metis surj_pair)
  obtain e where e: "get_entry t (Sv1 sample_job_id) = Some e"
    using a by (auto simp: assemble_job_def next_idx_def tracker_new_def tracker_insert_def
        evict_oldest_def TRACKER_MAX_def Let_def get_entry_def sample_state_def sample_job_id_def case_prod_unfold)
  obtain i where i: "sv1_share_to_inputs plain_libs sample_submit (jm_version (je_meta e)) = Inr i"
    using sample_inputs by blast
  have r: "relayable plain_libs t sample_submit" using e i by (simp add: relayable_def sample_submit_def is_ok_def)
  then have "COMMANDS_CAPACITY < length (filter (relayable plain_libs t) (replicate 1025 sample_submit))"
    by (simp add: COMMANDS_CAPACITY_def filter_replicate)
  from relay_stalls_without_pool [OF this, where later = "[sample_submit]" and cfg = sample_cfg and wired = True and pad = 0 and st = stats_new]
  show ?thesis using r by blast
qed

end
