(* ===== verification/Teardown.thy ===== *)
theory Teardown
  imports Upstream
begin

text \<open>
  The tasks of one pool session (\<open>Connected::run\<close> of \<open>client.rs\<close> with its receive task, and the bridge and
  the event loop of \<open>run_datum_upstream\<close> in \<open>crates/datum-bin/src/main.rs\<close>), which share two bounded
  channels: what each does in any order of their turns, and when the session is over, so that the
  gateway connects again.
\<close>

section \<open>The state and its transitions\<close>

text \<open>A channel ends for its reader when every sender of it is gone.  The events have two senders, the
  receive task's and the one that \<open>run\<close> keeps until it returns; the commands' reader goes with
  \<open>run\<close>.\<close>

record 'r Link =
  lk_conn :: Connected
  lk_rng :: 'r
  lk_stream :: bytes \<comment> \<open>bytes of the pool that have arrived and are not read\<close>
  lk_receiving :: bool \<comment> \<open>the receive task runs\<close>
  lk_sending :: bool \<comment> \<open>\<open>run\<close> has not returned\<close>
  lk_bridge :: bool \<comment> \<open>the bridge runs\<close>
  lk_open :: bool \<comment> \<open>the event loop runs\<close>
  lk_events :: "UpstreamEvent list"
  lk_commands :: "UpstreamCommand list"
  lk_external :: "UpstreamCommand list" \<comment> \<open>the queue of the share relay\<close>
  lk_state :: "Session \<times> Runtime"

definition CHANNEL_CAPACITY :: nat where "CHANNEL_CAPACITY = 64"

definition fresh_link :: "Connected \<Rightarrow> 'r \<Rightarrow> UpstreamCommand list \<Rightarrow> Runtime \<Rightarrow> 'r Link" where
  "fresh_link c r ext rt = \<lparr>lk_conn = c, lk_rng = r, lk_stream = [], lk_receiving = True, lk_sending = True, lk_bridge = True,
     lk_open = True, lk_events = [], lk_commands = [], lk_external = ext, lk_state = (new_session, rt)\<rparr>"

text \<open>A send on the commands channel waits for room, and fails once the reader is gone.\<close>

definition can_send :: "'r Link \<Rightarrow> UpstreamCommand list \<Rightarrow> bool" where
  "can_send s cmds \<longleftrightarrow> lk_sending s \<longrightarrow> length (lk_commands s) + length cmds \<le> CHANNEL_CAPACITY"

definition enqueue :: "UpstreamCommand list \<Rightarrow> 'r Link \<Rightarrow> 'r Link" where
  "enqueue cmds s = (if lk_sending s then s\<lparr>lk_commands := lk_commands s @ cmds\<rparr> else s)"

datatype label = Quiet | FrameSent byte bytes | SendFailed ClientError | ReceiveEnded ClientError
  | Handled session_event | SessionOver

text \<open>The pool's bytes arrive and the relay fills its queue at any time.  The receive task reads a
  frame that has arrived whole and forwards its event, where there is room, and ends at an error, at a
  frame that does not decode, or when the stream ends or fails within a frame.  \<open>run\<close> sends the next
  command and returns at the first error.  The bridge moves one command, and loses it and ends where
  \<open>run\<close> is gone.  The event loop handles an event or a change of the template, and ends when the
  events are drained and both their senders are gone.\<close>

inductive link_step :: "'r DatumCrypto \<Rightarrow> libs \<Rightarrow> 'r Link \<Rightarrow> label \<Rightarrow> 'r Link \<Rightarrow> bool" for C X where
  arrive: "link_step C X s Quiet (s\<lparr>lk_stream := lk_stream s @ bs\<rparr>)"
| relay: "link_step C X s Quiet (s\<lparr>lk_external := lk_external s @ [cmd]\<rparr>)"
| receive: "\<lbrakk>lk_receiving s; recv_frame C (lk_conn s) (lk_stream s) = (Inr (h, body), c, rest); decode_event h body = Inr ev;
    length (lk_events s) < CHANNEL_CAPACITY\<rbrakk>
    \<Longrightarrow> link_step C X s Quiet (s\<lparr>lk_conn := c, lk_stream := rest, lk_events := lk_events s @ [ev]\<rparr>)"
| receive_bad: "\<lbrakk>lk_receiving s; recv_frame C (lk_conn s) (lk_stream s) = (Inr (h, body), c, rest); decode_event h body = Inl e\<rbrakk>
    \<Longrightarrow> link_step C X s (ReceiveEnded e) (s\<lparr>lk_conn := c, lk_stream := rest, lk_receiving := False\<rparr>)"
| receive_error: "\<lbrakk>lk_receiving s; recv_frame C (lk_conn s) (lk_stream s) = (Inl e, c, rest)\<rbrakk>
    \<Longrightarrow> link_step C X s (ReceiveEnded e) (s\<lparr>lk_conn := c, lk_stream := rest, lk_receiving := False\<rparr>)"
| send: "\<lbrakk>lk_sending s; lk_commands s = cmd # cmds; command_frame C (lk_rng s) cmd = ((opc, body), r);
    send_frame C Done Done (lk_conn s) opc body = (Inr wire, c)\<rbrakk>
    \<Longrightarrow> link_step C X s (FrameSent opc body) (s\<lparr>lk_conn := c, lk_rng := r, lk_commands := cmds\<rparr>)"
| send_fails: "\<lbrakk>lk_sending s; lk_commands s = cmd # cmds; command_frame C (lk_rng s) cmd = ((opc, body), r);
    send_frame C out1 out2 (lk_conn s) opc body = (Inl e, c)\<rbrakk>
    \<Longrightarrow> link_step C X s (SendFailed e) (s\<lparr>lk_conn := c, lk_rng := r, lk_sending := False, lk_commands := []\<rparr>)"
| bridge: "\<lbrakk>lk_bridge s; lk_external s = cmd # cmds; can_send s [cmd]\<rbrakk>
    \<Longrightarrow> link_step C X s Quiet (enqueue [cmd] (s\<lparr>lk_external := cmds, lk_bridge := lk_sending s\<rparr>))"
| handle: "\<lbrakk>lk_open s; lk_events s = ev # evs; session_step X chan (Received ev) (lk_state s) = (st, cmds); can_send s cmds\<rbrakk>
    \<Longrightarrow> link_step C X s (Handled (Received ev)) (enqueue cmds (s\<lparr>lk_events := evs, lk_state := st\<rparr>))"
| template: "\<lbrakk>lk_open s; ev = TemplateChanged \<or> ev = TemplateSenderDropped; session_step X chan ev (lk_state s) = (st, cmds); can_send s cmds\<rbrakk>
    \<Longrightarrow> link_step C X s (Handled ev) (enqueue cmds (s\<lparr>lk_state := st\<rparr>))"
| over: "\<lbrakk>lk_open s; lk_events s = []; \<not> lk_receiving s; \<not> lk_sending s\<rbrakk>
    \<Longrightarrow> link_step C X s SessionOver (s\<lparr>lk_open := False, lk_bridge := False\<rparr>)"

inductive link_run :: "'r DatumCrypto \<Rightarrow> libs \<Rightarrow> 'r Link \<Rightarrow> label list \<Rightarrow> 'r Link \<Rightarrow> bool" for C X where
  stop: "link_run C X s [] s"
| more: "\<lbrakk>link_step C X s l s'; link_run C X s' ls s''\<rbrakk> \<Longrightarrow> link_run C X s (l # ls) s''"

inductive_cases link_run_NilE: "link_run C X s [] s'"
inductive_cases link_run_ConsE: "link_run C X s (l # ls) s'"

lemma link_run_append: "link_run C X s (ls @ ls') s'' \<longleftrightarrow> (\<exists>s'. link_run C X s ls s' \<and> link_run C X s' ls' s'')"
proof (induction ls arbitrary: s)
  case Nil
  then show ?case by (auto intro: link_run.intros elim: link_run_NilE)
next
  case (Cons l ls)
  then show ?case by (fastforce intro: link_run.intros elim!: link_run_ConsE)
qed

section \<open>When a session is over\<close>

text \<open>What one turn changes of the flags, by its label.\<close>

lemma step_flags:
  assumes "link_step C X s l s'"
  shows "lk_receiving s' = (lk_receiving s \<and> (\<forall>e. l \<noteq> ReceiveEnded e))"
    "lk_sending s' = (lk_sending s \<and> (\<forall>e. l \<noteq> SendFailed e))"
    "lk_open s' = (lk_open s \<and> l \<noteq> SessionOver)"
    "l = SessionOver \<Longrightarrow> \<not> lk_receiving s \<and> \<not> lk_sending s"
  using assms by (cases rule: link_step.cases; auto simp: enqueue_def)+

lemma run_flags:
  assumes "link_run C X s ls s'"
  shows "lk_receiving s' = (lk_receiving s \<and> (\<forall>e. ReceiveEnded e \<notin> set ls))"
    "lk_sending s' = (lk_sending s \<and> (\<forall>e. SendFailed e \<notin> set ls))"
    "lk_open s' = (lk_open s \<and> SessionOver \<notin> set ls)"
  using assms by (induction rule: link_run.induct) (auto dest: step_flags)

fun heard :: "label \<Rightarrow> bool" where
  "heard (Handled (Received ev)) = True"
| "heard l = False"

fun sent :: "label \<Rightarrow> bool" where
  "sent (FrameSent opc body) = True"
| "sent l = False"

lemma deaf_step:
  assumes "link_step C X s l s'" "\<not> lk_receiving s"
  shows "length (lk_events s') + (if heard l then 1 else 0) = length (lk_events s)"
  using assms by (cases rule: link_step.cases) (auto simp: enqueue_def)

lemma deaf_run:
  "\<lbrakk>link_run C X s ls s'; \<not> lk_receiving s\<rbrakk> \<Longrightarrow> length (filter heard ls) + length (lk_events s') = length (lk_events s)"
proof (induction rule: link_run.induct)
  case (more s l s1 ls s2)
  then show ?case using deaf_step [OF more(1)] step_flags(1) [OF more(1)] by (simp split: if_splits)
qed simp

lemma mute_run: "\<lbrakk>link_run C X s ls s'; \<not> lk_sending s\<rbrakk> \<Longrightarrow> \<forall>l \<in> set ls. \<not> sent l"
proof (induction rule: link_run.induct)
  case (more s l s1 ls s2)
  have "\<not> sent l" using more(1,4) by (cases rule: link_step.cases) auto
  then show ?case using more step_flags(2) [OF more(1)] by simp
qed simp

lemma events_bounded:
  "\<lbrakk>link_run C X s ls s'; length (lk_events s) \<le> CHANNEL_CAPACITY\<rbrakk> \<Longrightarrow> length (lk_events s') \<le> CHANNEL_CAPACITY"
proof (induction rule: link_run.induct)
  case (more s l s1 ls s2)
  have "length (lk_events s1) \<le> CHANNEL_CAPACITY" using more(1,4) by (cases rule: link_step.cases) (auto simp: enqueue_def)
  then show ?case by (rule more(3))
qed

lemma commands_bounded:
  "\<lbrakk>link_run C X s ls s'; length (lk_commands s) \<le> CHANNEL_CAPACITY\<rbrakk> \<Longrightarrow> length (lk_commands s') \<le> CHANNEL_CAPACITY"
proof (induction rule: link_run.induct)
  case (more s l s1 ls s2)
  have "length (lk_commands s1) \<le> CHANNEL_CAPACITY"
    using more(1,4) by (cases rule: link_step.cases) (auto simp: enqueue_def can_send_def)
  then show ?case by (rule more(3))
qed

text \<open>Once both directions have failed, the event loop drains what is queued and ends.\<close>

lemma session_drains:
  "\<lbrakk>lk_open s; \<not> lk_receiving s; \<not> lk_sending s\<rbrakk> \<Longrightarrow> \<exists>ls s'. link_run C X s ls s' \<and> \<not> lk_open s'"
proof (induction "lk_events s" arbitrary: s)
  case Nil
  then have "link_step C X s SessionOver (s\<lparr>lk_open := False, lk_bridge := False\<rparr>)" by (intro link_step.over) simp_all
  then show ?case by (intro exI [of _ "[SessionOver]"] exI conjI) (auto intro: link_run.intros)
next
  case (Cons ev evs)
  obtain st cmds where st: "session_step X (None :: Template option option) (Received ev) (lk_state s) = (st, cmds)" by fastforce
  let ?s = "enqueue cmds (s\<lparr>lk_events := evs, lk_state := st\<rparr>)"
  have step: "link_step C X s (Handled (Received ev)) ?s"
    by (rule link_step.handle [OF Cons.prems(1) Cons.hyps(2) [symmetric] st]) (simp add: can_send_def Cons.prems)
  have "\<exists>ls s'. link_run C X ?s ls s' \<and> \<not> lk_open s'"
    by (rule Cons.hyps(1)) (simp_all add: enqueue_def Cons.prems)
  then show ?case using step by (blast intro: link_run.intros)
qed

definition failed_both :: "label list \<Rightarrow> bool" where
  "failed_both ls \<longleftrightarrow> (\<exists>e. ReceiveEnded e \<in> set ls) \<and> (\<exists>e. SendFailed e \<in> set ls)"

definition no_failure :: "label list \<Rightarrow> bool" where
  "no_failure ls \<longleftrightarrow> (\<forall>e. ReceiveEnded e \<notin> set ls \<and> SendFailed e \<notin> set ls)"

lemma closed_is_over:
  "\<lbrakk>link_run C X s ls s'; lk_open s \<or> \<not> lk_receiving s \<and> \<not> lk_sending s\<rbrakk> \<Longrightarrow> lk_open s' \<or> \<not> lk_receiving s' \<and> \<not> lk_sending s'"
proof (induction rule: link_run.induct)
  case (more s l s1 ls s2)
  then show ?case using step_flags [OF more(1)] by blast
qed simp

lemma ended_has_no_failure: "\<lbrakk>link_run C X s ls s'; \<not> lk_receiving s; \<not> lk_sending s\<rbrakk> \<Longrightarrow> no_failure ls"
proof (induction rule: link_run.induct)
  case (more s l s1 ls s2)
  have "\<forall>e. l \<noteq> ReceiveEnded e \<and> l \<noteq> SendFailed e"
    using more(1,4,5) by (cases rule: link_step.cases) auto
  then show ?case using more step_flags [OF more(1)] by (auto simp: no_failure_def)
qed (simp add: no_failure_def)

text \<open>C30: A broken pool session is given up only when both of its directions have failed: after any
  run, it can end without a further failure exactly if the receive task has ended (at an error, or a
  frame of the pool that does not decode) and a send has failed, in either order.  In between, the
  gateway handles at most the 64 queued events of a pool that it no longer hears, or sends nothing more
  to a pool that it still hears, and does not connect again.\<close>

theorem session_needs_both_failures:
  assumes "link_run C X (fresh_link c r ext rt) ls s"
  shows "((\<exists>ls' s'. link_run C X s ls' s' \<and> no_failure ls' \<and> \<not> lk_open s') \<longleftrightarrow> failed_both ls)
    \<and> (\<forall>ls1 e ls2. ls = ls1 @ ReceiveEnded e # ls2 \<longrightarrow> length (filter heard ls2) \<le> CHANNEL_CAPACITY)
    \<and> (\<forall>ls1 e ls2. ls = ls1 @ SendFailed e # ls2 \<longrightarrow> filter sent ls2 = [])"
proof (intro conjI allI impI)
  have fresh: "lk_open (fresh_link c r ext rt)" "lk_receiving (fresh_link c r ext rt)" "lk_sending (fresh_link c r ext rt)"
    "length (lk_events (fresh_link c r ext rt)) \<le> CHANNEL_CAPACITY" by (simp_all add: fresh_link_def)
  have both: "failed_both ls \<longleftrightarrow> \<not> lk_receiving s \<and> \<not> lk_sending s"
    using run_flags [OF assms] fresh by (simp add: failed_both_def)
  have over: "lk_open s \<or> \<not> lk_receiving s \<and> \<not> lk_sending s" using closed_is_over [OF assms] fresh(1) by blast
  show "(\<exists>ls' s'. link_run C X s ls' s' \<and> no_failure ls' \<and> \<not> lk_open s') \<longleftrightarrow> failed_both ls"
  proof
    assume "\<exists>ls' s'. link_run C X s ls' s' \<and> no_failure ls' \<and> \<not> lk_open s'"
    then obtain ls' s' where r: "link_run C X s ls' s'" "no_failure ls'" "\<not> lk_open s'" by blast
    then have "\<not> lk_receiving s' \<and> \<not> lk_sending s'" using closed_is_over [OF r(1) over] by blast
    then show "failed_both ls" unfolding both using run_flags(1,2) [OF r(1)] r(2) by (simp add: no_failure_def)
  next
    assume "failed_both ls"
    then have e: "\<not> lk_receiving s" "\<not> lk_sending s" using both by simp_all
    show "\<exists>ls' s'. link_run C X s ls' s' \<and> no_failure ls' \<and> \<not> lk_open s'"
    proof (cases "lk_open s")
      case True
      then show ?thesis using session_drains [OF True e] ended_has_no_failure [OF _ e] by blast
    next
      case False
      then show ?thesis using link_run.stop [of C X s] ended_has_no_failure [OF _ e] by blast
    qed
  qed
  fix ls1 e ls2
  {
    assume "ls = ls1 @ ReceiveEnded e # ls2"
    then obtain s1 s2 where "link_run C X (fresh_link c r ext rt) ls1 s1" "link_step C X s1 (ReceiveEnded e) s2" "link_run C X s2 ls2 s"
      using assms by (auto simp: link_run_append elim: link_run_ConsE)
    moreover from this(2) have "\<not> lk_receiving s2" "lk_events s2 = lk_events s1" by (cases rule: link_step.cases; auto)+
    ultimately show "length (filter heard ls2) \<le> CHANNEL_CAPACITY"
      using deaf_run events_bounded [OF _ fresh(4)] by fastforce
  next
    assume "ls = ls1 @ SendFailed e # ls2"
    then obtain s2 where "\<not> lk_sending s2" "link_run C X s2 ls2 s"
      using assms step_flags(2) by (fastforce simp: link_run_append elim: link_run_ConsE)
    then show "filter sent ls2 = []" using mute_run by (simp add: filter_empty_conv)
  }
qed

text \<open>A pool sends a share response without its body, and is deaf to the gateway no more than the gateway
  to it: the next share still goes out, and the session stays.\<close>

theorem session_needs_both_failures_witness:
  "\<exists>s. link_run (DryocCrypto plain_dryoc) plain_libs (fresh_link sample_session 0 [SubmitShare [0x27]] runtime_new)
      [Quiet, ReceiveEnded (ClMessage (TooShort 0 9)), Quiet, FrameSent 5 [0x27]] s
    \<and> \<not> (\<exists>ls' s'. link_run (DryocCrypto plain_dryoc) plain_libs s ls' s' \<and> no_failure ls' \<and> \<not> lk_open s')"
proof -
  let ?C = "DryocCrypto plain_dryoc" and ?s0 = "fresh_link sample_session (0 :: nat) [SubmitShare [0x27]] runtime_new"
  have fits: "frame_fits (5, [SHARE_RESPONSE_OPCODE])" "frame_fits (5, [0x27])" by (simp_all add: frame_fits_def)
  from session_ok_send [OF plain_dryoc_laws plain_session(1) fits(1)] obtain wire c' where
    w: "send_frame ?C Done Done sample_session 5 [SHARE_RESPONSE_OPCODE] = (Inr wire, c')" by auto
  obtain d where d: "recv_frame ?C sample_session wire = (Inr (data_header 5 [SHARE_RESPONSE_OPCODE], [SHARE_RESPONSE_OPCODE]), d, [])"
    using recv_of_sent [OF plain_dryoc_laws plain_session fits(1) w] by (metis append_Nil2)
  have bad: "decode_event (data_header 5 [SHARE_RESPONSE_OPCODE]) [SHARE_RESPONSE_OPCODE] = Inl (ClMessage (TooShort 0 9))"
    by (simp add: decode_event_def data_header_def from_bits_def share_response_decode_def opcode_defs)
  obtain x y where dx: "d = set_recv x y sample_session"
    using recv_frame_state [of ?C sample_session wire] d by auto
  from session_ok_send [OF plain_dryoc_laws plain_session(1) fits(2)] obtain wire2 c2 where
    w2: "send_frame ?C Done Done sample_session 5 [0x27] = (Inr wire2, c2)" by auto
  then have w3: "send_frame ?C Done Done d 5 [0x27] = (Inr wire2, set_recv x y c2)" by (simp add: dx send_frame_set_recv)
  let ?s1 = "?s0\<lparr>lk_stream := lk_stream ?s0 @ wire\<rparr>"
  let ?s2 = "?s1\<lparr>lk_conn := d, lk_stream := [], lk_receiving := False\<rparr>"
  let ?s3 = "enqueue [SubmitShare [0x27]] (?s2\<lparr>lk_external := [], lk_bridge := lk_sending ?s2\<rparr>)"
  let ?s4 = "?s3\<lparr>lk_conn := set_recv x y c2, lk_rng := 0, lk_commands := []\<rparr>"
  have cf: "command_frame ?C 0 (SubmitShare [0x27]) = ((5, [0x27]), 0)" by (rule command_frame.simps)
  have "link_step ?C plain_libs ?s0 Quiet ?s1" by (rule link_step.arrive)
  moreover have "link_step ?C plain_libs ?s1 (ReceiveEnded (ClMessage (TooShort 0 9))) ?s2"
    by (rule link_step.receive_bad) (use d bad in \<open>simp_all add: fresh_link_def\<close>)
  moreover have "link_step ?C plain_libs ?s2 Quiet ?s3"
    by (rule link_step.bridge) (simp_all add: fresh_link_def can_send_def CHANNEL_CAPACITY_def)
  moreover have "link_step ?C plain_libs ?s3 (FrameSent 5 [0x27]) ?s4"
    by (rule link_step.send [where cmd = "SubmitShare [0x27]"]) (use w3 cf in \<open>simp_all add: fresh_link_def enqueue_def\<close>)
  ultimately have run: "link_run ?C plain_libs ?s0 [Quiet, ReceiveEnded (ClMessage (TooShort 0 9)), Quiet, FrameSent 5 [0x27]] ?s4"
    by (blast intro: link_run.intros)
  have "\<not> failed_both [Quiet, ReceiveEnded (ClMessage (TooShort 0 9)), Quiet, FrameSent 5 [0x27]]"
    by (simp add: failed_both_def)
  then show ?thesis using run session_needs_both_failures [OF run] by blast
qed

end
