(* ===== verification/Interleave.thy ===== *)
theory Interleave
  imports EndToEnd Backlog Teardown
begin

text \<open>
  The tasks of the gateway on the Stratum V1 side, interleaved: the template driver, the notify
  assembler, any number of miner connections, the share relay, and the bridge, the command loop and the
  pool of each pool session, each a task of its own in \<open>crates/datum-bin/src/main.rs\<close>, \<open>server.rs\<close> and
  \<open>client.rs\<close> (the pool at the other end of the stream), which meet in the watch channels of the job
  states and of the notify, the shared tracker, and three bounded queues: the submitted shares, the
  encoded submissions, which outlive a pool session, and the commands of one session.  A transition
  is one turn of one task, and the tasks take their turns in any order.  Stratum V2 connections, which
  enter jobs of their own into the same tracker, take no part: the listener is disabled.
\<close>

unbundle bit_operations_syntax

section \<open>The state and its transitions\<close>

text \<open>An encoded submission on its way to the pool.  The body is what the program moves; the job's
  metadata, the share's inputs and the number of the session in which the share was encoded only
  record where it comes from.\<close>

record Queued =
  qd_meta :: JobMeta
  qd_inputs :: SubmittedShareInputs
  qd_body :: bytes
  qd_session :: nat

text \<open>A check of the pool: the job's metadata, the share's inputs, whether the share was encoded in the
  session that delivers it, and the header that the pool checks (None where it lacks a block).\<close>

type_synonym check = "JobMeta \<times> SubmittedShareInputs \<times> bool \<times> bytes option"

record Sys =
  sy_driver :: Driver
  sy_state :: "TemplateState option" \<comment> \<open>a job state that the assembler has not seen\<close>
  sy_assembled :: "NotifyJob option" \<comment> \<open>a tracked job, not yet published\<close>
  sy_latest :: "NotifyJob option" \<comment> \<open>the notify channel\<close>
  sy_pool_min :: u64
  sy_next_client :: u32
  sy_conns :: "nat \<Rightarrow> Conn option"
  sy_queue :: "SubmittedShare list" \<comment> \<open>the queue of submitted shares\<close>
  sy_gw :: Gateway \<comment> \<open>the assembler's tick, the tracker and the padding state\<close>
  sy_hand :: "Queued option" \<comment> \<open>what the relay has encoded and waits to send\<close>
  sy_commands :: "Queued list" \<comment> \<open>the queue of encoded submissions, which outlives the sessions\<close>
  sy_session :: nat \<comment> \<open>how many sessions have been established\<close>
  sy_open :: bool \<comment> \<open>the event loop of the session runs\<close>
  sy_sending :: bool \<comment> \<open>the session's command loop has not returned\<close>
  sy_bridge :: bool \<comment> \<open>the session's bridge runs\<close>
  sy_carried :: "Queued option" \<comment> \<open>what the bridge has taken and waits to send\<close>
  sy_link :: "Queued option list" \<comment> \<open>the session's commands: submissions, or None for a coinbaser request\<close>
  sy_wire :: "Queued list" \<comment> \<open>submissions that are sent and have not reached the pool\<close>
  sy_pool :: PoolSlots \<comment> \<open>what the pool of the session knows\<close>
  sy_driven :: nat \<comment> \<open>how many job states have been published\<close>
  sy_accepted :: nat \<comment> \<open>how many connections have been accepted\<close>

definition sys_start :: "u64 \<Rightarrow> Sys" where
  "sys_start pad = \<lparr>sy_driver = new_driver, sy_state = None, sy_assembled = None, sy_latest = None, sy_pool_min = 0,
     sy_next_client = 0, sy_conns = Map.empty, sy_queue = [], sy_gw = gw_start pad, sy_hand = None, sy_commands = [],
     sy_session = 0, sy_open = False, sy_sending = False, sy_bridge = False, sy_carried = None, sy_link = [], sy_wire = [],
     sy_pool = empty_pool, sy_driven = 0, sy_accepted = 0\<rparr>"

definition sys_world :: "Sys \<Rightarrow> World" where
  "sys_world s = \<lparr>latest_job = sy_latest s, pool_min = sy_pool_min s\<rparr>"

definition SUBMIT_CAPACITY :: nat where "SUBMIT_CAPACITY = 64"

text \<open>What the invariant asks of a job state: its widths, and an offset of the proof-of-target byte
  inside the first half, behind the version.\<close>

definition publishable :: "TemplateState \<Rightarrow> bool" where
  "publishable st \<longleftrightarrow> state_fits st \<and> target_pot_index st \<noteq> 0 \<and> unat (target_pot_index st) < length (coinb1 st)"

definition names_ok :: "SubmittedShare list \<Rightarrow> bool" where
  "names_ok shares \<longleftrightarrow> list_all (\<lambda>s. 0 \<notin> set (ascii (ss_username s))) shares"

definition queued :: "nat \<Rightarrow> JobMeta \<times> SubmittedShareInputs \<times> bytes \<Rightarrow> Queued" where
  "queued n q = (case q of (m, i, body) \<Rightarrow> \<lparr>qd_meta = m, qd_inputs = i, qd_body = body, qd_session = n\<rparr>)"

text \<open>The session's end of the pipe when a session is established: its channels, its bridge and the pool's
  table are new, and the flags are cleared; the queue of encoded submissions, and what the relay
  waits to put there, stay.\<close>

definition reconnected :: "Sys \<Rightarrow> Sys" where
  "reconnected s = s\<lparr>sy_session := Suc (sy_session s), sy_open := True, sy_sending := True, sy_bridge := True, sy_carried := None,
     sy_link := [], sy_wire := [], sy_pool := empty_pool,
     sy_gw := (sy_gw s)\<lparr>gw_tracker := reset_send_once_flags (gw_tracker (sy_gw s))\<rparr>\<rparr>"

text \<open>The driver runs under the tag override of a pool session, which is at most 86 bytes, on a template
  and a coinbaser whose outputs fit their length field.  The relay encodes one share at a time under
  the tracker's lock and then waits for room in the queue of encoded submissions; the bridge takes
  one submission at a time and waits for room in the session's channel, which the event loop's
  coinbaser requests share; the command loop sends in order, until a send fails: then it returns,
  what its channel holds is dropped, the bridge loses the submission that it next tries to send and
  ends, and the session may be over, after which the gateway connects again.  What the command
  loop has sent reaches the pool in order, or not at all once the next session begins.\<close>

inductive sys_step :: "libs \<Rightarrow> Config \<Rightarrow> Sys \<Rightarrow> check list \<Rightarrow> Sys \<Rightarrow> bool"
  for X cfg where
  drive: "\<lbrakk>tag = None \<or> length (the tag) \<le> 86; length (transactions t) < 2 ^ 64; length (build_outputs X t blob) + 8 < 2 ^ 16;
    drive_template X (driver_config cfg) tag (Some t) (Some blob) (sy_driver s) = (d, Some st)\<rbrakk> \<Longrightarrow>
    sys_step X cfg s [] (s\<lparr>sy_driver := d, sy_state := Some st, sy_driven := Suc (sy_driven s)\<rparr>)"
| assemble: "\<lbrakk>sy_state s = Some st; sy_assembled s = None;
    assemble_job X st (gw_tick (sy_gw s), gw_tracker (sy_gw s)) = ((tick, tr), job)\<rbrakk> \<Longrightarrow>
    sys_step X cfg s []
      (s\<lparr>sy_state := None, sy_assembled := Some job, sy_gw := (sy_gw s)\<lparr>gw_tick := tick, gw_tracker := tr\<rparr>\<rparr>)"
| publish: "sy_assembled s = Some job \<Longrightarrow> sys_step X cfg s [] (s\<lparr>sy_assembled := None, sy_latest := Some job\<rparr>)"
| accept: "sy_conns s n = None \<Longrightarrow>
    sys_step X cfg s []
      (s\<lparr>sy_next_client := sy_next_client s + 1, sy_accepted := Suc (sy_accepted s), sy_conns := (sy_conns s)(n \<mapsto> new_conn (sv1_state cfg) (sys_world s) (sy_next_client s))\<rparr>)"
| connection: "\<lbrakk>sy_conns s n = Some c; step (sv1_state cfg) (sys_world s) ev c = (r, outs, shares); names_ok shares;
    length (sy_queue s) + length shares \<le> SUBMIT_CAPACITY\<rbrakk> \<Longrightarrow>
    sys_step X cfg s [] (s\<lparr>sy_conns := (sy_conns s)(n := r), sy_queue := sy_queue s @ shares\<rparr>)"
| relay: "\<lbrakk>sy_hand s = None; sy_queue s = share # rest; encode_share X (user_config cfg) share (sy_gw s) = (g, q)\<rbrakk> \<Longrightarrow>
    sys_step X cfg s [] (s\<lparr>sy_queue := rest, sy_gw := g, sy_hand := map_option (queued (sy_session s)) q\<rparr>)"
| enqueue: "\<lbrakk>sy_hand s = Some q; length (sy_commands s) < COMMANDS_CAPACITY\<rbrakk> \<Longrightarrow>
    sys_step X cfg s [] (s\<lparr>sy_hand := None, sy_commands := sy_commands s @ [q]\<rparr>)"
| bridge_takes: "\<lbrakk>sy_bridge s; sy_carried s = None; sy_commands s = q # qs\<rbrakk> \<Longrightarrow>
    sys_step X cfg s [] (s\<lparr>sy_carried := Some q, sy_commands := qs\<rparr>)"
| bridge_sends: "\<lbrakk>sy_bridge s; sy_carried s = Some q; sy_sending s; length (sy_link s) < CHANNEL_CAPACITY\<rbrakk> \<Longrightarrow>
    sys_step X cfg s [] (s\<lparr>sy_carried := None, sy_link := sy_link s @ [Some q]\<rparr>)"
| bridge_loses: "\<lbrakk>sy_bridge s; sy_carried s = Some q; \<not> sy_sending s\<rbrakk> \<Longrightarrow>
    sys_step X cfg s [] (s\<lparr>sy_carried := None, sy_bridge := False\<rparr>)"
| request: "\<lbrakk>sy_open s; sy_sending s; length (sy_link s) < CHANNEL_CAPACITY\<rbrakk> \<Longrightarrow>
    sys_step X cfg s [] (s\<lparr>sy_link := sy_link s @ [None]\<rparr>)"
| send: "\<lbrakk>sy_sending s; sy_link s = cmd # cmds\<rbrakk> \<Longrightarrow>
    sys_step X cfg s [] (s\<lparr>sy_link := cmds, sy_wire := sy_wire s @ (case cmd of None \<Rightarrow> [] | Some q \<Rightarrow> [q])\<rparr>)"
| send_fails: "\<lbrakk>sy_sending s; sy_link s \<noteq> []\<rbrakk> \<Longrightarrow> sys_step X cfg s [] (s\<lparr>sy_sending := False, sy_link := []\<rparr>)"
| receive: "\<lbrakk>sy_wire s = q # qs; pool_receive X (qd_body q) (sy_pool s) = (p, h)\<rbrakk> \<Longrightarrow>
    sys_step X cfg s [(qd_meta q, qd_inputs q, qd_session q = sy_session s, h)] (s\<lparr>sy_wire := qs, sy_pool := p\<rparr>)"
| session_over: "\<lbrakk>sy_open s; \<not> sy_sending s\<rbrakk> \<Longrightarrow>
    sys_step X cfg s [] (s\<lparr>sy_open := False, sy_bridge := False, sy_carried := None\<rparr>)"
| connect: "\<not> sy_open s \<Longrightarrow> sys_step X cfg s [] (reconnected s)"
| client_config: "sys_step X cfg s [] (s\<lparr>sy_pool_min := d\<rparr>)"

inductive sys_run :: "libs \<Rightarrow> Config \<Rightarrow> Sys \<Rightarrow> check list \<Rightarrow> Sys \<Rightarrow> bool"
  for X cfg where
  rest: "sys_run X cfg s [] s"
| turn: "\<lbrakk>sys_run X cfg s cs s'; sys_step X cfg s' cs' s''\<rbrakk> \<Longrightarrow> sys_run X cfg s (cs @ cs') s''"

section \<open>The pipe to the pool\<close>

text \<open>All the submissions on their way, in the order in which they arrive.\<close>

definition carried :: "'a option \<Rightarrow> 'a list" where
  "carried q = (case q of None \<Rightarrow> [] | Some x \<Rightarrow> [x])"

lemma carried_simps [simp]: "carried None = []" "carried (Some x) = [x]" "set (carried q) = set_option q"
  by (cases q; simp add: carried_def)+

definition pipe :: "Sys \<Rightarrow> Queued list" where
  "pipe s = sy_wire s @ concat (map carried (sy_link s)) @ carried (sy_carried s) @ sy_commands s @ carried (sy_hand s)"

text \<open>What the pool knows after some submissions, and whether it can check all those of a session.\<close>

fun pool_after :: "libs \<Rightarrow> Queued list \<Rightarrow> PoolSlots \<Rightarrow> PoolSlots" where
  "pool_after X [] p = p"
| "pool_after X (q # qs) p = pool_after X qs (fst (pool_receive X (qd_body q) p))"

fun checkable :: "libs \<Rightarrow> nat \<Rightarrow> Queued list \<Rightarrow> PoolSlots \<Rightarrow> bool" where
  "checkable X n [] p = True"
| "checkable X n (q # qs) p \<longleftrightarrow>
     (qd_session q = n \<longrightarrow> snd (pool_receive X (qd_body q) p) = Some (share_header X (qd_meta q) (qd_inputs q)))
     \<and> checkable X n qs (fst (pool_receive X (qd_body q) p))"

lemma pool_after_append [simp]: "pool_after X (a @ b) p = pool_after X b (pool_after X a p)"
  by (induction a arbitrary: p) simp_all

lemma checkable_append [simp]: "checkable X n (a @ b) p \<longleftrightarrow> checkable X n a p \<and> checkable X n b (pool_after X a p)"
  by (induction a arbitrary: p) simp_all

lemma checkable_other: "\<forall>q \<in> set qs. qd_session q \<noteq> n \<Longrightarrow> checkable X n qs p"
  by (induction qs arbitrary: p) simp_all

text \<open>While the command loop sends, the pool will know what the tracker's flags say once the whole
  pipe has arrived; afterwards, what is already sent can still be checked.\<close>

definition pipe_ok :: "libs \<Rightarrow> PoolSlots \<Rightarrow> Sys \<Rightarrow> bool" where
  "pipe_ok X pool s \<longleftrightarrow>
     (sy_sending s \<longrightarrow> pool = pool_after X (pipe s) (sy_pool s) \<and> checkable X (sy_session s) (pipe s) (sy_pool s))
   \<and> checkable X (sy_session s) (sy_wire s) (sy_pool s)
   \<and> (\<forall>q \<in> set (pipe s). qd_session q \<le> sy_session s)"

section \<open>The invariant\<close>

definition job_id_of :: "nat \<Rightarrow> NotifyJob \<Rightarrow> bool" where
  "job_id_of i job \<longleftrightarrow> (\<exists>h. nj_job_id job = make_job_id (of_nat i) (of_nat i) h)"

definition entry_of :: "NotifyJob \<Rightarrow> JobKey \<Rightarrow> JobMeta \<Rightarrow> bool" where
  "entry_of job k m \<longleftrightarrow> k = Sv1 (nj_job_id job) \<and> jm_coinb1_bin m = nj_coinb1_bin job \<and> jm_target_pot_index m = nj_target_pot_index job"

text \<open>\<open>jobs\<close> are the jobs assembled so far, in order.  Their identifiers are distinct as long as the
  32-bit tick has not wrapped.\<close>

definition jobs_ok :: "NotifyJob list \<Rightarrow> bool" where
  "jobs_ok jobs \<longleftrightarrow> (\<forall>i < length jobs. job_id_of i (jobs ! i)
     \<and> nj_target_pot_index (jobs ! i) \<noteq> 0 \<and> unat (nj_target_pot_index (jobs ! i)) < length (nj_coinb1_bin (jobs ! i)))"

definition sys_inv :: "libs \<Rightarrow> ServerState \<Rightarrow> Sys \<Rightarrow> NotifyJob list \<Rightarrow> u64 set \<Rightarrow> bool" where
  "sys_inv X sst s jobs used \<longleftrightarrow>
     (\<exists>hts pool. gw_inv hts (length jobs) used pool (sy_gw s) \<and> pipe_ok X pool s)
   \<and> jobs_ok jobs \<and> length jobs \<le> sy_driven s
   \<and> next_seed (sy_driver s) = of_nat (sy_driven s)
   \<and> used \<subseteq> of_nat ` {..<sy_driven s - (if sy_state s = None then 0 else 1)}
   \<and> (\<forall>st. sy_state s = Some st \<longrightarrow> publishable st \<and> 0 < sy_driven s \<and> job_id_seed st = of_nat (sy_driven s - 1) \<and> length jobs < sy_driven s)
   \<and> set_option (sy_assembled s) \<subseteq> set jobs \<and> set_option (sy_latest s) \<subseteq> set jobs
   \<and> (\<forall>k e. get_entry (gw_tracker (sy_gw s)) k = Some e \<longrightarrow> (\<exists>job \<in> set jobs. entry_of job k (je_meta e)))
   \<and> (\<forall>n c. sy_conns s n = Some c \<longrightarrow> conn_ok sst (cn_client_id c) (set jobs) c)
   \<and> (\<forall>share \<in> set (sy_queue s). 0 \<notin> set (ascii (ss_username share)) \<and> (\<exists>cid. share_ok sst cid (set jobs) share))"

lemma job_ids_distinct:
  assumes "job_id_of i a" "job_id_of j b" "i < 2 ^ 32" "j < 2 ^ 32" "nj_job_id a = nj_job_id b"
  shows "i = j"
proof -
  have "hex8 (of_nat i) = hex8 (of_nat j)"
    using assms(1,2,5) by (auto simp: job_id_of_def make_job_id_def append_eq_append_conv hex8_length)
  from hex8_inj [OF this] have "unat (of_nat i :: u32) = unat (of_nat j :: u32)" by simp
  then have "i mod 2 ^ 32 = j mod 2 ^ 32" by (simp only: unat_of_nat) simp
  then show ?thesis using assms(3,4) by simp
qed

lemma jobs_by_id:
  assumes "jobs_ok jobs" "length jobs \<le> 2 ^ 32" "a \<in> set jobs" "b \<in> set jobs" "nj_job_id a = nj_job_id b"
  shows "a = b"
proof -
  obtain i j where "i < length jobs" "a = jobs ! i" "j < length jobs" "b = jobs ! j"
    using assms(3,4) by (auto simp: in_set_conv_nth)
  then show ?thesis using job_ids_distinct [of i a j b] assms(1,2,5) by (simp add: jobs_ok_def)
qed

section \<open>Every turn keeps it\<close>

lemma pipe_ok_elsewhere [simp]:
  "pipe_ok X pool (s\<lparr>sy_driver := a\<rparr>) = pipe_ok X pool s" "pipe_ok X pool (s\<lparr>sy_state := b\<rparr>) = pipe_ok X pool s"
  "pipe_ok X pool (s\<lparr>sy_driven := n\<rparr>) = pipe_ok X pool s" "pipe_ok X pool (s\<lparr>sy_assembled := j\<rparr>) = pipe_ok X pool s"
  "pipe_ok X pool (s\<lparr>sy_latest := j\<rparr>) = pipe_ok X pool s" "pipe_ok X pool (s\<lparr>sy_gw := g\<rparr>) = pipe_ok X pool s"
  "pipe_ok X pool (s\<lparr>sy_next_client := w\<rparr>) = pipe_ok X pool s" "pipe_ok X pool (s\<lparr>sy_accepted := n\<rparr>) = pipe_ok X pool s"
  "pipe_ok X pool (s\<lparr>sy_conns := cs\<rparr>) = pipe_ok X pool s" "pipe_ok X pool (s\<lparr>sy_queue := shares\<rparr>) = pipe_ok X pool s"
  "pipe_ok X pool (s\<lparr>sy_pool_min := d\<rparr>) = pipe_ok X pool s"
  by (simp_all add: pipe_ok_def pipe_def)

lemma get_entry_inserted:
  "get_entry (tracker_insert t k m sd) k' = Some e \<Longrightarrow> k' = k \<and> e = new_entry m sd \<or> get_entry t k' = Some e"
  by (auto simp: tracker_insert_def evict_oldest_def get_entry_def AList.update_conv' AList.delete_conv' Let_def
      split: list.splits if_splits)

lemma assembled_job:
  assumes "assemble_job X st (tick, t) = ((tick', t'), job)"
  obtains m where "nj_job_id job = make_job_id tick (next_datum_idx t) (height st)" "nj_coinb1_bin job = coinb1 st"
    "nj_target_pot_index job = target_pot_index st" "entry_of job (Sv1 (nj_job_id job)) m"
    "\<And>k e. get_entry t' k = Some e \<Longrightarrow> k = Sv1 (nj_job_id job) \<and> je_meta e = m \<or> get_entry t k = Some e"
proof -
  obtain np m where n: "notify_from_template_state X (make_job_id tick (next_datum_idx t) (height st)) (next_datum_idx t) COINBASE_ID st True = (np, m)"
    by (metis surj_pair)
  have job: "job = job_notify np m (make_job_id tick (next_datum_idx t) (height st))"
    and t': "t' = tracker_insert (t\<lparr>next_datum_idx := next_datum_idx t + 1\<rparr>) (Sv1 (make_job_id tick (next_datum_idx t) (height st))) m (job_id_seed st)"
    using assms n by (auto simp: assemble_job_def next_idx_def job_notify_def Let_def)
  have m: "jm_coinb1_bin m = coinb1 st" "jm_target_pot_index m = target_pot_index st"
    using n by (auto simp: notify_from_template_state_def Let_def)
  have "get_entry t' k = Some e \<Longrightarrow> k = Sv1 (nj_job_id job) \<and> je_meta e = m \<or> get_entry t k = Some e" for k e
    unfolding t' using get_entry_inserted [of "t\<lparr>next_datum_idx := next_datum_idx t + 1\<rparr>"]
    by (fastforce simp: job job_notify_def notify_job_with_coinb1_def new_entry_def get_entry_def)
  then show thesis
    using that [of m] m by (simp add: job job_notify_def notify_job_with_coinb1_def entry_of_def)
qed

lemma drive_inv:
  assumes "sys_inv X sst s jobs used" "drive_template X dcfg tag t c (sy_driver s) = (d, Some st)" "publishable st"
  shows "sys_inv X sst (s\<lparr>sy_driver := d, sy_state := Some st, sy_driven := Suc (sy_driven s)\<rparr>) jobs used"
proof -
  have "next_seed d = next_seed (sy_driver s) + 1" "job_id_seed st = next_seed (sy_driver s)"
    using assms(2) by (auto simp: drive_template_def from_template_and_blob_def Let_def case_prod_unfold split: option.splits)
  moreover have "used \<subseteq> of_nat ` {..<sy_driven s}"
    using assms(1) by (auto simp: sys_inv_def intro: order_trans)
  ultimately show ?thesis using assms(1,3) by (auto simp: sys_inv_def add.commute)
qed

lemma assemble_inv:
  assumes "sys_inv X sst s jobs used" "sy_state s = Some st" "sy_driven s \<le> 2 ^ 32"
    and a: "assemble_job X st (gw_tick (sy_gw s), gw_tracker (sy_gw s)) = ((tick, tr), job)"
  shows "sys_inv X sst (s\<lparr>sy_state := None, sy_assembled := Some job, sy_gw := (sy_gw s)\<lparr>gw_tick := tick, gw_tracker := tr\<rparr>\<rparr>)
    (jobs @ [job]) (insert (job_id_seed st) used)"
proof -
  let ?n = "length jobs"
  obtain hts pool where g: "gw_inv hts ?n used pool (sy_gw s)" "pipe_ok X pool s" using assms(1) by (auto simp: sys_inv_def)
  have st: "publishable st" "0 < sy_driven s" "job_id_seed st = of_nat (sy_driven s - 1)" "?n < sy_driven s"
    and used: "used \<subseteq> of_nat ` {..<sy_driven s - 1}" and jobs: "jobs_ok jobs"
    and entries: "\<And>k e. get_entry (gw_tracker (sy_gw s)) k = Some e \<Longrightarrow> \<exists>job \<in> set jobs. entry_of job k (je_meta e)"
    using assms(1,2) by (auto simp: sys_inv_def)
  have "job_id_seed st \<notin> used"
  proof
    assume "job_id_seed st \<in> used"
    then obtain i where "i < sy_driven s - 1" "(of_nat (sy_driven s - 1) :: u64) = of_nat i" using used st(3) by auto
    then have "unat (of_nat (sy_driven s - 1) :: u64) = unat (of_nat i :: u64)" "i < sy_driven s - 1" by simp_all
    then have "(sy_driven s - 1) mod 2 ^ 64 = i mod 2 ^ 64" "i < sy_driven s - 1" by (simp_all only: unat_of_nat) simp
    then show False using assms(3) by simp
  qed
  then have g': "gw_inv (hts(?n := height st)) (length (jobs @ [job])) (insert (job_id_seed st) used) pool ((sy_gw s)\<lparr>gw_tick := tick, gw_tracker := tr\<rparr>)"
    using new_state_inv [OF g(1) _ _ a] st(1) by (simp add: publishable_def)
  have tick: "gw_tick (sy_gw s) = of_nat ?n" "next_datum_idx (gw_tracker (sy_gw s)) = of_nat ?n"
    using g(1) by (simp_all add: gw_inv_def tracks_def)
  obtain m where m: "nj_job_id job = make_job_id (of_nat ?n) (of_nat ?n) (height st)" "nj_coinb1_bin job = coinb1 st"
    "nj_target_pot_index job = target_pot_index st" "entry_of job (Sv1 (nj_job_id job)) m"
    "\<And>k e. get_entry tr k = Some e \<Longrightarrow> k = Sv1 (nj_job_id job) \<and> je_meta e = m \<or> get_entry (gw_tracker (sy_gw s)) k = Some e"
    using assembled_job [OF a] tick by metis
  have jobs': "jobs_ok (jobs @ [job])"
    using jobs m(1-3) st(1) by (auto simp: jobs_ok_def nth_append job_id_of_def publishable_def less_Suc_eq)
  have entries': "\<exists>j \<in> set (jobs @ [job]). entry_of j k (je_meta e)" if "get_entry tr k = Some e" for k e
    using m(5) [OF that] m(4) entries by auto
  have mono: "conn_ok sst cid (set jobs) c \<Longrightarrow> conn_ok sst cid (set (jobs @ [job])) c"
    "share_ok sst cid (set jobs) sh \<Longrightarrow> share_ok sst cid (set (jobs @ [job])) sh" for cid c sh
    by (auto elim: conn_ok_mono share_ok_mono)
  have "job_id_seed st \<in> of_nat ` {..<sy_driven s}" unfolding st(3) using st(2) by (intro imageI) simp
  moreover have "used \<subseteq> of_nat ` {..<sy_driven s}" using used by (rule order_trans) auto
  ultimately show ?thesis
    using assms(1) g' g(2) jobs' entries' mono st(4) unfolding sys_inv_def by simp blast
qed

lemma publish_inv:
  "\<lbrakk>sys_inv X sst s jobs used; sy_assembled s = Some job\<rbrakk> \<Longrightarrow> sys_inv X sst (s\<lparr>sy_assembled := None, sy_latest := Some job\<rparr>) jobs used"
  by (simp add: sys_inv_def)

lemma accept_inv:
  assumes "sys_inv X sst s jobs used"
  shows "sys_inv X sst (s\<lparr>sy_next_client := sy_next_client s + 1, sy_accepted := Suc (sy_accepted s), sy_conns := (sy_conns s)(n \<mapsto> new_conn sst (sys_world s) (sy_next_client s))\<rparr>) jobs used"
proof -
  have "conn_ok sst (cn_client_id c) (set jobs) c" if "c = new_conn sst (sys_world s) (sy_next_client s)" for c
    using conn_ok_mono [OF new_conn_ok, of "set jobs"] that by (simp add: new_conn_def)
  then show ?thesis using assms by (auto simp: sys_inv_def)
qed

lemma connection_inv:
  assumes "sys_inv X sst s jobs used" "sy_conns s n = Some c" "step sst (sys_world s) ev c = (r, outs, shares)" "names_ok shares"
  shows "sys_inv X sst (s\<lparr>sy_conns := (sy_conns s)(n := r), sy_queue := sy_queue s @ shares\<rparr>) jobs used"
proof -
  have c: "conn_ok sst (cn_client_id c) (set jobs) c" and l: "set_option (sy_latest s) \<subseteq> set jobs"
    using assms(1,2) by (auto simp: sys_inv_def)
  have "conn_ok sst (cn_client_id c') (set jobs) c'" if "r = Some c'" for c'
  proof -
    have ok: "conn_ok sst (cn_client_id c) (set jobs) c'"
      by (rule conn_ok_mono [OF step_ok [OF c assms(3) [unfolded that]]]) (use l in \<open>simp add: sys_world_def\<close>)
    then have "cn_client_id c' = cn_client_id c" by (simp add: conn_ok_def)
    with ok show ?thesis by simp
  qed
  moreover have "share_ok sst (cn_client_id c) (set jobs) sh" if "sh \<in> set shares" for sh
    using step_shares [OF assms(3) that] submitted_share_ok [OF c] by blast
  ultimately show ?thesis
    using assms(1,4) by (auto simp: sys_inv_def names_ok_def list_all_iff)
qed

text \<open>A new session: the flags are cleared, so that nothing is asked of its pool, and every submission that
  is still on its way is of an earlier session.\<close>

lemma connect_inv:
  assumes "sys_inv X sst s jobs used"
  shows "sys_inv X sst (reconnected s) jobs used"
proof -
  let ?t = "reset_send_once_flags (gw_tracker (sy_gw s))" and ?pool = "pool_after X (pipe (reconnected s)) empty_pool"
  obtain hts pool where inv: "gw_inv hts (length jobs) used pool (sy_gw s)" "pipe_ok X pool s" using assms by (auto simp: sys_inv_def)
  have old: "\<forall>q \<in> set (pipe (reconnected s)). qd_session q \<le> sy_session s"
    using inv(2) by (auto simp: pipe_ok_def pipe_def reconnected_def)
  then have "checkable X (Suc (sy_session s)) (pipe (reconnected s)) empty_pool" by (intro checkable_other) auto
  then have "pipe_ok X ?pool (reconnected s)" using old by (auto simp: pipe_ok_def) (auto simp: reconnected_def le_Suc_eq)
  moreover have "gw_inv hts (length jobs) used ?pool (sy_gw (reconnected s))"
    using reset_inv [OF inv(1)] by (simp add: reconnected_def)
  moreover have "\<exists>job \<in> set jobs. entry_of job k (je_meta e)" if e: "get_entry ?t k = Some e" for k e
  proof -
    obtain d where "get_entry (gw_tracker (sy_gw s)) k = Some d" "je_meta e = je_meta d"
      using e by (auto simp: get_entry_reset)
    then show ?thesis using assms by (auto simp: sys_inv_def)
  qed
  ultimately have "\<exists>hts pool. gw_inv hts (length jobs) used pool (sy_gw (reconnected s)) \<and> pipe_ok X pool (reconnected s)"
    "\<forall>k e. get_entry (gw_tracker (sy_gw (reconnected s))) k = Some e \<longrightarrow> (\<exists>job \<in> set jobs. entry_of job k (je_meta e))"
    by (auto simp: reconnected_def)
  then show ?thesis using assms unfolding sys_inv_def by (simp add: reconnected_def)
qed

text \<open>The other turns of the pipe move submissions along it, or lose them when the command loop has
  failed.\<close>

lemma moved_inv:
  assumes "sys_inv X sst s jobs used" "\<And>pool. pipe_ok X pool s \<Longrightarrow> pipe_ok X pool s'"
    and "sy_driver s' = sy_driver s" "sy_state s' = sy_state s" "sy_assembled s' = sy_assembled s" "sy_latest s' = sy_latest s"
    and "sy_conns s' = sy_conns s" "sy_queue s' = sy_queue s" "sy_gw s' = sy_gw s" "sy_driven s' = sy_driven s"
  shows "sys_inv X sst s' jobs used"
  using assms unfolding sys_inv_def by metis

lemma receive_checks:
  assumes "pipe_ok X pool s" "sy_wire s = q # qs" "pool_receive X (qd_body q) (sy_pool s) = (p, h)"
  shows "pipe_ok X pool (s\<lparr>sy_wire := qs, sy_pool := p\<rparr>)"
    "qd_session q = sy_session s \<Longrightarrow> h = Some (share_header X (qd_meta q) (qd_inputs q))"
  using assms by (auto simp: pipe_ok_def pipe_def)

lemma encoded_cases:
  assumes "encode_share X ucfg share g = (g', q)"
  obtains pad enc where "relay_share X ucfg share (gw_tracker g, gw_pad g) = ((gw_tracker g', pad), enc)"
    "\<And>m i body. q = Some (m, i, body) \<Longrightarrow> \<exists>e. get_entry (gw_tracker g) (Sv1 (ss_job_id share)) = Some e \<and> m = je_meta e
        \<and> sv1_share_to_inputs X share (jm_version m) = Inr i"
proof -
  obtain t pad enc where r: "relay_share X ucfg share (gw_tracker g, gw_pad g) = ((t, pad), enc)" by (metis surj_pair)
  have t: "t = gw_tracker g'" using assms r by (auto simp: encode_share_def Let_def split: option.splits prod.splits)
  have "\<exists>e. get_entry (gw_tracker g) (Sv1 (ss_job_id share)) = Some e \<and> m = je_meta e \<and> sv1_share_to_inputs X share (jm_version m) = Inr i"
    if c: "q = Some (m, i, body)" for m i body
  proof -
    obtain en where en: "enc = Some en" using c assms r by (auto simp: encode_share_def Let_def split: option.splits)
    then have "relayable X (gw_tracker g) share" using relay_keeps_meta(2) [OF r] by simp
    then obtain e where e: "get_entry (gw_tracker g) (Sv1 (ss_job_id share)) = Some e"
      "is_ok (sv1_share_to_inputs X share (jm_version (je_meta e)))" by (auto simp: relayable_def)
    then obtain i' where "sv1_share_to_inputs X share (jm_version (je_meta e)) = Inr i'"
      by (cases "sv1_share_to_inputs X share (jm_version (je_meta e))") simp_all
    then show ?thesis using c assms r en e(1) by (auto simp: encode_share_def Let_def split: prod.splits)
  qed
  then show thesis using that r t by blast
qed

text \<open>A share of a connection is patched as its job and its difficulty ask.\<close>

lemma encoded_patched:
  assumes "sys_inv X sst s jobs used" "length jobs \<le> 2 ^ 32" "share \<in> set (sy_queue s)"
    and "get_entry (gw_tracker (sy_gw s)) (Sv1 (ss_job_id share)) = Some e" "m = je_meta e"
    and "sv1_share_to_inputs X share (jm_version m) = Inr i"
  shows "patched_for_share m i"
proof -
  have jobs: "jobs_ok jobs"
    and entries: "\<And>k e. get_entry (gw_tracker (sy_gw s)) k = Some e \<Longrightarrow> \<exists>job \<in> set jobs. entry_of job k (je_meta e)"
    using assms(1) by (auto simp: sys_inv_def)
  obtain cid where sh: "share_ok sst cid (set jobs) share" using assms(1,3) unfolding sys_inv_def by blast
  obtain job where job: "job \<in> set jobs" "nj_job_id job = ss_job_id share" "jm_coinb1_bin m = nj_coinb1_bin job"
    "jm_target_pot_index m = nj_target_pot_index job" using entries [OF assms(4)] assms(5) by (auto simp: entry_of_def)
  have i: "si_patched_coinb1 i = ss_patched_coinb1 share" "si_current_diff i = ss_current_diff share"
    using assms(6) by (auto simp: sv1_share_to_inputs_def and_then_Inr Let_def)
  have pot: "nj_target_pot_index job \<noteq> 0" "unat (nj_target_pot_index job) < length (nj_coinb1_bin job)"
    using jobs job(1) by (auto simp: jobs_ok_def in_set_conv_nth)
  have "b = (nj_coinb1_bin job)[unat (nj_target_pot_index job) := floor_pot (ss_current_diff share)]"
    if p: "ss_patched_coinb1 share = Some b" for b
  proof -
    obtain job' where "job' \<in> set jobs" "nj_job_id job' = ss_job_id share"
      "b = patch_coinb1_bytes (nj_coinb1_bin job') (nj_target_pot_index job') (ss_current_diff share)"
      using sh p unfolding share_ok_def by blast
    moreover from this have "job' = job" using jobs_by_id [OF jobs assms(2)] job by simp
    ultimately show ?thesis using pot by (simp add: patch_coinb1_bytes_def sv1_floor_pot_eq)
  qed
  then show ?thesis by (simp add: patched_for_share_def i job split: option.split)
qed

lemma encoded_pipe:
  assumes "gw_inv hts n used pool (sy_gw s)" "pipe_ok X pool s" "sy_hand s = None" "share_named ucfg share"
    and e: "encode_share X ucfg share (sy_gw s) = (g, q)" and p: "\<And>m i body. q = Some (m, i, body) \<Longrightarrow> patched_for_share m i"
  shows "\<exists>pool'. gw_inv hts n used pool' g \<and> pipe_ok X pool' (s\<lparr>sy_queue := rest, sy_gw := g, sy_hand := map_option (queued (sy_session s)) q\<rparr>)"
proof (cases q)
  case None
  then show ?thesis using share_inv [OF assms(1,4) e] assms(2,3) by (auto simp: pipe_ok_def pipe_def)
next
  case (Some x)
  obtain m i body where q: "q = Some (m, i, body)" using Some by (metis prod_cases3)
  obtain pool' h where r: "pool_receive X body pool = (pool', h)" by (metis surj_pair)
  have "gw_inv hts n used pool' g" "h = Some (share_header X m i)" using share_inv [OF assms(1,4) e] p [OF q] q r by simp_all
  then show ?thesis using assms(2,3) r q by (intro exI [of _ pool']) (auto simp: pipe_ok_def pipe_def queued_def)
qed

lemma relay_inv:
  assumes "sys_inv X sst s jobs used" "length jobs \<le> 2 ^ 32" "0 \<notin> set (pool_address ucfg)" "sy_hand s = None"
    and q: "sy_queue s = share # rest" and g: "encode_share X ucfg share (sy_gw s) = (g, q)"
  shows "sys_inv X sst (s\<lparr>sy_queue := rest, sy_gw := g, sy_hand := map_option (queued (sy_session s)) q\<rparr>) jobs used"
proof -
  obtain hts pool where inv: "gw_inv hts (length jobs) used pool (sy_gw s)" "pipe_ok X pool s" using assms(1) by (auto simp: sys_inv_def)
  have "share \<in> set (sy_queue s)" by (simp add: q)
  then obtain cid where sh: "0 \<notin> set (ascii (ss_username share))" "share_ok sst cid (set jobs) share"
    using assms(1) unfolding sys_inv_def by blast
  then have named: "share_named ucfg share" using assms(3) by (simp add: share_named_def share_ok_def)
  obtain pad enc where r: "relay_share X ucfg share (gw_tracker (sy_gw s), gw_pad (sy_gw s)) = ((gw_tracker g, pad), enc)"
    and c: "\<And>m i body. q = Some (m, i, body) \<Longrightarrow> \<exists>e. get_entry (gw_tracker (sy_gw s)) (Sv1 (ss_job_id share)) = Some e \<and> m = je_meta e
        \<and> sv1_share_to_inputs X share (jm_version m) = Inr i"
    using encoded_cases [OF g] by metis
  have "patched_for_share m i" if "q = Some (m, i, body)" for m i body
    using c [OF that] encoded_patched [OF assms(1,2) \<open>share \<in> set (sy_queue s)\<close>] by blast
  then have "\<exists>hts pool. gw_inv hts (length jobs) used pool g \<and> pipe_ok X pool (s\<lparr>sy_queue := rest, sy_gw := g, sy_hand := map_option (queued (sy_session s)) q\<rparr>)"
    using encoded_pipe [OF inv assms(4) named g] by blast
  moreover have "\<exists>job \<in> set jobs. entry_of job k (je_meta e)" if "get_entry (gw_tracker g) k = Some e" for k e
    using relay_keeps_meta(1) [OF r, of k] that assms(1)
    by (cases "get_entry (gw_tracker (sy_gw s)) k") (auto simp: sys_inv_def)
  ultimately show ?thesis using assms(1) q unfolding sys_inv_def by simp
qed

section \<open>Runs\<close>

lemma driven_mono: "sys_step X cfg s cs s' \<Longrightarrow> sy_driven s \<le> sy_driven s'"
  by (induction rule: sys_step.induct) (simp_all add: reconnected_def)

lemma sys_start_inv: "sys_inv X sst (sys_start pad) [] {}"
  using gw_inv_start [of _ empty_pool pad]
  by (auto simp: sys_inv_def sys_start_def jobs_ok_def new_driver_def gw_start_def tracker_new_def get_entry_def pipe_ok_def pipe_def)

definition all_checked :: "libs \<Rightarrow> check list \<Rightarrow> bool" where
  "all_checked X cs \<longleftrightarrow> (\<forall>(m, i, fresh, h) \<in> set cs. fresh \<longrightarrow> h = Some (share_header X m i))"

lemma all_checked_simps [simp]: "all_checked X []" "all_checked X (a @ b) \<longleftrightarrow> all_checked X a \<and> all_checked X b"
  by (simp_all add: all_checked_def ball_Un)

lemma sys_step_inv:
  assumes "sys_step X cfg s cs s'" "sys_inv X (sv1_state cfg) s jobs used" "sy_driven s' \<le> 2 ^ 32" "0 \<notin> set (mc_pool_address (c_mining cfg))"
    and "sha_laws X" "validate cfg = Inr ()"
  shows "(\<exists>jobs' used'. sys_inv X (sv1_state cfg) s' jobs' used') \<and> all_checked X cs"
  using assms
proof (cases rule: sys_step.cases)
  case (drive tag t blob d st)
  then have "publishable st"
    using driven_state_fits [OF assms(5,6) drive(3) drive(6,4,5)] by (simp add: publishable_def)
  then show ?thesis using drive_inv [OF assms(2) drive(6)] drive(1,2) by auto
next
  case (assemble st tick tr job)
  then show ?thesis using assemble_inv [OF assms(2) assemble(3) _ assemble(5)] assms(3) by auto
next
  case (publish job)
  then show ?thesis using publish_inv [OF assms(2) publish(3)] by auto
next
  case (accept n)
  then show ?thesis using accept_inv [OF assms(2), of n] by auto
next
  case (connection n c ev r outs shares)
  then show ?thesis using connection_inv [OF assms(2) connection(3-5)] by auto
next
  case (relay share rest g q)
  have "length jobs \<le> sy_driven s" using assms(2) by (simp add: sys_inv_def)
  then have "length jobs \<le> 2 ^ 32" using driven_mono [OF assms(1)] assms(3) by linarith
  have "0 \<notin> set (pool_address (user_config cfg))" using assms(4) by (simp add: user_config_def)
  from relay_inv [OF assms(2) \<open>length jobs \<le> 2 ^ 32\<close> this relay(3-5)] show ?thesis unfolding relay(1,2) by auto
next
  case (enqueue q)
  have "sys_inv X (sv1_state cfg) s' jobs used"
    by (rule moved_inv [OF assms(2)]) (use enqueue in \<open>auto simp: pipe_ok_def pipe_def\<close>)
  then show ?thesis using enqueue(1) by auto
next
  case (bridge_takes q qs)
  have "sys_inv X (sv1_state cfg) s' jobs used"
    by (rule moved_inv [OF assms(2)]) (use bridge_takes in \<open>auto simp: pipe_ok_def pipe_def\<close>)
  then show ?thesis using bridge_takes(1) by auto
next
  case (bridge_sends q)
  have "sys_inv X (sv1_state cfg) s' jobs used"
    by (rule moved_inv [OF assms(2)]) (use bridge_sends in \<open>auto simp: pipe_ok_def pipe_def\<close>)
  then show ?thesis using bridge_sends(1) by auto
next
  case (bridge_loses q)
  have "sys_inv X (sv1_state cfg) s' jobs used"
    by (rule moved_inv [OF assms(2)]) (use bridge_loses in \<open>auto simp: pipe_ok_def pipe_def\<close>)
  then show ?thesis using bridge_loses(1) by auto
next
  case request
  have "sys_inv X (sv1_state cfg) s' jobs used"
    by (rule moved_inv [OF assms(2)]) (use request in \<open>auto simp: pipe_ok_def pipe_def\<close>)
  then show ?thesis using request(1) by auto
next
  case (send cmd cmds)
  have "sys_inv X (sv1_state cfg) s' jobs used"
    by (rule moved_inv [OF assms(2)]) (use send in \<open>auto simp: pipe_ok_def pipe_def carried_def split: option.splits\<close>)
  then show ?thesis using send(1) by auto
next
  case send_fails
  have "sys_inv X (sv1_state cfg) s' jobs used"
    by (rule moved_inv [OF assms(2)]) (use send_fails in \<open>auto simp: pipe_ok_def pipe_def\<close>)
  then show ?thesis using send_fails(1) by auto
next
  case (receive q qs p h)
  obtain pool where "pipe_ok X pool s" using assms(2) by (auto simp: sys_inv_def)
  note r = receive_checks [OF _ receive(3,4)]
  have "sys_inv X (sv1_state cfg) s' jobs used"
    by (rule moved_inv [OF assms(2)]) (use receive r(1) in simp_all)
  then show ?thesis using r(2) [OF \<open>pipe_ok X pool s\<close>] receive(1) by (auto simp: all_checked_def)
next
  case session_over
  have "sys_inv X (sv1_state cfg) s' jobs used"
    by (rule moved_inv [OF assms(2)]) (use session_over in \<open>auto simp: pipe_ok_def pipe_def\<close>)
  then show ?thesis using session_over(1) by auto
next
  case connect
  then show ?thesis using connect_inv [OF assms(2)] by auto
next
  case (client_config d)
  have "sys_inv X (sv1_state cfg) (s\<lparr>sy_pool_min := d\<rparr>) jobs used" using assms(2) by (simp add: sys_inv_def)
  then show ?thesis using client_config by auto
qed

lemma sys_run_inv:
  "\<lbrakk>sys_run X cfg s cs s'; sys_inv X (sv1_state cfg) s jobs used; sy_driven s' \<le> 2 ^ 32; 0 \<notin> set (mc_pool_address (c_mining cfg));
    sha_laws X; validate cfg = Inr ()\<rbrakk> \<Longrightarrow>
     (\<exists>jobs' used'. sys_inv X (sv1_state cfg) s' jobs' used') \<and> all_checked X cs"
proof (induction rule: sys_run.induct)
  case (turn s cs s' cs' s'')
  have "sy_driven s' \<le> 2 ^ 32" using driven_mono [OF turn.hyps(2)] turn.prems(2) by simp
  then obtain jobs' used' where "sys_inv X (sv1_state cfg) s' jobs' used'" "all_checked X cs"
    using turn.IH turn.prems by blast
  with sys_step_inv [OF turn.hyps(2) this(1) turn.prems(2-5)] show ?case by auto
qed auto

text \<open>C1: The pool can check every share of its session: over every interleaving of the template driver,
  the notify assembler, the connections with any requests, the share relay, the bridge, the command
  loop, its failures, the ends of sessions and new sessions, and with all that the queues between
  them hold or lose, each share that the relay encoded in the session that delivers it finds the
  pool in possession of the blocks of its job, and the header that the pool rebuilds from them is
  the header that the relay hashed.  A share that was encoded before the session was established, and
  waited in the queue meanwhile, is not covered (\<open>queued_share_lacks_blocks\<close>).  The
  configuration is valid, the outputs of every coinbaser fit their length field, the Stratum V2 listener is disabled, no name or address contains a NUL, and at most 2^32 job states have been
  published.\<close>

theorem gateway_shares_check:
  assumes "sha_laws X" "validate cfg = Inr ()" "0 \<notin> set (mc_pool_address (c_mining cfg))"
    and "sys_run X cfg (sys_start pad) cs s" "sy_driven s \<le> 2 ^ 32" "(m, i, True, h) \<in> set cs"
  shows "h = Some (share_header X m i)"
  using sys_run_inv [OF assms(4) sys_start_inv assms(5,3,1,2)] assms(6) by (auto simp: all_checked_def)

section \<open>Search spaces\<close>

text \<open>Connections are numbered as they are accepted, and keep their extranonce1.\<close>

definition ids_inv :: "ServerState \<Rightarrow> Sys \<Rightarrow> bool" where
  "ids_inv sst s \<longleftrightarrow> sy_next_client s = of_nat (sy_accepted s)
   \<and> (\<forall>n c. sy_conns s n = Some c \<longrightarrow> conn_ok sst (cn_client_id c) UNIV c \<and> (\<exists>k < sy_accepted s. cn_client_id c = of_nat k)
        \<and> (\<forall>n' c'. sy_conns s n' = Some c' \<longrightarrow> cn_client_id c' = cn_client_id c \<longrightarrow> n' = n))"

lemma ids_accept:
  assumes "ids_inv sst s" "sy_accepted s < 2 ^ 32" "sy_conns s n = None"
  shows "ids_inv sst (s\<lparr>sy_next_client := sy_next_client s + 1, sy_accepted := Suc (sy_accepted s),
    sy_conns := (sy_conns s)(n \<mapsto> new_conn sst w (sy_next_client s))\<rparr>)"
proof -
  have new: "conn_ok sst (sy_next_client s) UNIV (new_conn sst w (sy_next_client s))"
    "cn_client_id (new_conn sst w (sy_next_client s)) = of_nat (sy_accepted s)"
    using assms(1) conn_ok_mono [OF new_conn_ok, of UNIV] by (simp_all add: new_conn_def ids_inv_def)
  have "cn_client_id c \<noteq> of_nat (sy_accepted s)" if m: "sy_conns s m = Some c" for m c
  proof
    assume e: "cn_client_id c = of_nat (sy_accepted s)"
    obtain k where k: "k < sy_accepted s" "cn_client_id c = of_nat k" using assms(1) m unfolding ids_inv_def by blast
    then have "unat (of_nat k :: u32) = unat (of_nat (sy_accepted s) :: u32)" using e by simp
    then have "k mod 2 ^ 32 = sy_accepted s mod 2 ^ 32" by (simp only: unat_of_nat) simp
    then show False using k(1) assms(2) by simp
  qed
  then show ?thesis
    using assms(1,3) new unfolding ids_inv_def
    by (auto simp: less_Suc_eq split: if_splits) (metis new(2))+
qed

lemma ids_same:
  "\<lbrakk>ids_inv sst s; sy_next_client s' = sy_next_client s; sy_accepted s' = sy_accepted s; sy_conns s' = sy_conns s\<rbrakk> \<Longrightarrow> ids_inv sst s'"
  unfolding ids_inv_def by simp

lemma ids_connection:
  assumes "ids_inv sst s" "sy_conns s n = Some c" "step sst w ev c = (r, outs, shares)"
  shows "ids_inv sst (s\<lparr>sy_conns := (sy_conns s)(n := r), sy_queue := q\<rparr>)"
proof -
  have c: "conn_ok sst (cn_client_id c) UNIV c" and inj: "\<And>m d m' d'. \<lbrakk>sy_conns s m = Some d; sy_conns s m' = Some d';
      cn_client_id d' = cn_client_id d\<rbrakk> \<Longrightarrow> m' = m"
    and k: "\<And>m d. sy_conns s m = Some d \<Longrightarrow> conn_ok sst (cn_client_id d) UNIV d \<and> (\<exists>k < sy_accepted s. cn_client_id d = of_nat k)"
    using assms(1,2) unfolding ids_inv_def by blast+
  have r: "conn_ok sst (cn_client_id c) UNIV c' \<and> cn_client_id c' = cn_client_id c" if "r = Some c'" for c'
    using step_ok [OF c assms(3) [unfolded that]] by (simp add: conn_ok_def)
  have old: "\<exists>d. sy_conns s m = Some d \<and> cn_client_id d = cn_client_id d'" if "((sy_conns s)(n := r)) m = Some d'" for m d'
    using that r assms(2) by (cases "m = n") auto
  have "conn_ok sst (cn_client_id d) UNIV d" if "((sy_conns s)(n := r)) m = Some d" for m d
    using that r k by (cases "m = n") auto
  moreover have "\<exists>k < sy_accepted s. cn_client_id d = of_nat k" if "((sy_conns s)(n := r)) m = Some d" for m d
    using old [OF that] k by metis
  moreover have "m' = m" if "((sy_conns s)(n := r)) m = Some d" "((sy_conns s)(n := r)) m' = Some d'" "cn_client_id d' = cn_client_id d" for m d m' d'
    using old [OF that(1)] old [OF that(2)] that(3) inj by metis
  ultimately show ?thesis using assms(1) unfolding ids_inv_def by simp
qed

lemma ids_step:
  assumes "sys_step X cfg s cs s'" "ids_inv (sv1_state cfg) s" "sy_accepted s' \<le> 2 ^ 32"
  shows "ids_inv (sv1_state cfg) s'"
  using assms
proof (cases rule: sys_step.cases)
  case (accept n)
  then show ?thesis using ids_accept [OF assms(2), of n] assms(3) by simp
next
  case (connection n c ev r outs shares)
  show ?thesis unfolding connection(2) by (rule ids_connection [OF assms(2) connection(3,4)])
qed (use ids_same [OF assms(2)] in \<open>simp_all add: reconnected_def\<close>)

lemma accepted_mono: "sys_step X cfg s cs s' \<Longrightarrow> sy_accepted s \<le> sy_accepted s'"
  by (induction rule: sys_step.induct) (simp_all add: reconnected_def)

lemma ids_run: "\<lbrakk>sys_run X cfg s cs s'; ids_inv (sv1_state cfg) s; sy_accepted s' \<le> 2 ^ 32\<rbrakk> \<Longrightarrow> ids_inv (sv1_state cfg) s'"
proof (induction rule: sys_run.induct)
  case (turn s cs s' cs' s'')
  then show ?case using ids_step accepted_mono le_trans by metis
qed

text \<open>C26: No two miners search the same space: in every interleaving of the gateway's tasks, until the
  32-bit client counter wraps, the connections that are open at the same time have different
  first extranonces, so that no two of them can hash the same coinbase.\<close>

theorem sv1_search_spaces_disjoint:
  assumes "sys_run X cfg (sys_start pad) cs s" "sy_accepted s \<le> 2 ^ 32"
    and "sy_conns s n = Some c" "sy_conns s n' = Some c'" "n \<noteq> n'"
  shows "cn_xn1 c \<noteq> cn_xn1 c' \<and> (\<forall>xn2 xn2'. be_bytes 4 (cn_xn1 c) @ xn2 \<noteq> be_bytes 4 (cn_xn1 c') @ xn2')"
proof -
  have "ids_inv (sv1_state cfg) (sys_start pad)" by (simp add: ids_inv_def sys_start_def)
  from ids_run [OF assms(1) this assms(2)] have i: "ids_inv (sv1_state cfg) s" .
  then have "cn_client_id c \<noteq> cn_client_id c'" using assms(3-5) unfolding ids_inv_def by metis
  moreover have "cn_xn1 c = extranonce1 0 (cn_client_id c)" "cn_xn1 c' = extranonce1 0 (cn_client_id c')"
    using i assms(3,4)
    by (auto simp: ids_inv_def conn_ok_def sv1_state_def with_vardiff_def with_submit_tx_def server_new_def)
  ultimately have ne: "cn_xn1 c \<noteq> cn_xn1 c'" using extranonce1_unique by simp
  then have "be_bytes 4 (cn_xn1 c) \<noteq> be_bytes 4 (cn_xn1 c')" by (simp add: be_bytes_def le_bytes_inj)
  with ne show ?thesis by (auto simp: append_eq_append_conv)
qed

section \<open>A run\<close>

definition sub_request :: StratumRequest where
  "sub_request = \<lparr>rq_id = JNum 1, rq_method = ''mining.subscribe'', rq_params = JArr []\<rparr>"

definition auth_request :: StratumRequest where
  "auth_request = \<lparr>rq_id = JNum 2, rq_method = ''mining.authorize'', rq_params = JArr [JStr ''rig'']\<rparr>"

definition sample_work :: Work where
  "sample_work = \<lparr>wk_extranonce2 = replicate 8 0, wk_ntime = 0x5a, wk_nonce = 9, wk_bits = 0\<rparr>"

lemma session_opens:
  assumes "latest_job w = Some job"
  shows "\<exists>c1 c outs1 outs2. step sst w (Line (Request sub_request)) (new_conn sst w0 cid) = (Some c1, outs1, [])
    \<and> step sst w (Line (Request auth_request)) c1 = (Some c, outs2, [])
    \<and> cn_subscribed c \<and> cn_authorized c \<and> \<not> cn_rolling_enabled c
    \<and> ring_lookup (cn_ring c) (nj_job_id job) = Some (emitted job (cn_diff c))"
  using assms
  by (simp add: step_def handle_request_def handle_subscribe_def handle_authorize_def sub_request_def auth_request_def
      emit_pending_def new_conn_def nth_opt_def ring_push_def ring_lookup_def ring_items_def Let_def)

lemma run_turn: "sys_run X cfg s cs s' \<Longrightarrow> sys_step X cfg s' [] s'' \<Longrightarrow> sys_run X cfg s cs s''"
  using sys_run.turn by force

lemma sample_published:
  obtains s jid np m sd where "sys_run plain_libs (sample_cfg_with [0x41] []) (sys_start 0) [] s"
    "sy_latest s = Some (job_notify np m jid)" "get_entry (gw_tracker (sy_gw s)) (Sv1 jid) = Some (new_entry m sd)"
    "sy_conns s = Map.empty" "sy_queue s = []" "sy_driven s = 1"
    "sy_hand s = None" "sy_commands s = []" "sy_open s = False"
proof -
  let ?cfg = "sample_cfg_with [0x41] []"
  let ?R = "sys_run plain_libs ?cfg (sys_start 0)"
  obtain st d where d: "drive_template plain_libs (driver_config ?cfg) None (Some sample_template) (Some sample_blob) new_driver = (d, Some st)"
    using sample_driver by blast
  define s1 where "s1 = (sys_start 0)\<lparr>sy_driver := d, sy_state := Some st, sy_driven := 1\<rparr>"
  have "sys_step plain_libs ?cfg (sys_start 0) [] s1"
    using sys_step.drive [of None sample_template plain_libs sample_blob ?cfg "sys_start 0" d st] sample_blob_fits(2,3) d
    by (simp add: s1_def sys_start_def)
  note r1 = run_turn [OF sys_run.rest this]
  obtain tick tr job where a: "assemble_job plain_libs st (gw_tick (sy_gw s1), gw_tracker (sy_gw s1)) = ((tick, tr), job)"
    by (metis surj_pair)
  define s2 where "s2 = s1\<lparr>sy_state := None, sy_assembled := Some job, sy_gw := (sy_gw s1)\<lparr>gw_tick := tick, gw_tracker := tr\<rparr>\<rparr>"
  have "sys_step plain_libs ?cfg s1 [] s2"
    unfolding s2_def by (rule sys_step.assemble [OF _ _ a]) (simp_all add: s1_def sys_start_def)
  note r2 = run_turn [OF r1 this]
  define s3 where "s3 = s2\<lparr>sy_assembled := None, sy_latest := Some job\<rparr>"
  have "sys_step plain_libs ?cfg s2 [] s3" unfolding s3_def by (rule sys_step.publish) (simp add: s2_def)
  note r3 = run_turn [OF r2 this]
  obtain jid idx np m where job: "job = job_notify np m jid" "get_entry tr (Sv1 jid) = Some (new_entry m (job_id_seed st))"
    by (rule assemble_job_parts [OF a]) simp
  show thesis by (rule that [of s3 np m jid "job_id_seed st", OF r3]) (simp_all add: job s3_def s2_def s1_def sys_start_def)
qed

text \<open>A miner connects, subscribes, authorizes and submits a share for the published job.\<close>

lemma sample_miner:
  assumes r: "sys_run plain_libs (sample_cfg_with [0x41] []) (sys_start 0) cs s"
    and s: "sy_latest s = Some (job_notify np m jid)" "sy_conns s n = None" "length (sy_queue s) < SUBMIT_CAPACITY"
  obtains c share i where "sys_run plain_libs (sample_cfg_with [0x41] []) (sys_start 0) cs (s\<lparr>sy_next_client := sy_next_client s + 1,
      sy_accepted := Suc (sy_accepted s), sy_conns := (sy_conns s)(n \<mapsto> c), sy_queue := sy_queue s @ [share]\<rparr>)"
    "ss_job_id share = jid" "sv1_share_to_inputs plain_libs share (jm_version m) = Inr i"
proof -
  let ?cfg = "sample_cfg_with [0x41] []" and ?job = "job_notify np m jid"
  have jid: "nj_job_id ?job = jid" by (simp add: job_notify_def notify_job_with_coinb1_def)
  define c0 where "c0 = new_conn (sv1_state ?cfg) (sys_world s) (sy_next_client s)"
  define s4 where "s4 = s\<lparr>sy_next_client := sy_next_client s + 1, sy_accepted := Suc (sy_accepted s), sy_conns := (sy_conns s)(n \<mapsto> c0)\<rparr>"
  have "sys_step plain_libs ?cfg s [] s4" unfolding s4_def c0_def by (rule sys_step.accept) (rule s(2))
  note r4 = run_turn [OF r this]
  have w: "latest_job (sys_world s4) = Some ?job" by (simp add: s4_def sys_world_def s)
  obtain c1 c2 o1 o2 where c: "step (sv1_state ?cfg) (sys_world s4) (Line (Request sub_request)) c0 = (Some c1, o1, [])"
    "step (sv1_state ?cfg) (sys_world s4) (Line (Request auth_request)) c1 = (Some c2, o2, [])"
    "cn_subscribed c2" "cn_authorized c2" "\<not> cn_rolling_enabled c2" "ring_lookup (cn_ring c2) jid = Some (emitted ?job (cn_diff c2))"
    using session_opens [OF w, of "sv1_state ?cfg" "sys_world s" "sy_next_client s"] unfolding c0_def jid by metis
  define stage where "stage c shares = s4\<lparr>sy_conns := (sy_conns s4)(n \<mapsto> c), sy_queue := sy_queue s @ shares\<rparr>" for c shares
  have turn: "sys_step plain_libs ?cfg (stage c []) [] (stage c' shares)"
    if "step (sv1_state ?cfg) (sys_world s4) ev c = (Some c', outs, shares)" "names_ok shares" "length shares \<le> 1" for c c' ev outs shares
    using sys_step.connection [of "stage c []" n c ?cfg ev "Some c'" outs shares plain_libs] that s(3)
    by (simp add: stage_def sys_world_def)
  have s4: "s4 = stage c0 []" by (simp add: stage_def s4_def)
  have "names_ok []" by (simp add: names_ok_def)
  note r6 = run_turn [OF run_turn [OF r4 [unfolded s4] turn [OF c(1) this]] turn [OF c(2) this]]
  have u: "length (wk_extranonce2 sample_work) = 8" "wk_bits sample_work AND NOT (usable_mask c2) = 0" "sv_submit_wired (sv1_state ?cfg)"
    by (simp_all add: sample_work_def sv1_state_def with_vardiff_def with_submit_tx_def)
  obtain c3 o3 share i where h: "handle_submit (sv1_state ?cfg) (miner_submit plain_libs (JNum 3) ''rig'' jid False sample_work) c2 = (c3, o3, [share])"
    "ss_job_id share = jid" "ss_username share = ''rig''" "sv1_share_to_inputs plain_libs share (jm_version m) = Inr i"
    using server_takes [OF plain_libs_laws(1) u(1) c(3,4) u(3) c(6) u(2), of "JNum 3" "''rig''" "jm_version m"] c(5) by auto
  have "step (sv1_state ?cfg) (sys_world s4) (Line (Request (miner_submit plain_libs (JNum 3) ''rig'' jid False sample_work))) c2 = (Some c3, o3, [share])"
    using h(1) by (simp add: step_def handle_request_def miner_submit_def)
  moreover have "names_ok [share]" using h(3) by (simp add: names_ok_def ascii_def)
  ultimately have "sys_run plain_libs ?cfg (sys_start 0) cs (stage c3 [share])" using run_turn [OF r6 turn] by simp
  then show thesis using that [of share c3 i] h(2,4) by (simp add: stage_def s4_def)
qed

text \<open>A submission at the head of an empty pipe is delivered.\<close>

lemma delivered:
  assumes r: "sys_run X cfg (sys_start pad) cs s" and s: "sy_commands s = [q]" "sy_bridge s" "sy_sending s" "sy_carried s = None"
    "sy_link s = []" "sy_wire s = []"
  obtains s' h where "sys_run X cfg (sys_start pad) (cs @ [(qd_meta q, qd_inputs q, qd_session q = sy_session s, h)]) s'"
    "sy_driven s' = sy_driven s" "h = snd (pool_receive X (qd_body q) (sy_pool s))"
proof -
  define s1 where "s1 = s\<lparr>sy_carried := Some q, sy_commands := []\<rparr>"
  define s2 where "s2 = s1\<lparr>sy_carried := None, sy_link := [Some q]\<rparr>"
  define s3 where "s3 = s2\<lparr>sy_link := [], sy_wire := [q]\<rparr>"
  obtain p h where p: "pool_receive X (qd_body q) (sy_pool s) = (p, h)" by (metis surj_pair)
  have "sys_step X cfg s [] s1" unfolding s1_def by (rule sys_step.bridge_takes) (simp_all add: s)
  note r1 = run_turn [OF r this]
  have "sys_step X cfg s1 [] s2"
    using sys_step.bridge_sends [of s1 q X cfg] by (simp add: s2_def s1_def s CHANNEL_CAPACITY_def)
  note r2 = run_turn [OF r1 this]
  have "sys_step X cfg s2 [] s3" using sys_step.send [of s2 "Some q" "[]" X cfg] by (simp add: s3_def s2_def s1_def s)
  note r3 = run_turn [OF r2 this]
  have "sys_step X cfg s3 [(qd_meta q, qd_inputs q, qd_session q = sy_session s, h)] (s3\<lparr>sy_wire := [], sy_pool := p\<rparr>)"
    using sys_step.receive [of s3 q "[]" X p h cfg] p by (simp add: s3_def s2_def s1_def)
  from sys_run.turn [OF r3 this] show thesis by (rule that) (simp_all add: s3_def s2_def s1_def p)
qed

text \<open>Two miners have submitted a share each for the published job, under a session.\<close>

lemma two_shares:
  obtains s jid m sd share1 share2 i1 i2 where "sys_run plain_libs (sample_cfg_with [0x41] []) (sys_start 0) [] s"
    "get_entry (gw_tracker (sy_gw s)) (Sv1 jid) = Some (new_entry m sd)" "sy_queue s = [share1, share2]"
    "ss_job_id share1 = jid" "sv1_share_to_inputs plain_libs share1 (jm_version m) = Inr i1"
    "ss_job_id share2 = jid" "sv1_share_to_inputs plain_libs share2 (jm_version m) = Inr i2"
    "sy_driven s = 1" "sy_hand s = None" "sy_commands s = []" "sy_open s = False"
proof -
  obtain s jid np m sd where s: "sys_run plain_libs (sample_cfg_with [0x41] []) (sys_start 0) [] s" "sy_latest s = Some (job_notify np m jid)"
    "get_entry (gw_tracker (sy_gw s)) (Sv1 jid) = Some (new_entry m sd)" "sy_conns s = Map.empty" "sy_queue s = []" "sy_driven s = 1"
    "sy_hand s = None" "sy_commands s = []" "sy_open s = False"
    by (rule sample_published)
  have "sy_conns s 0 = None" "length (sy_queue s) < SUBMIT_CAPACITY" by (simp_all add: s SUBMIT_CAPACITY_def)
  then obtain c1 share1 i1 where 1: "sys_run plain_libs (sample_cfg_with [0x41] []) (sys_start 0) [] (s\<lparr>sy_next_client := sy_next_client s + 1,
      sy_accepted := Suc (sy_accepted s), sy_conns := (sy_conns s)(0 \<mapsto> c1), sy_queue := sy_queue s @ [share1]\<rparr>)" (is "sys_run _ _ _ _ ?s1")
    "ss_job_id share1 = jid" "sv1_share_to_inputs plain_libs share1 (jm_version m) = Inr i1"
    by (rule sample_miner [OF s(1,2)])
  have "sy_latest ?s1 = Some (job_notify np m jid)" "sy_conns ?s1 1 = None" "length (sy_queue ?s1) < SUBMIT_CAPACITY"
    by (simp_all add: s SUBMIT_CAPACITY_def)
  then obtain c2 share2 i2 where 2: "sys_run plain_libs (sample_cfg_with [0x41] []) (sys_start 0) [] (?s1\<lparr>sy_next_client := sy_next_client ?s1 + 1,
      sy_accepted := Suc (sy_accepted ?s1), sy_conns := (sy_conns ?s1)(1 \<mapsto> c2), sy_queue := sy_queue ?s1 @ [share2]\<rparr>)"
    "ss_job_id share2 = jid" "sv1_share_to_inputs plain_libs share2 (jm_version m) = Inr i2"
    by (rule sample_miner [OF 1(1)])
  show thesis by (rule that [OF 2(1), of jid m sd share1 share2 i1 i2]) (simp_all add: s 1 2)
qed

lemma encode_share_Some:
  assumes "get_entry (gw_tracker g) (Sv1 (ss_job_id share)) = Some e" "sv1_share_to_inputs X share (jm_version (je_meta e)) = Inr i"
  obtains g' body where "encode_share X ucfg share g = (g', Some (je_meta e, i, body))"
proof -
  obtain t pad enc where r: "relay_share X ucfg share (gw_tracker g, gw_pad g) = ((t, pad), enc)" by (metis surj_pair)
  have "relayable X (gw_tracker g) share" using assms by (simp add: relayable_def)
  then obtain en where "enc = Some en" using relay_keeps_meta(2) [OF r] by (cases enc) simp_all
  then show thesis using assms r that by (simp add: encode_share_def Let_def)
qed

text \<open>The relay encodes a share and enqueues it.\<close>

lemma relayed:
  assumes r: "sys_run X cfg s0 cs s" and s: "sy_hand s = None" "sy_queue s = share # rest" "length (sy_commands s) < COMMANDS_CAPACITY"
    and e: "encode_share X (user_config cfg) share (sy_gw s) = (g, Some q)"
  shows "sys_run X cfg s0 cs (s\<lparr>sy_queue := rest, sy_gw := g, sy_commands := sy_commands s @ [queued (sy_session s) q]\<rparr>)"
proof -
  let ?s1 = "s\<lparr>sy_queue := rest, sy_gw := g, sy_hand := Some (queued (sy_session s) q)\<rparr>"
  have "sys_step X cfg s [] ?s1" using sys_step.relay [OF s(1,2) e] by simp
  note r1 = run_turn [OF r this]
  have "sys_step X cfg ?s1 [] (?s1\<lparr>sy_hand := None, sy_commands := sy_commands ?s1 @ [queued (sy_session s) q]\<rparr>)"
    by (rule sys_step.enqueue) (simp_all add: s(3))
  note r2 = run_turn [OF r1 this]
  have "s\<lparr>sy_queue := rest, sy_gw := g, sy_commands := sy_commands s @ [queued (sy_session s) q]\<rparr>
      = ?s1\<lparr>sy_hand := None, sy_commands := sy_commands ?s1 @ [queued (sy_session s) q]\<rparr>"
    using s(1) by (intro Sys.equality) simp_all
  then show ?thesis using r2 by (simp only:)
qed

theorem gateway_shares_check_witness:
  "\<exists>cs s m i. sys_run plain_libs (sample_cfg_with [0x41] []) (sys_start 0) cs s
     \<and> (m, i, True, Some (share_header plain_libs m i)) \<in> set cs"
proof -
  let ?cfg = "sample_cfg_with [0x41] []"
  obtain s jid m sd share1 share2 i1 i2 where s: "sys_run plain_libs ?cfg (sys_start 0) [] s"
    "get_entry (gw_tracker (sy_gw s)) (Sv1 jid) = Some (new_entry m sd)" "sy_queue s = [share1, share2]"
    "ss_job_id share1 = jid" "sv1_share_to_inputs plain_libs share1 (jm_version m) = Inr i1"
    "ss_job_id share2 = jid" "sv1_share_to_inputs plain_libs share2 (jm_version m) = Inr i2"
    "sy_driven s = 1" "sy_hand s = None" "sy_commands s = []" "sy_open s = False"
    by (rule two_shares)
  have "sys_step plain_libs ?cfg s [] (reconnected s)" by (rule sys_step.connect) (simp add: s)
  note r1 = run_turn [OF s(1) this]
  have c: "sy_hand (reconnected s) = None" "sy_queue (reconnected s) = share1 # [share2]" "sy_commands (reconnected s) = []"
    "sy_bridge (reconnected s)" "sy_sending (reconnected s)" "sy_carried (reconnected s) = None" "sy_link (reconnected s) = []"
    "sy_wire (reconnected s) = []" "sy_driven (reconnected s) = 1"
    by (simp_all add: reconnected_def s)
  have room: "length (sy_commands (reconnected s)) < COMMANDS_CAPACITY" by (simp add: c COMMANDS_CAPACITY_def)
  obtain e where e: "get_entry (gw_tracker (sy_gw (reconnected s))) (Sv1 (ss_job_id share1)) = Some e" "je_meta e = m"
    by (simp add: reconnected_def s(2,4) get_entry_reset new_entry_def)
  obtain g body where g: "encode_share plain_libs (user_config ?cfg) share1 (sy_gw (reconnected s)) = (g, Some (m, i1, body))"
    using encode_share_Some [OF e(1)] e(2) s(5) by metis
  let ?q = "queued (sy_session (reconnected s)) (m, i1, body)"
  let ?s2 = "(reconnected s)\<lparr>sy_queue := [share2], sy_gw := g, sy_commands := sy_commands (reconnected s) @ [?q]\<rparr>"
  note r2 = relayed [OF r1 c(1,2) room g]
  obtain s' h where s': "sys_run plain_libs ?cfg (sys_start 0) ([] @ [(qd_meta ?q, qd_inputs ?q, qd_session ?q = sy_session ?s2, h)]) s'"
    "sy_driven s' = sy_driven ?s2"
    by (rule delivered [OF r2, of ?q]) (simp_all add: c)
  have q: "qd_meta ?q = m" "qd_inputs ?q = i1" "qd_session ?q = sy_session (reconnected s)" "sy_session ?s2 = sy_session (reconnected s)"
    by (simp_all add: queued_def)
  have n: "sy_driven s' \<le> 2 ^ 32" "0 \<notin> set (mc_pool_address (c_mining ?cfg))"
    by (simp_all add: s'(2) c sample_cfg_with_def)
  have "h = Some (share_header plain_libs m i1)"
    by (rule gateway_shares_check [OF plain_libs_laws(2) sample_cfg_valid n(2) s'(1) n(1)]) (simp_all add: q)
  with s'(1) have "sys_run plain_libs ?cfg (sys_start 0) [(m, i1, True, Some (share_header plain_libs m i1))] s'"
    unfolding q by simp
  then show ?thesis by (intro exI conjI, assumption) simp
qed

section \<open>A share that waits across a new session\<close>

text \<open>A share of a job whose blocks have gone out is encoded without them: a pool that has not seen them
  cannot check it.\<close>

lemma bare_share:
  assumes "gw_inv hts n used pool g" "share_named cfg share1" "share_named cfg share2" "ss_job_id share1 = ss_job_id share2"
    and "encode_share X cfg share1 g = (g1, Some (m, i1, b1))" "encode_share X cfg share2 g1 = (g2, Some (m2, i2, b2))"
  shows "snd (pool_receive X b2 empty_pool) = None"
proof -
  let ?k = "Sv1 (ss_job_id share2)"
  have flag: "server_has_merkle_branches e" if "get_entry (gw_tracker g1) ?k = Some e" for e
  proof -
    obtain entry i where en: "get_entry (gw_tracker g) (Sv1 (ss_job_id share1)) = Some entry" "sv1_share_to_inputs X share1 (jm_version (je_meta entry)) = Inr i"
      using assms(5) by (auto simp: encode_share_def relay_share_def Let_def split: option.splits sum.splits prod.splits)
    have k: "jm_coinbase_id (je_meta entry) = 0" "length (server_has_coinbase entry) = 8"
      using assms(1) en(1) by (auto simp: gw_inv_def entry_known_def)
    obtain enc entry' pad' where b: "build_share_submission X i entry cfg (je_template_seed entry \<in> seen_seeds (gw_tracker g)) (gw_pad g) = (enc, entry', pad')"
      by (rule prod_cases3)
    from relay_share_Some [OF en k b] show ?thesis
      using assms(4,5) build_parts(4) [OF b] that by (auto simp: encode_share_def split: prod.splits)
  qed
  obtain pool1 h where "pool_receive X b1 pool = (pool1, h)" by (metis surj_pair)
  then have inv: "gw_inv hts n used pool1 g1" using share_inv [OF assms(1,2,5)] by simp
  obtain entry i where en: "get_entry (gw_tracker g1) ?k = Some entry" "sv1_share_to_inputs X share2 (jm_version (je_meta entry)) = Inr i"
    using assms(6) by (auto simp: encode_share_def relay_share_def Let_def split: option.splits sum.splits prod.splits)
  have k: "jm_coinbase_id (je_meta entry) = 0" "length (server_has_coinbase entry) = 8" "meta_fits (je_meta entry)"
    using inv en(1) by (auto simp: gw_inv_def entry_known_def)
  obtain enc entry' pad' where b: "build_share_submission X i entry cfg (je_template_seed entry \<in> seen_seeds (gw_tracker g1)) (gw_pad g1) = (enc, entry', pad')"
    by (rule prod_cases3)
  have b2: "b2 = se_body enc" using relay_share_Some [OF en k(1,2) b] assms(6) by (auto simp: encode_share_def Let_def)
  note i = sv1_inputs [OF en(2)]
  have "read_submission b2 \<noteq> None" "map_option sub_job (read_submission b2) = Some None"
    using read_back [OF b k(3)] i assms(3) flag [OF en(1)] format_no_nul [of "ascii (ss_username share2)" cfg] by (simp_all add: b2 share_named_def)
  then show ?thesis by (auto simp: pool_receive_def pool_learn_def empty_pool_def Let_def split: option.splits)
qed

text \<open>The queue of encoded submissions outlives the session, but the flags are cleared only when the next
  session is established: in this run the first session's command loop fails on the first share of a
  job, which carried its blocks; the next share of the job is encoded without them, waits in the
  queue for the new session, and reaches a pool that knows neither block.\<close>

theorem queued_share_lacks_blocks:
  "\<exists>cs s m i. sys_run plain_libs (sample_cfg_with [0x41] []) (sys_start 0) cs s \<and> (m, i, False, None) \<in> set cs"
proof -
  let ?cfg = "sample_cfg_with [0x41] []"
  obtain s jid m sd share1 share2 i1 i2 where s: "sys_run plain_libs ?cfg (sys_start 0) [] s"
    "get_entry (gw_tracker (sy_gw s)) (Sv1 jid) = Some (new_entry m sd)" "sy_queue s = [share1, share2]"
    "ss_job_id share1 = jid" "sv1_share_to_inputs plain_libs share1 (jm_version m) = Inr i1"
    "ss_job_id share2 = jid" "sv1_share_to_inputs plain_libs share2 (jm_version m) = Inr i2"
    "sy_driven s = 1" "sy_hand s = None" "sy_commands s = []" "sy_open s = False"
    by (rule two_shares)
  define a where "a = reconnected s"
  have "sys_step plain_libs ?cfg s [] a" unfolding a_def by (rule sys_step.connect) (simp add: s)
  note ra = run_turn [OF s(1) this]
  have a: "sy_hand a = None" "sy_queue a = share1 # [share2]" "sy_commands a = []" "sy_bridge a" "sy_sending a" "sy_carried a = None"
    "sy_link a = []" "sy_wire a = []" "sy_driven a = 1" "sy_open a"
    by (simp_all add: a_def reconnected_def s)
  have n: "sy_driven a \<le> 2 ^ 32" "0 \<notin> set (mc_pool_address (c_mining ?cfg))" by (simp_all add: a sample_cfg_with_def)
  obtain jobs used where "sys_inv plain_libs (sv1_state ?cfg) a jobs used"
    using sys_run_inv [OF ra sys_start_inv n plain_libs_laws(2) sample_cfg_valid] by auto
  then obtain hts pool where inv: "gw_inv hts (length jobs) used pool (sy_gw a)"
    and named: "share_named (user_config ?cfg) share1" "share_named (user_config ?cfg) share2"
    using n(2) by (auto simp: sys_inv_def a(2) share_named_def share_ok_def user_config_def)
  obtain e where e: "get_entry (gw_tracker (sy_gw a)) (Sv1 (ss_job_id share1)) = Some e" "je_meta e = m"
    by (simp add: a_def reconnected_def s(2,4) get_entry_reset new_entry_def)
  obtain g1 b1 where g1: "encode_share plain_libs (user_config ?cfg) share1 (sy_gw a) = (g1, Some (m, i1, b1))"
    using encode_share_Some [OF e(1)] e(2) s(5) by metis
  have "map_option je_meta (get_entry (gw_tracker g1) (Sv1 (ss_job_id share2))) = Some m"
    by (rule encoded_cases [OF g1]) (use relay_keeps_meta(1) e s(4,6) in \<open>metis option.map(2)\<close>)
  then obtain e1 where e1: "get_entry (gw_tracker g1) (Sv1 (ss_job_id share2)) = Some e1" "je_meta e1 = m" by auto
  obtain g2 b2 where g2: "encode_share plain_libs (user_config ?cfg) share2 g1 = (g2, Some (m, i2, b2))"
    using encode_share_Some [OF e1(1)] e1(2) s(7) by metis
  let ?q1 = "queued (sy_session a) (m, i1, b1)" and ?q2 = "queued (sy_session a) (m, i2, b2)"
  define b where "b = a\<lparr>sy_queue := [share2], sy_gw := g1, sy_commands := [?q1]\<rparr>"
  have rb: "sys_run plain_libs ?cfg (sys_start 0) [] b"
    using relayed [OF ra a(1,2) _ g1] by (simp add: a(3) b_def COMMANDS_CAPACITY_def)
  define c where "c = b\<lparr>sy_carried := Some ?q1, sy_commands := []\<rparr>"
  have "sys_step plain_libs ?cfg b [] c" unfolding c_def by (rule sys_step.bridge_takes) (simp_all add: b_def a)
  note rc = run_turn [OF rb this]
  define d where "d = c\<lparr>sy_carried := None, sy_link := [Some ?q1]\<rparr>"
  have "sys_step plain_libs ?cfg c [] d"
    using sys_step.bridge_sends [of c ?q1] by (simp add: d_def c_def b_def a CHANNEL_CAPACITY_def)
  note rd = run_turn [OF rc this]
  define f where "f = d\<lparr>sy_sending := False, sy_link := []\<rparr>"
  have "sys_step plain_libs ?cfg d [] f" unfolding f_def by (rule sys_step.send_fails) (simp_all add: d_def c_def b_def a)
  note rf = run_turn [OF rd this]
  have f: "sy_hand f = None" "sy_queue f = share2 # []" "sy_commands f = []" "sy_gw f = g1" "sy_session f = sy_session a" "sy_open f" "\<not> sy_sending f"
    by (simp_all add: f_def d_def c_def b_def a)
  define h where "h = f\<lparr>sy_queue := [], sy_gw := g2, sy_commands := [?q2]\<rparr>"
  have rh: "sys_run plain_libs ?cfg (sys_start 0) [] h"
    using relayed [OF rf f(1,2), of g2 "(m, i2, b2)"] g2 by (simp add: f h_def COMMANDS_CAPACITY_def)
  define k where "k = h\<lparr>sy_open := False, sy_bridge := False, sy_carried := None\<rparr>"
  have "sys_step plain_libs ?cfg h [] k" unfolding k_def by (rule sys_step.session_over) (simp_all add: h_def f)
  note rk = run_turn [OF rh this]
  have "sys_step plain_libs ?cfg k [] (reconnected k)" by (rule sys_step.connect) (simp add: k_def)
  note rl = run_turn [OF rk this]
  obtain s' hd where s': "sys_run plain_libs ?cfg (sys_start 0) ([] @ [(qd_meta ?q2, qd_inputs ?q2, qd_session ?q2 = sy_session (reconnected k), hd)]) s'"
    "hd = snd (pool_receive plain_libs (qd_body ?q2) (sy_pool (reconnected k)))"
    by (rule delivered [OF rl, of ?q2]) (simp_all add: reconnected_def k_def h_def)
  have q: "qd_meta ?q2 = m" "qd_inputs ?q2 = i2" "qd_body ?q2 = b2" "qd_session ?q2 = sy_session (reconnected k) \<longleftrightarrow> False"
    "sy_pool (reconnected k) = empty_pool"
    by (simp_all add: queued_def reconnected_def k_def h_def f)
  have "hd = None" using bare_share [OF inv named _ g1 g2] s(4,6) by (simp add: s'(2) q)
  then show ?thesis using s'(1) unfolding q by auto
qed

section \<open>Two open connections\<close>

theorem sv1_search_spaces_disjoint_witness:
  "\<exists>s c c'. sys_run plain_libs (sample_cfg_with [0x41] []) (sys_start 0) [] s \<and> sy_conns s 0 = Some c \<and> sy_conns s 1 = Some c' \<and> cn_xn1 c \<noteq> cn_xn1 c'"
proof -
  let ?s0 = "sys_start 0"
  define s1 where "s1 = ?s0\<lparr>sy_next_client := sy_next_client ?s0 + 1, sy_accepted := Suc (sy_accepted ?s0),
    sy_conns := (sy_conns ?s0)(0 \<mapsto> new_conn (sv1_state (sample_cfg_with [0x41] [])) (sys_world ?s0) (sy_next_client ?s0))\<rparr>"
  define s2 where "s2 = s1\<lparr>sy_next_client := sy_next_client s1 + 1, sy_accepted := Suc (sy_accepted s1),
    sy_conns := (sy_conns s1)(1 \<mapsto> new_conn (sv1_state (sample_cfg_with [0x41] [])) (sys_world s1) (sy_next_client s1))\<rparr>"
  have "sys_step plain_libs (sample_cfg_with [0x41] []) ?s0 [] s1" unfolding s1_def by (rule sys_step.accept) (simp add: sys_start_def)
  moreover have "sys_step plain_libs (sample_cfg_with [0x41] []) s1 [] s2" unfolding s2_def by (rule sys_step.accept) (simp add: s1_def sys_start_def)
  ultimately have r: "sys_run plain_libs (sample_cfg_with [0x41] []) ?s0 [] s2" using run_turn [OF run_turn [OF sys_run.rest]] by blast
  have n: "sy_accepted s2 \<le> 2 ^ 32" "(0 :: nat) \<noteq> 1" by (simp_all add: s2_def s1_def sys_start_def)
  obtain c c' where c: "sy_conns s2 0 = Some c" "sy_conns s2 1 = Some c'" by (simp add: s2_def s1_def)
  show ?thesis using sv1_search_spaces_disjoint [OF r n(1) c n(2)] r c by blast
qed

end
