(* ===== verification/Sv1Socket.thy ===== *)
theory Sv1Socket
  imports Sv1Server
begin

text \<open>
  A Stratum V1 connection over its socket (\<open>handle_connection\<close> of
  \<open>crates/datum-stratum-sv1/src/server.rs\<close>): the turns of \<open>Sv1Server\<close> where reading a line can fail and
  every write can, which ends the task in the middle of what it was doing.
\<close>

section \<open>The task\<close>

text \<open>The task serves, has returned (the peer or the jobs' sender is gone), or has failed with an I/O
  error.\<close>

datatype conn_end = Serving Conn | Returned | IoError

datatype socket_event = Turn World event | ReadError

text \<open>\<open>n\<close> writes succeed before the first that fails.  A submit hands its share to the relay before it
  writes the reply, so a share of a turn that cannot be answered is forwarded all the same.\<close>

fun sv1_serve :: "ServerState \<Rightarrow> Conn \<Rightarrow> nat \<Rightarrow> socket_event list \<Rightarrow> conn_end \<times> out list \<times> SubmittedShare list" where
  "sv1_serve st c n [] = (Serving c, [], [])"
| "sv1_serve st c n (ReadError # evs) = (IoError, [], [])"
| "sv1_serve st c n (Turn w ev # evs) =
     (case step st w ev c of
        (r, outs, shares) \<Rightarrow>
          if n < length outs then (IoError, take n outs, shares)
          else (case r of
              None \<Rightarrow> (Returned, outs, shares)
            | Some c' \<Rightarrow>
                (let (e, outs', shares') = sv1_serve st c' (n - length outs) evs in (e, outs @ outs', shares @ shares'))))"

section \<open>What it answers\<close>

fun turns :: "socket_event list \<Rightarrow> (World \<times> event) list" where
  "turns [] = []"
| "turns (ReadError # evs) = []"
| "turns (Turn w ev # evs) = (w, ev) # turns evs"

text \<open>The ids of the replies, and of the requests that call for one; a line that is not JSON has none.\<close>

fun reply_id :: "out \<Rightarrow> json list" where
  "reply_id (Reply i r e) = [i]"
| "reply_id (Push m p) = []"

definition reply_ids :: "out list \<Rightarrow> json list" where
  "reply_ids outs = concat (map reply_id outs)"

fun request_id :: "World \<times> event \<Rightarrow> json list" where
  "request_id (w, Line (Request req)) = [rq_id req]"
| "request_id (w, Line Unparsed) = [JNull]"
| "request_id (w, _) = []"

definition request_ids :: "(World \<times> event) list \<Rightarrow> json list" where
  "request_ids evs = concat (map request_id evs)"

lemma reply_ids_append: "reply_ids (xs @ ys) = reply_ids xs @ reply_ids ys"
  by (simp add: reply_ids_def)

lemma pushes_have_no_id: "list_all is_push outs \<Longrightarrow> reply_ids outs = []"
proof (induction outs)
  case (Cons x xs)
  then show ?case by (cases x) (simp_all add: reply_ids_def)
qed (simp add: reply_ids_def)

lemma change_diff_pushes: "list_all is_push (snd (change_diff w d c))"
  using emit_pending_push by (auto simp: change_diff_def send_set_difficulty_def Let_def split: prod.splits) (metis snd_conv)

lemma step_answers:
  assumes "step st w ev c = (r, outs, shares)"
  shows "reply_ids outs = request_id (w, ev)"
proof (cases ev)
  case (Line l)
  show ?thesis
  proof (cases l)
    case (Request req)
    obtain c' outs' shares' where h: "handle_request st w req c = (c', outs', shares')" by (rule prod_cases3)
    from handle_request_reply [OF h] obtain res er pushes where
      p: "outs' = Reply (rq_id req) res er # pushes" "list_all is_push pushes" by blast
    have "outs = outs'" using assms by (simp add: step_def Line Request h)
    then show ?thesis using p pushes_have_no_id [OF p(2)] by (simp add: Line Request reply_ids_def)
  qed (use assms in \<open>auto simp: step_def Line reply_ids_def reply_err_def\<close>)
next
  case NotifyChanged
  then have "outs = snd (handle_notify w c)" using assms by (simp add: step_def case_prod_unfold)
  then show ?thesis using pushes_have_no_id [OF emit_pending_push] NotifyChanged by (simp add: handle_notify_def reply_ids_def)
next
  case PoolMinChanged
  then have "outs = snd (handle_pool_min st w c)" using assms by (simp add: step_def case_prod_unfold)
  then show ?thesis using pushes_have_no_id [OF change_diff_pushes] PoolMinChanged by (simp add: handle_pool_min_def reply_ids_def)
next
  case (DiffTick t)
  then have "outs = snd (handle_tick st w t c)" using assms by (simp add: step_def case_prod_unfold)
  then show ?thesis using pushes_have_no_id [OF change_diff_pushes] DiffTick
    by (simp add: handle_tick_def reply_ids_def Let_def case_prod_unfold)
qed (use assms in \<open>auto simp: step_def reply_ids_def\<close>)

lemma request_ids_Cons: "request_ids (x # xs) = request_id x @ request_ids xs"
  by (simp add: request_ids_def)

lemma reply_ids_Nil: "reply_ids [] = []"
  by (simp add: reply_ids_def)

text \<open>\<open>k\<close> turns were taken, all of them (with room for what they write), up to the one that returned, or
  up to the one in which a write failed or after which a read did.\<close>

fun ended_after :: "nat \<Rightarrow> socket_event list \<Rightarrow> nat \<Rightarrow> Conn option \<Rightarrow> out list \<Rightarrow> conn_end \<Rightarrow> bool" where
  "ended_after n evs k r outs (Serving c) \<longleftrightarrow> r = Some c \<and> length outs \<le> n \<and> k = length evs"
| "ended_after n evs k r outs Returned \<longleftrightarrow> r = None \<and> length outs \<le> n"
| "ended_after n evs k r outs IoError \<longleftrightarrow> n < length outs \<or> ReadError \<in> set evs \<and> k = length (turns evs)"

lemma ended_after_Turn:
  "\<lbrakk>ended_after (n - length outs) evs k r outs' e; length outs \<le> n\<rbrakk> \<Longrightarrow> ended_after n (Turn w ev # evs) (Suc k) r (outs @ outs') e"
  by (cases e) auto

lemma serve_refines:
  "sv1_serve st c n evs = (e, outs, shares) \<Longrightarrow>
     \<exists>k r outs'. run_conn st c (take k (turns evs)) = (r, outs', shares) \<and> outs = take n outs'
       \<and> reply_ids outs' = request_ids (take k (turns evs)) \<and> ended_after n evs k r outs' e"
proof (induction st c n evs arbitrary: e outs shares rule: sv1_serve.induct)
  case (1 st c n)
  then show ?case by (intro exI [of _ 0] exI conjI) (auto simp: reply_ids_def request_ids_def)
next
  case (2 st c n evs)
  then show ?case by (intro exI [of _ 0] exI conjI) (auto simp: reply_ids_def request_ids_def)
next
  case (3 st c n w ev evs)
  obtain r outs1 shares1 where st: "step st w ev c = (r, outs1, shares1)" by (rule prod_cases3)
  have ids: "reply_ids outs1 = request_id (w, ev)" by (rule step_answers [OF st])
  have one: "run_conn st c (take 1 (turns (Turn w ev # evs))) = (r, outs1, shares1)"
    by (cases r) (simp_all add: st)
  have ids1: "reply_ids outs1 = request_ids (take 1 (turns (Turn w ev # evs)))"
    by (simp add: ids request_ids_def)
  consider "n < length outs1" | "length outs1 \<le> n" "r = None" | c' where "length outs1 \<le> n" "r = Some c'"
    by (metis not_less option.exhaust)
  then show ?case
  proof cases
    case 1
    then have e: "e = IoError" "outs = take n outs1" "shares = shares1" using "3.prems" by (simp_all add: st)
    show ?thesis using one ids1 1 unfolding e by (intro exI [of _ 1] exI [of _ r] exI [of _ outs1] conjI) simp_all
  next
    case 2
    then have e: "e = Returned" "outs = outs1" "shares = shares1" using "3.prems" by (simp_all add: st)
    show ?thesis using one ids1 2 unfolding e by (intro exI [of _ 1] exI [of _ r] exI [of _ outs1] conjI) simp_all
  next
    case 3
    obtain e2 outs2 shares2 where rest: "sv1_serve st c' (n - length outs1) evs = (e2, outs2, shares2)" by (rule prod_cases3)
    have eq: "e = e2" "outs = outs1 @ outs2" "shares = shares1 @ shares2" using "3.prems" 3 rest by (simp_all add: st)
    obtain k r' outs' where ih: "run_conn st c' (take k (turns evs)) = (r', outs', shares2)" "outs2 = take (n - length outs1) outs'"
      "reply_ids outs' = request_ids (take k (turns evs))" "ended_after (n - length outs1) evs k r' outs' e2"
      using "3.IH" [OF st [symmetric] refl _ 3(2) rest] 3(1) by auto
    show ?thesis
    proof (intro exI conjI)
      show "run_conn st c (take (Suc k) (turns (Turn w ev # evs))) = (r', outs1 @ outs', shares)" using 3 ih(1) by (simp add: st eq)
      show "outs = take n (outs1 @ outs')" using 3 by (simp add: eq ih(2))
      show "reply_ids (outs1 @ outs') = request_ids (take (Suc k) (turns (Turn w ev # evs)))"
        by (simp add: reply_ids_append ids ih(3) request_ids_Cons)
      show "ended_after n (Turn w ev # evs) (Suc k) r' (outs1 @ outs') e" unfolding eq by (rule ended_after_Turn [OF ih(4) 3(1)])
    qed
  qed
qed

text \<open>C25: Every request is answered once, in order, and a connection whose socket fails has done nothing
  else: for any number of writes that succeed, what was written is an initial part of the output of a run
  over an initial part of the turns, the replies of that run carry exactly the ids of its request lines
  (a line that is not JSON has the null id), the shares that went to the relay are all those of the run,
  also the one whose reply could not be written, and the task serves on after all the turns, has returned
  or failed at that turn.\<close>

theorem sv1_socket_answers:
  "case sv1_serve st c n evs of
     (e, outs, shares) \<Rightarrow> \<exists>k r outs'. run_conn st c (take k (turns evs)) = (r, outs', shares) \<and> outs = take n outs'
       \<and> reply_ids outs' = request_ids (take k (turns evs)) \<and> ended_after n evs k r outs' e"
  using serve_refines by (auto split: prod.split)

end
