(* ===== verification/Sv2Stream.thy ===== *)
theory Sv2Stream
  imports Prelude
begin

text \<open>
  The framed Noise stream of the SV2 listener (\<open>noise_stream.rs\<close>): the handshake of the
  responder, and the reads and writes of frames.  The codec and the Noise state of the SRI stack
  are parameters.  The network is explicit: the outcomes of the reads of the socket, in the sizes
  in which they arrive, and the outcomes of its writes.
\<close>

datatype 'e codec_error = MissingBytes | OtherError 'e

datatype 'e NoiseStreamError = StreamClosed | HandshakeTimeout | HandshakeRemoteInvalidMessage
  | CodecError "'e codec_error" | NoiseError "'e codec_error"

text \<open>The SRI codec: the number of bytes that the decoder wants next, its \<open>next_frame\<close> after those
  bytes have been copied in, the encoder, and the responder's only step.  \<open>'d\<close> is the state of the
  decoder, \<open>'n\<close> the encoder's, \<open>'s\<close> that of Noise and \<open>'f\<close> a frame.\<close>

record ('d, 'n, 's, 'f, 'e) codec =
  writable_len :: "'d \<Rightarrow> nat"
  next_frame :: "bytes \<Rightarrow> 'd \<times> 's \<Rightarrow> ('e codec_error + 'f) \<times> 'd \<times> 's"
  encode_frame :: "'f \<Rightarrow> 'n \<times> 's \<Rightarrow> 'e codec_error + bytes \<times> 'n \<times> 's"
  handshake_payload :: "'f \<Rightarrow> bytes option" \<comment> \<open>the payload of a handshake frame\<close>
  step_1 :: "bytes \<Rightarrow> 's \<Rightarrow> 'e codec_error + 'f \<times> 's"
  decoder_new :: 'd
  encoder_new :: 'n

definition ELLSWIFT_ENCODING_SIZE :: nat where "ELLSWIFT_ENCODING_SIZE = 64"

record ('d, 's) ReadHalf =
  rd_dec :: 'd
  rd_state :: 's
  current_frame_buf :: bytes
  bytes_read :: nat

record ('n, 's) WriteHalf =
  wr_enc :: 'n
  wr_state :: 's

section \<open>Writing\<close>

text \<open>\<open>sent\<close> is whether the socket took all the bytes.\<close>

definition write_frame ::
  "('d, 'n, 's, 'f, 'e) codec \<Rightarrow> bool \<Rightarrow> 'f \<Rightarrow> ('n, 's) WriteHalf
     \<Rightarrow> ('e NoiseStreamError + bytes) \<times> ('n, 's) WriteHalf" where
  "write_frame C sent f w =
     (case encode_frame C f (wr_enc w, wr_state w) of
        Inl e \<Rightarrow> (Err (CodecError e), w)
      | Inr (bs, n, s) \<Rightarrow> (if sent then Ok bs else Err StreamClosed, w\<lparr>wr_enc := n, wr_state := s\<rparr>))"

section \<open>The handshake\<close>

text \<open>A timed read of exactly the bytes that the decoder wants.\<close>

datatype timed_read = Exact bytes | TimedOut | ReadFailed

definition receive_message ::
  "('d, 'n, 's, 'f, 'e) codec \<Rightarrow> timed_read \<Rightarrow> 'd \<times> 's \<Rightarrow> ('e NoiseStreamError + 'f) \<times> 'd \<times> 's" where
  "receive_message C rd st =
     (case rd of
        TimedOut \<Rightarrow> (Err HandshakeTimeout, st)
      | ReadFailed \<Rightarrow> (Err StreamClosed, st)
      | Exact bs \<Rightarrow> (case next_frame C bs st of (r, st') \<Rightarrow> (map_err CodecError r, st')))"

datatype role = Initiator | Responder

text \<open>\<open>initial\<close> is the responder's initial Noise state and \<open>waiting\<close> the state in which the decoder
  expects the initiator's message.  None is a handshake that still waits when the reads end.\<close>

fun accept_loop ::
  "('d, 'n, 's, 'f, 'e) codec \<Rightarrow> bool \<Rightarrow> 's \<Rightarrow> 'd \<times> 's \<Rightarrow> timed_read list
     \<Rightarrow> ('e NoiseStreamError + ('d, 's) ReadHalf \<times> ('n, 's) WriteHalf \<times> bytes) option" where
  "accept_loop C sent initial st [] = None"
| "accept_loop C sent initial st (rd # rds) =
     (case receive_message C rd st of
        (Inl e, st') \<Rightarrow> if e = CodecError MissingBytes then accept_loop C sent initial st' rds else Some (Err e)
      | (Inr f, st') \<Rightarrow>
          Some (case handshake_payload C f of
              None \<Rightarrow> Err HandshakeRemoteInvalidMessage
            | Some payload \<Rightarrow>
                if length payload \<noteq> ELLSWIFT_ENCODING_SIZE then Err HandshakeRemoteInvalidMessage
                else (case step_1 C payload initial of
                    Inl e \<Rightarrow> Err (NoiseError e)
                  | Inr (second, transport) \<Rightarrow>
                      (case write_frame C sent second \<lparr>wr_enc = encoder_new C, wr_state = initial\<rparr> of
                         (Inl e, w) \<Rightarrow> Err e
                       | (Inr bs, w) \<Rightarrow>
                           Ok (\<lparr>rd_dec = fst st', rd_state = transport, current_frame_buf = [], bytes_read = 0\<rparr>,
                               w\<lparr>wr_state := transport\<rparr>, bs)))))"

definition accept ::
  "('d, 'n, 's, 'f, 'e) codec \<Rightarrow> role \<Rightarrow> bool \<Rightarrow> 's \<Rightarrow> 's \<Rightarrow> timed_read list
     \<Rightarrow> ('e NoiseStreamError + ('d, 's) ReadHalf \<times> ('n, 's) WriteHalf \<times> bytes) option" where
  "accept C role sent initial waiting rds =
     (case role of
        Initiator \<Rightarrow> Some (Err HandshakeRemoteInvalidMessage)
      | Responder \<Rightarrow> accept_loop C sent initial (decoder_new C, waiting) rds)"

section \<open>Reading a frame\<close>

text \<open>One read of the socket: what has arrived (nothing at the end of the stream), of which the
  read takes what it has room for, or an error.\<close>

datatype read = Arrived bytes | ReadError

text \<open>A call returns a result, or it is still waiting when the reads end; the caller may then drop
  it and call again.\<close>

datatype ('f, 'e) progress = Waiting | Returned "'e NoiseStreamError + 'f"

definition prepare :: "('d, 'n, 's, 'f, 'e) codec \<Rightarrow> ('d, 's) ReadHalf \<Rightarrow> ('d, 's) ReadHalf" where
  "prepare C r =
     (let expected = writable_len C (rd_dec r)
      in if length (current_frame_buf r) \<noteq> expected
         then r\<lparr>current_frame_buf := take expected (current_frame_buf r) @ replicate (expected - length (current_frame_buf r)) 0,
                bytes_read := 0\<rparr>
         else r)"

definition take_in :: "bytes \<Rightarrow> ('d, 's) ReadHalf \<Rightarrow> ('d, 's) ReadHalf" where
  "take_in bs r =
     r\<lparr>current_frame_buf := take (bytes_read r) (current_frame_buf r) @ bs @ drop (bytes_read r + length bs) (current_frame_buf r),
       bytes_read := bytes_read r + length bs\<rparr>"

partial_function (option) read_frame ::
  "('d, 'n, 's, 'f, 'e) codec \<Rightarrow> ('d, 's) ReadHalf \<Rightarrow> read list
     \<Rightarrow> (('f, 'e) progress \<times> ('d, 's) ReadHalf \<times> read list) option" where
  "read_frame C r net =
     (let expected = writable_len C (rd_dec r); r1 = prepare C r
      in if bytes_read r1 < expected
         then (case net of
                 [] \<Rightarrow> Some (Waiting, r1, [])
               | ReadError # net' \<Rightarrow> Some (Returned (Err StreamClosed), r1, net')
               | Arrived bs # net' \<Rightarrow>
                   let n = min (length bs) (expected - bytes_read r1)
                   in if n = 0 then Some (Returned (Err StreamClosed), r1, net')
                      else read_frame C (take_in (take n bs) r1) (if length bs \<le> n then net' else Arrived (drop n bs) # net'))
         else (case next_frame C (current_frame_buf r1) (rd_dec r1, rd_state r1) of
                 (res, d, s) \<Rightarrow>
                   let r2 = r1\<lparr>rd_dec := d, rd_state := s, bytes_read := 0\<rparr>
                   in (case res of
                         Inr f \<Rightarrow> Some (Returned (Ok f), r2, net)
                       | Inl MissingBytes \<Rightarrow> read_frame C r2 net
                       | Inl (OtherError e) \<Rightarrow> Some (Returned (Err (CodecError (OtherError e))), r2, net))))"

declare read_frame.simps [simp del]

text \<open>The dispatch loop as the reader sees it: the call is made, waits, is dropped when another arm
  of the loop is ready (the end of a segment of the reads), and is made again.  The first \<open>k\<close>
  results are returned; the loop leaves at an error.\<close>

fun serve ::
  "('d, 'n, 's, 'f, 'e) codec \<Rightarrow> nat \<Rightarrow> ('d, 's) ReadHalf \<Rightarrow> read list list
     \<Rightarrow> ('e NoiseStreamError + 'f) list option" where
  "serve C 0 r segs = Some []"
| "serve C (Suc k) r [] = Some []"
| "serve C (Suc k) r (seg # segs) =
     (case read_frame C r seg of
        None \<Rightarrow> None
      | Some (Waiting, r', rest) \<Rightarrow> serve C (Suc k) r' segs
      | Some (Returned (Inl e), r', rest) \<Rightarrow> Some [Inl e]
      | Some (Returned (Inr f), r', rest) \<Rightarrow> map_option ((#) (Inr f)) (serve C k r' (rest # segs)))"


section \<open>What a read depends on\<close>

text \<open>The bytes that arrive one by one; None ends the stream.\<close>

fun arrivals :: "read list \<Rightarrow> byte option list" where
  "arrivals [] = []"
| "arrivals (Arrived bs # net) = (if bs = [] then [None] else map Some bs) @ arrivals net"
| "arrivals (ReadError # net) = None # arrivals net"

text \<open>A decoder that has been given no bytes since it asked for none does not go on asking for
  none: a measure of it falls.\<close>

definition decoder_progress :: "('d, 'n, 's, 'f, 'e) codec \<Rightarrow> ('d \<times> 's \<Rightarrow> nat) \<Rightarrow> bool" where
  "decoder_progress C \<mu> \<longleftrightarrow>
     (\<forall>buf d s st. writable_len C d = 0 \<longrightarrow> next_frame C buf (d, s) = (Inl MissingBytes, st) \<longrightarrow> \<mu> st < \<mu> (d, s))"

lemma prepare_facts:
  "length (current_frame_buf (prepare C r)) = writable_len C (rd_dec r)"
  "rd_dec (prepare C r) = rd_dec r" "rd_state (prepare C r) = rd_state r"
  "bytes_read (prepare C r) \<le> bytes_read r"
  "prepare C (prepare C r) = prepare C r"
  by (simp_all add: prepare_def Let_def min_def)

lemma take_in_facts [simp]:
  "rd_dec (take_in bs r) = rd_dec r" "rd_state (take_in bs r) = rd_state r"
  "bytes_read (take_in bs r) = bytes_read r + length bs"
  by (simp_all add: take_in_def)

lemma take_in_length:
  "bytes_read r + length bs \<le> length (current_frame_buf r) \<Longrightarrow>
     length (current_frame_buf (take_in bs r)) = length (current_frame_buf r)"
  by (simp add: take_in_def)

lemma take_in_take_in:
  "bytes_read r + length bs + length cs \<le> length (current_frame_buf r) \<Longrightarrow> take_in cs (take_in bs r) = take_in (bs @ cs) r"
  by (simp add: take_in_def min_absorb1 min_absorb2 ac_simps)

text \<open>The three ways of a call that is to read.\<close>

lemma read_waits:
  "bytes_read (prepare C r) < writable_len C (rd_dec r) \<Longrightarrow> read_frame C r [] = Some (Waiting, prepare C r, [])"
  by (simp add: read_frame.simps Let_def)

lemma read_ends:
  "bytes_read (prepare C r) < writable_len C (rd_dec r) \<Longrightarrow> x = ReadError \<or> x = Arrived [] \<Longrightarrow>
     read_frame C r (x # net) = Some (Returned (Err StreamClosed), prepare C r, net)"
  by (auto simp: read_frame.simps Let_def)

lemma read_takes:
  assumes "bytes_read (prepare C r) < writable_len C (rd_dec r)"
  shows "read_frame C r (Arrived [b] # net) = read_frame C (take_in [b] (prepare C r)) net"
proof -
  have "min 1 (writable_len C (rd_dec r) - bytes_read (prepare C r)) = 1" using assms by simp
  then show ?thesis using assms by (subst read_frame.simps) (simp add: Let_def)
qed

lemma read_split:
  assumes lt: "bytes_read (prepare C r) < writable_len C (rd_dec r)" and ne: "bs \<noteq> []"
  shows "read_frame C r (Arrived (b # bs) # net) = read_frame C r (Arrived [b] # Arrived bs # net)"
proof -
  let ?p = "prepare C r" and ?m = "writable_len C (rd_dec r)"
  let ?q = "take_in [b] ?p"
  have q: "prepare C ?q = ?q"
    using lt by (simp add: prepare_def [of C ?q] take_in_length prepare_facts)
  show ?thesis
  proof (cases "bytes_read ?p + 1 < ?m")
    case False
    then have "?m - bytes_read ?p = 1" using lt by simp
    then show ?thesis unfolding read_takes [OF lt] using lt ne
      by (subst read_frame.simps) (simp add: Let_def)
  next
    case True
    then have lt': "bytes_read (prepare C ?q) < writable_len C (rd_dec ?q)" by (simp add: q prepare_facts)
    define n where "n = min (length bs) (?m - (bytes_read ?p + 1))"
    have n: "min (length (b # bs)) (?m - bytes_read ?p) = n + 1" "0 < n" "bytes_read ?p + 1 + n \<le> ?m" "n \<le> length bs"
      using True ne by (auto simp: n_def min_def)
    have "read_frame C ?q (Arrived bs # net)
        = read_frame C (take_in (take n bs) ?q) (if length bs \<le> n then net else Arrived (drop n bs) # net)"
      using lt' n by (subst read_frame.simps) (simp add: Let_def q prepare_facts n_def)
    also have "take_in (take n bs) ?q = take_in (b # take n bs) ?p"
      using n by (subst take_in_take_in) (simp_all add: prepare_facts)
    finally show ?thesis unfolding read_takes [OF lt] using lt n
      by (subst read_frame.simps) (simp add: Let_def)
  qed
qed

text \<open>So the reads may as well bring one byte each.\<close>

lemma read_first:
  assumes lt: "bytes_read (prepare C r) < writable_len C (rd_dec r)" and a: "arrivals net = Some b # ts"
  obtains rest where "read_frame C r net = read_frame C (take_in [b] (prepare C r)) rest" "arrivals rest = ts"
    "\<And>net'. read_frame C r (net @ net') = read_frame C (take_in [b] (prepare C r)) (rest @ net')"
proof -
  obtain bs net1 where net: "net = Arrived (b # bs) # net1" "ts = map Some bs @ arrivals net1"
    using a by (cases net rule: arrivals.cases) (auto simp: append_eq_Cons_conv map_eq_Cons_conv split: if_splits)
  show thesis
  proof (cases "bs = []")
    case True
    then show thesis using that [of net1] net read_takes [OF lt] by simp
  next
    case False
    then show thesis
      using that [of "Arrived bs # net1"] net read_split [OF lt False] read_takes [OF lt] by simp
  qed
qed

lemma read_stop:
  assumes "arrivals net = None # ts"
  obtains x net' where "net = x # net'" "x = ReadError \<or> x = Arrived []" "arrivals net' = ts"
  using assms by (cases net rule: arrivals.cases) (auto simp: append_eq_Cons_conv map_eq_Cons_conv split: if_splits)


text \<open>A call is settled by the bytes that arrive: it returns or waits, and it can be resumed.\<close>

definition settles ::
  "('d, 'n, 's, 'f, 'e) codec \<Rightarrow> ('d, 's) ReadHalf \<Rightarrow> ('f, 'e) progress \<Rightarrow> ('d, 's) ReadHalf \<Rightarrow> byte option list \<Rightarrow> read list \<Rightarrow> bool" where
  "settles C r p r' ts' net \<longleftrightarrow>
     (\<exists>rest. read_frame C r net = Some (p, r', rest) \<and> arrivals rest = ts'
        \<and> (\<forall>net'. read_frame C r (net @ net') = (if p = Waiting then read_frame C r' net' else Some (p, r', rest @ net')))
        \<and> (p = Waiting \<longrightarrow> rest = [] \<and> bytes_read (prepare C r') < writable_len C (rd_dec r')))"

lemma settles_step:
  "\<lbrakk>settles C r1 p r' ts' net1; read_frame C r net = read_frame C r1 net1;
    \<And>net'. read_frame C r (net @ net') = read_frame C r1 (net1 @ net')\<rbrakk> \<Longrightarrow> settles C r p r' ts' net"
  by (simp add: settles_def)

lemma read_settles:
  assumes "decoder_progress C \<mu>"
  shows "\<exists>p r' ts'. \<forall>net. arrivals net = ts \<longrightarrow> settles C r p r' ts' net"
proof (induction "(length ts, bytes_read r, \<mu> (rd_dec r, rd_state r))" arbitrary: ts r
    rule: wf_induct_rule [OF wf_lex_prod [OF wf_less_than wf_lex_prod [OF wf_less_than wf_less_than]]])
  case (1 ts r)
  let ?p = "prepare C r" and ?m = "writable_len C (rd_dec r)"
  note IH = 1
  show ?case
  proof (cases "bytes_read ?p < ?m")
    case lt: True
    show ?thesis
    proof (cases ts)
      case Nil
      have "settles C r Waiting ?p [] net" if "arrivals net = ts" for net
      proof -
        have "net = []" using that Nil by (cases net rule: arrivals.cases) (auto split: if_splits)
        moreover have "read_frame C r net' = read_frame C ?p net'" for net'
          by (simp add: read_frame.simps [of C r] read_frame.simps [of C ?p] prepare_facts)
        ultimately show ?thesis using read_waits [OF lt] lt by (simp add: settles_def prepare_facts)
      qed
      then show ?thesis by blast
    next
      case (Cons t ts1)
      show ?thesis
      proof (cases t)
        case None
        have "settles C r (Returned (Err StreamClosed)) ?p ts1 net" if "arrivals net = ts" for net
        proof -
          have "arrivals net = None # ts1" using that Cons None by simp
          then obtain x net1 where "net = x # net1" "x = ReadError \<or> x = Arrived []" "arrivals net1 = ts1"
            by (rule read_stop)
          then show ?thesis using read_ends [OF lt] by (auto simp: settles_def)
        qed
        then show ?thesis by blast
      next
        case (Some b)
        obtain p r' ts' where t: "\<And>net. arrivals net = ts1 \<Longrightarrow> settles C (take_in [b] ?p) p r' ts' net"
          using IH [of ts1 "take_in [b] ?p"] Cons by auto
        have "settles C r p r' ts' net" if "arrivals net = ts" for net
        proof -
          have "arrivals net = Some b # ts1" using that Cons Some by simp
          from read_first [OF lt this] obtain rest where
            "read_frame C r net = read_frame C (take_in [b] ?p) rest" "arrivals rest = ts1"
            "\<And>net'. read_frame C r (net @ net') = read_frame C (take_in [b] ?p) (rest @ net')" by blast
          then show ?thesis using settles_step [OF t] by blast
        qed
        then show ?thesis by blast
      qed
    qed
  next
    case ge: False
    obtain res d s where nf: "next_frame C (current_frame_buf ?p) (rd_dec r, rd_state r) = (res, d, s)" by (rule prod_cases3)
    let ?r = "?p\<lparr>rd_dec := d, rd_state := s, bytes_read := 0\<rparr>"
    have eq: "read_frame C r net = (case res of
          Inr f \<Rightarrow> Some (Returned (Ok f), ?r, net)
        | Inl MissingBytes \<Rightarrow> read_frame C ?r net
        | Inl (OtherError e) \<Rightarrow> Some (Returned (Err (CodecError (OtherError e))), ?r, net))" for net
      using ge nf by (subst read_frame.simps) (simp add: Let_def prepare_facts)
    have fin: "\<exists>p r' ts'. \<forall>net. arrivals net = ts \<longrightarrow> settles C r p r' ts' net"
      if "\<And>net. read_frame C r net = Some (Returned x, ?r, net)" for x
      using that by (intro exI [of _ "Returned x"] exI [of _ ?r] exI [of _ ts]) (simp add: settles_def)
    show ?thesis
    proof (cases res)
      case (Inr f)
      then show ?thesis by (intro fin [of "Ok f"]) (simp add: eq)
    next
      case (Inl e)
      show ?thesis
      proof (cases e)
        case (OtherError e')
        then show ?thesis by (intro fin [of "Err (CodecError (OtherError e'))"]) (simp add: eq Inl)
      next
        case MissingBytes
        have "bytes_read r > 0 \<or> bytes_read r = 0 \<and> \<mu> (d, s) < \<mu> (rd_dec r, rd_state r)"
          using assms nf ge prepare_facts(4) [of C r] unfolding decoder_progress_def Inl MissingBytes by fastforce
        then obtain p r' ts' where t: "\<And>net. arrivals net = ts \<Longrightarrow> settles C ?r p r' ts' net"
          using IH [of ts ?r] by auto
        have "settles C r p r' ts' net" if "arrivals net = ts" for net
          by (rule settles_step [OF t [OF that]]) (simp_all add: eq Inl MissingBytes)
        then show ?thesis by blast
      qed
    qed
  qed
qed


lemma settled: "decoder_progress C \<mu> \<Longrightarrow> \<exists>p r' ts'. settles C r p r' ts' net"
  using read_settles by blast

lemma stopped_read_returns:
  assumes "decoder_progress C \<mu>" "x = ReadError \<or> x = Arrived []"
  shows "\<exists>res r' rest. read_frame C r (net @ x # net') = Some (Returned res, r', rest)"
proof -
  obtain p r' ts' where s: "settles C r p r' ts' net" using settled [OF assms(1), of r net] by blast
  show ?thesis
  proof (cases p)
    case Waiting
    then have "bytes_read (prepare C r') < writable_len C (rd_dec r')" using s by (simp add: settles_def)
    from read_ends [OF this assms(2)] show ?thesis using s Waiting by (simp add: settles_def)
  next
    case (Returned res)
    then show ?thesis using s by (auto simp: settles_def)
  qed
qed

lemma serve_concat:
  "\<lbrakk>decoder_progress C \<mu>; segs \<noteq> []\<rbrakk> \<Longrightarrow> serve C k r segs = serve C k r [concat segs]"
proof (induction C k r segs rule: serve.induct)
  case (3 C k r seg segs)
  have "\<exists>p r' ts'. settles C r p r' ts' seg" by (rule settled [OF 3(3)])
  then obtain p r' ts' where s: "settles C r p r' ts' seg" by (elim exE)
  then obtain rest where r: "read_frame C r seg = Some (p, r', rest)" 
    and app: "\<And>net'. read_frame C r (seg @ net') = (if p = Waiting then read_frame C r' net' else Some (p, r', rest @ net'))"
    and w: "p = Waiting \<Longrightarrow> rest = [] \<and> bytes_read (prepare C r') < writable_len C (rd_dec r')"
    by (auto simp: settles_def)
  show ?case
  proof (cases p)
    case Waiting
    have "serve C (Suc k) r' segs = serve C (Suc k) r' [concat segs]"
    proof (cases "segs = []")
      case True
      then show ?thesis using w [OF Waiting] by (simp add: read_waits)
    qed (use 3 r Waiting in simp)
    then show ?thesis using r app [of "concat segs"] Waiting by (simp split: option.split prod.split progress.split sum.split)
  next
    case (Returned res)
    show ?thesis
    proof (cases res)
      case (Inl e)
      then show ?thesis using r app [of "concat segs"] Returned by simp
    next
      case (Inr f)
      have "serve C k r' (rest # segs) = serve C k r' [rest @ concat segs]"
        using 3(2) [OF _ _ _ _ _ 3(3)] r Returned Inr by simp
      then show ?thesis using r app [of "concat segs"] Returned Inr by simp
    qed
  qed
qed simp_all

lemma serve_arrivals:
  assumes "decoder_progress C \<mu>"
  shows "arrivals net = arrivals net' \<Longrightarrow> serve C k r [net] = serve C k r [net']"
proof (induction k arbitrary: r net net')
  case (Suc k)
  from read_settles [OF assms, of "arrivals net" r]
  obtain p r' ts' where s: "\<And>n. arrivals n = arrivals net \<Longrightarrow> settles C r p r' ts' n" by blast
  from s [of net] s [of net'] Suc.prems obtain rest rest' where
    "read_frame C r net = Some (p, r', rest)" "read_frame C r net' = Some (p, r', rest')" "arrivals rest = arrivals rest'"
    by (auto simp: settles_def)
  then show ?case using Suc.IH [of rest rest' r'] by (simp split: progress.split sum.split)
qed simp

lemma serve_returns:
  "decoder_progress C \<mu> \<Longrightarrow> serve C k r segs \<noteq> None"
proof (induction C k r segs rule: serve.induct)
  case (3 C k r seg segs)
  from settled [OF 3(3), of r seg] obtain p r' ts' where s: "settles C r p r' ts' seg" by (elim exE)
  then show ?case using 3 by (auto simp: settles_def split: progress.split sum.split)
qed simp_all


lemma arrivals_end:
  "None \<in> set (arrivals net) \<Longrightarrow> \<exists>net1 x net2. net = net1 @ x # net2 \<and> (x = ReadError \<or> x = Arrived [])"
proof (induction net rule: arrivals.induct)
  case (2 bs net)
  show ?case
  proof (cases "bs = []")
    case False
    then obtain net1 x net2 where "net = net1 @ x # net2" "x = ReadError \<or> x = Arrived []" using 2 by auto
    then show ?thesis by (intro exI [of _ "Arrived bs # net1"]) auto
  qed (metis append_Nil)
qed (simp, metis append_Nil)

text \<open>C20: Every call of \<open>read_frame\<close> comes back: over a decoder that makes progress the two nested loops
  end on all reads, at every state of the reader, with a frame or an error, or with every byte
  taken and more wanted; and once the stream has ended or failed within the reads it is not left
  waiting.\<close>

theorem sv2_read_frame_returns:
  assumes "decoder_progress C \<mu>"
  shows "\<exists>p r' rest. read_frame C r net = Some (p, r', rest) \<and> (p = Waiting \<longrightarrow> rest = [] \<and> None \<notin> set (arrivals net))"
proof -
  obtain p r' ts' where s: "settles C r p r' ts' net" using settled [OF assms, of r net] by blast
  have "p \<noteq> Waiting" if n: "None \<in> set (arrivals net)"
  proof -
    obtain net1 x net2 where "net = net1 @ x # net2" "x = ReadError \<or> x = Arrived []" using arrivals_end [OF n] by blast
    then have "\<exists>res r' rest. read_frame C r net = Some (Returned res, r', rest)" using stopped_read_returns [OF assms] by blast
    then show ?thesis using s by (auto simp: settles_def)
  qed
  then show ?thesis using s by (auto simp: settles_def)
qed

text \<open>C19: The dispatch loop may drop a pending \<open>read_frame\<close>, although its comment says that it is not
  safe to cancel: what the loop receives (the first \<open>k\<close> frames, or those before the first error,
  with the error) is a function of the bytes that arrive, however TCP splits them into reads and
  wherever another arm of the loop interrupts the wait; and it never hangs on bytes that are there.\<close>

theorem sv2_reads_survive_select:
  assumes "decoder_progress C \<mu>" "segs \<noteq> []" "segs' \<noteq> []" "arrivals (concat segs) = arrivals (concat segs')"
  shows "\<exists>results. serve C k r segs = Some results \<and> serve C k r segs' = Some results"
  using serve_returns [OF assms(1), of k r segs] serve_concat [OF assms(1,2), of k r] serve_concat [OF assms(1,3), of k r]
    serve_arrivals [OF assms(1,4), of k r] by (metis option.exhaust)

section \<open>A codec to try them on\<close>

text \<open>A byte that gives the length, then a body of that length.  It asks for no byte before an
  empty body, as the Noise codec does.\<close>

definition sample_codec :: "(nat option, unit, unit, bytes, unit) codec" where
  "sample_codec =
     \<lparr>writable_len = (\<lambda>d. case d of None \<Rightarrow> 1 | Some n \<Rightarrow> n),
      next_frame = (\<lambda>buf (d, s). case d of None \<Rightarrow> (Inl MissingBytes, Some (unat (hd buf)), s) | Some n \<Rightarrow> (Inr buf, None, s)),
      encode_frame = (\<lambda>f (n, s). Inr (f, n, s)), handshake_payload = Some, step_1 = (\<lambda>p s. Inr (p, s)),
      decoder_new = None, encoder_new = ()\<rparr>"

lemma sample_codec_progress: "decoder_progress sample_codec (\<lambda>st. 0)"
  by (auto simp: decoder_progress_def sample_codec_def split: option.splits)

definition sample_reader :: "(nat option, unit) ReadHalf" where
  "sample_reader = \<lparr>rd_dec = None, rd_state = (), current_frame_buf = [], bytes_read = 0\<rparr>"

theorem sv2_read_frame_returns_witness:
  "\<exists>res r' rest. read_frame sample_codec sample_reader [Arrived [3, 7], Arrived [8], Arrived []] = Some (Returned res, r', rest)"
  using sv2_read_frame_returns [OF sample_codec_progress, of sample_reader "[Arrived [3, 7], Arrived [8], Arrived []]"]
  by (auto intro: progress.exhaust)

theorem sv2_reads_survive_select_witness:
  "serve sample_codec 3 sample_reader [[Arrived [2]], [Arrived [7], Arrived [8, 0]], [Arrived [1, 9], ReadError]]
    = Some [Inr [7, 8], Inr [], Inr [9]]"
proof -
  have "serve sample_codec 3 sample_reader [[Arrived [2, 7, 8, 0, 1, 9], ReadError]] = Some [Inr [7, 8], Inr [], Inr [9]]"
    by (simp add: numeral_3_eq_3 read_frame.simps prepare_def take_in_def Let_def sample_codec_def sample_reader_def)
  then show ?thesis
    using sv2_reads_survive_select [OF sample_codec_progress, of
        "[[Arrived [2]], [Arrived [7], Arrived [8, 0]], [Arrived [1, 9], ReadError]]" "[[Arrived [2, 7, 8, 0, 1, 9], ReadError]]" 3 sample_reader]
    by simp
qed

end
