(* ===== verification/Sv2Runs.thy ===== *)
theory Sv2Runs
  imports Sv2Listener
begin

text \<open>
  Runs of a Stratum V2 connection: the invariant of its channel manager, the search spaces and
  the targets handed to its channels, what becomes of each submitted share, and the header that
  the pool rebuilds from a forwarded one.  The SRI functions obey their documented laws
  (\<open>sri_laws\<close>), and \<open>ref_sri\<close> is an instance of them.
\<close>

unbundle bit_operations_syntax

section \<open>The clamp is the minimum\<close>

lemma clamp_from_meets: "clamp_from n p m = (if meets_below n p m then p else m)"
  by (induction n) auto

lemma clamp_min:
  assumes "length p = 32" "length m = 32"
  shows "le_nat (clamp_from 32 p m) = min (le_nat p) (le_nat m)" "length (clamp_from 32 p m) = 32"
  using meets_below_take [of 32 p m] assms by (auto simp: clamp_from_meets)

lemma clamp_min_hashrate:
  assumes "length p = 32" "length m = 32"
  shows "le_nat (clamp_target_to_min_hashrate_le p m) = min (le_nat p) (le_nat m)"
    "length (clamp_target_to_min_hashrate_le p m) = 32"
  unfolding clamp_target_to_min_hashrate_le_def using clamp_min [OF assms] by blast+

section \<open>What the open handlers do\<close>

text \<open>Both inner functions at once: the reply, its job and the activation, for the next channel
  and job id, with the prefix that the allocator handed out.\<close>

definition opens_channel ::
  "('a, 'p, 'g) sri \<Rightarrow> OpenMsg \<Rightarrow> bool \<Rightarrow> 'p \<Rightarrow> 'a \<Rightarrow> ('a, 'p) ChannelManager \<Rightarrow> ('a, 'p) ChannelManager" where
  "opens_channel S msg extended p a m =
     insert_channel S (cm_next_channel_id m)
       \<lparr>oc_channel_id = cm_next_channel_id m, oc_user_identity = om_user_identity msg, oc_is_extended = extended,
        oc_extranonce_prefix = p, oc_last_job_id = cm_next_job_id m, oc_nominal_hash_rate = om_nominal_hash_rate msg,
        oc_max_target_le = om_max_target msg\<rparr>
       (m\<lparr>cm_allocator := a, cm_next_channel_id := cm_next_channel_id m + 1, cm_next_job_id := cm_next_job_id m + 1\<rparr>)"

text \<open>The cases of a handler: an error reply that leaves the channels alone, or an opened channel.\<close>

inductive open_result ::
  "libs \<Rightarrow> ('a, 'p, 'g) sri \<Rightarrow> TemplateState option \<Rightarrow> OpenMsg \<Rightarrow> bool \<Rightarrow> ('a, 'p) ChannelManager
     \<Rightarrow> MiningOut list \<times> ('a, 'p) ChannelManager \<Rightarrow> bool" for X S tmpl msg extended m where
  refused: "open_result X S tmpl msg extended m ([OpenMiningChannelError (om_request_id msg) code], m)"
| unencodable: "(if extended then allocate_extended S 10 (cm_allocator m) else allocate_standard S (cm_allocator m)) = Some (p, a) \<Longrightarrow>
    open_result X S tmpl msg extended m ([OpenMiningChannelError (om_request_id msg) (Lit ''internal-encode-error'')],
      m\<lparr>cm_next_channel_id := cm_next_channel_id m + 1, cm_next_job_id := cm_next_job_id m + 1, cm_allocator := release S p a\<rparr>)"
| opened: "\<lbrakk>tmpl = Some t; (if extended then allocate_extended S 10 (cm_allocator m) else allocate_standard S (cm_allocator m)) = Some (p, a);
    \<not> hashrate_refused (om_nominal_hash_rate msg) (cm_min_hashrate_threshold m); length (om_max_target msg) = 32;
    om_user_identity msg \<noteq> []; utf8_valid (om_user_identity msg);
    reply = \<lparr>os_request_id = om_request_id msg, os_channel_id = cm_next_channel_id m,
        os_target = clamp_target_to_min_hashrate_le (om_max_target msg) (cm_min_target_le m),
        os_extranonce_size = (if extended then Some 10 else None), os_extranonce_prefix = prefix_bytes S p,
        os_group_channel_id = 0\<rparr>;
    job = (if extended then NewExtendedMiningJob (the (build_new_extended_job (cm_next_channel_id m) (cm_next_job_id m) t))
           else NewMiningJob (standard_job X (cm_next_channel_id m) (cm_next_job_id m) (prefix_bytes S p) t));
    extended \<Longrightarrow> build_new_extended_job (cm_next_channel_id m) (cm_next_job_id m) t \<noteq> None\<rbrakk> \<Longrightarrow>
    open_result X S tmpl msg extended m
      ([if extended then OpenExtendedMiningChannelSuccess reply else OpenStandardMiningChannelSuccess reply, job,
        SetNewPrevHash (build_set_new_prev_hash (cm_next_channel_id m) (cm_next_job_id m) t)],
       opens_channel S msg extended p a m)"

inductive_cases open_resultE: "open_result X S tmpl msg extended m r"

lemma open_extended_result: "open_result X S tmpl msg True m (handle_open_extended_mining_channel S tmpl msg m)"
proof -
  let ?r = "handle_open_extended_mining_channel S tmpl msg m"
  let ?ok = "is_client_authorized (om_user_identity msg) \<and> str_from_str0255 (om_user_identity msg) = Some (om_user_identity msg)
    \<and> \<not> hashrate_refused (om_nominal_hash_rate msg) (cm_min_hashrate_threshold m) \<and> length (om_max_target msg) = 32"
  show ?thesis
  proof (cases ?ok)
    case False
    then have "\<exists>code. ?r = ([OpenMiningChannelError (om_request_id msg) code], m)"
      by (auto simp: handle_open_extended_mining_channel_def checked_open_def Let_def str_from_str0255_def is_client_authorized_def)
    then show ?thesis by (auto intro: open_result.refused)
  next
    case ok: True
    then have u: "om_user_identity msg \<noteq> []" "utf8_valid (om_user_identity msg)"
      by (auto simp: str_from_str0255_def split: if_splits)
    show ?thesis
    proof (cases tmpl)
      case None
      then show ?thesis using ok
        by (simp add: handle_open_extended_mining_channel_def checked_open_def open_extended_inner_def open_result.refused)
    next
      case (Some t)
      show ?thesis
      proof (cases "allocate_extended S 10 (cm_allocator m)")
        case None
        then show ?thesis using ok Some
          by (simp add: handle_open_extended_mining_channel_def checked_open_def open_extended_inner_def open_result.refused)
      next
        case (Some pa)
        obtain p a where pa: "pa = (p, a)" by fastforce
        let ?b = "build_new_extended_job (cm_next_channel_id m) (cm_next_job_id m) t"
        show ?thesis
        proof (cases "32 < length (prefix_bytes S p) \<or> ?b = None")
          case True
          then show ?thesis using ok \<open>tmpl = Some t\<close> Some open_result.unencodable [of True S m p a X tmpl msg]
            by (auto simp: handle_open_extended_mining_channel_def checked_open_def open_extended_inner_def Let_def pa open_error_code_def)
        next
          case False
          then obtain j where "?b = Some j" by blast
          then show ?thesis using ok u False \<open>tmpl = Some t\<close> Some
              open_result.opened [where extended = True and tmpl = tmpl and t = t and S = S and m = m and p = p and a = a and msg = msg and X = X and job = "NewExtendedMiningJob j"]
            by (simp add: handle_open_extended_mining_channel_def checked_open_def open_extended_inner_def Let_def pa opens_channel_def)
        qed
      qed
    qed
  qed
qed

lemma open_standard_result: "open_result X S tmpl msg False m (handle_open_standard_mining_channel X S tmpl msg m)"
proof -
  let ?r = "handle_open_standard_mining_channel X S tmpl msg m"
  let ?ok = "is_client_authorized (om_user_identity msg) \<and> str_from_str0255 (om_user_identity msg) = Some (om_user_identity msg)
    \<and> \<not> hashrate_refused (om_nominal_hash_rate msg) (cm_min_hashrate_threshold m) \<and> length (om_max_target msg) = 32"
  show ?thesis
  proof (cases ?ok)
    case False
    then have "\<exists>code. ?r = ([OpenMiningChannelError (om_request_id msg) code], m)"
      by (auto simp: handle_open_standard_mining_channel_def checked_open_def Let_def str_from_str0255_def is_client_authorized_def)
    then show ?thesis by (auto intro: open_result.refused)
  next
    case ok: True
    then have u: "om_user_identity msg \<noteq> []" "utf8_valid (om_user_identity msg)"
      by (auto simp: str_from_str0255_def split: if_splits)
    consider "tmpl = None" | "allocate_standard S (cm_allocator m) = None"
      | t p a where "tmpl = Some t" "allocate_standard S (cm_allocator m) = Some (p, a)" "32 < length (prefix_bytes S p)"
      | t p a where "tmpl = Some t" "allocate_standard S (cm_allocator m) = Some (p, a)" "\<not> 32 < length (prefix_bytes S p)"
      by fast
    then show ?thesis
    proof cases
      case 3
      then show ?thesis using ok open_result.unencodable [of False S m p a X tmpl msg]
        by (simp add: handle_open_standard_mining_channel_def checked_open_def open_standard_inner_def Let_def open_error_code_def)
    next
      case 4
      then show ?thesis using ok u
          open_result.opened [where extended = False and tmpl = tmpl and t = t and S = S and m = m and p = p and a = a and msg = msg and X = X]
        by (simp add: handle_open_standard_mining_channel_def checked_open_def open_standard_inner_def Let_def opens_channel_def)
    qed (use ok in \<open>auto simp: handle_open_standard_mining_channel_def checked_open_def open_standard_inner_def
        split: option.splits intro: open_result.refused\<close>)
  qed
qed

section \<open>The laws of the allocator\<close>

text \<open>The documented behaviour of the SRI allocator for a partition of no upstream prefix, a
  two-byte index and ten rollable bytes: every live prefix has its own index, a standard prefix
  is the index and ten zero bytes, and dropping a prefix frees its index.  \<open>ok\<close> and \<open>live\<close>
  describe the allocator's state.\<close>

definition index_of :: "('a, 'p, 'g) sri \<Rightarrow> 'p \<Rightarrow> bytes" where "index_of S p = take 2 (prefix_bytes S p)"

definition prefix_shape :: "('a, 'p, 'g) sri \<Rightarrow> bool \<Rightarrow> 'p \<Rightarrow> bool" where
  "prefix_shape S extended p \<longleftrightarrow> length (index_of S p) = 2
     \<and> prefix_bytes S p = index_of S p @ (if extended then [] else replicate 10 0)"

definition allocates ::
  "('a, 'p, 'g) sri \<Rightarrow> ('a \<Rightarrow> bool) \<Rightarrow> ('a \<Rightarrow> bytes set) \<Rightarrow> bool \<Rightarrow> ('a \<Rightarrow> ('p \<times> 'a) option) \<Rightarrow> bool" where
  "allocates S ok live extended alloc \<longleftrightarrow>
     (\<forall>a p a'. ok a \<longrightarrow> alloc a = Some (p, a') \<longrightarrow>
        ok a' \<and> prefix_shape S extended p \<and> index_of S p \<notin> live a \<and> live a' = insert (index_of S p) (live a))"

definition releases :: "('a, 'p, 'g) sri \<Rightarrow> ('a \<Rightarrow> bool) \<Rightarrow> ('a \<Rightarrow> bytes set) \<Rightarrow> bool" where
  "releases S ok live \<longleftrightarrow> (\<forall>a p. ok a \<longrightarrow> index_of S p \<in> live a \<longrightarrow>
     ok (release S p a) \<and> live (release S p a) = live a - {index_of S p})"

definition sri_laws :: "('a, 'p, 'g) sri \<Rightarrow> ('a \<Rightarrow> bool) \<Rightarrow> ('a \<Rightarrow> bytes set) \<Rightarrow> bool" where
  "sri_laws S ok live \<longleftrightarrow>
     (case alloc_new S [] TOTAL_EXTRANONCE_LEN MAX_CHANNELS of Some a \<Rightarrow> ok a \<and> live a = {} | None \<Rightarrow> True)
   \<and> allocates S ok live True (allocate_extended S 10) \<and> allocates S ok live False (allocate_standard S)
   \<and> releases S ok live
   \<and> (\<forall>h r. case hash_rate_to_target S h r of Some t \<Rightarrow> length t = 32 | None \<Rightarrow> True)
   \<and> (\<forall>f. has_work_selection S f \<longleftrightarrow> bit f 1)"

lemma sri_new: "\<lbrakk>sri_laws S ok live; alloc_new S [] TOTAL_EXTRANONCE_LEN MAX_CHANNELS = Some a\<rbrakk> \<Longrightarrow> ok a \<and> live a = {}"
  by (simp add: sri_laws_def)

lemma allocatesD:
  "\<lbrakk>allocates S ok live extended alloc; ok a; alloc a = Some (p, a')\<rbrakk> \<Longrightarrow>
   ok a' \<and> prefix_shape S extended p \<and> index_of S p \<notin> live a \<and> live a' = insert (index_of S p) (live a)"
  unfolding allocates_def by blast

lemma sri_allocate:
  assumes "sri_laws S ok live" "ok a" "(if extended then allocate_extended S 10 a else allocate_standard S a) = Some (p, a')"
  shows "ok a' \<and> prefix_shape S extended p \<and> index_of S p \<notin> live a \<and> live a' = insert (index_of S p) (live a)"
proof (cases extended)
  case True
  then have "allocates S ok live extended (allocate_extended S 10)" using assms(1) by (simp add: sri_laws_def)
  then show ?thesis by (rule allocatesD) (use assms True in simp_all)
next
  case False
  then have "allocates S ok live extended (allocate_standard S)" using assms(1) by (simp add: sri_laws_def)
  then show ?thesis by (rule allocatesD) (use assms False in simp_all)
qed

lemma sri_release:
  "\<lbrakk>sri_laws S ok live; ok a; index_of S p \<in> live a\<rbrakk> \<Longrightarrow> ok (release S p a) \<and> live (release S p a) = live a - {index_of S p}"
  by (simp add: sri_laws_def releases_def)

lemma sri_target:
  assumes "sri_laws S ok live" "hash_rate_to_target S h r = Some t"
  shows "length t = 32"
proof -
  have "case hash_rate_to_target S h r of Some t \<Rightarrow> length t = 32 | None \<Rightarrow> True" using assms(1) by (simp add: sri_laws_def)
  then show ?thesis by (simp add: assms(2))
qed

lemma sri_work_selection: "sri_laws S ok live \<Longrightarrow> has_work_selection S f \<longleftrightarrow> bit f 1"
  by (simp add: sri_laws_def)

section \<open>The invariant of a manager\<close>

definition channel_index :: "('a, 'p, 'g) sri \<Rightarrow> 'p OpenedChannel \<Rightarrow> bytes" where
  "channel_index S ch = index_of S (oc_extranonce_prefix ch)"

definition mgr_ok ::
  "('a, 'p, 'g) sri \<Rightarrow> ('a \<Rightarrow> bool) \<Rightarrow> ('a \<Rightarrow> bytes set) \<Rightarrow> fl \<Rightarrow> bytes \<Rightarrow> ('a, 'p) ChannelManager \<Rightarrow> bool" where
  "mgr_ok S ok live threshold min_target m \<longleftrightarrow>
     ok (cm_allocator m) \<and> live (cm_allocator m) = channel_index S ` ran (cm_channels m)
   \<and> inj_on (\<lambda>cid. channel_index S (the (cm_channels m cid))) (dom (cm_channels m))
   \<and> (\<forall>cid ch. cm_channels m cid = Some ch \<longrightarrow> oc_channel_id ch = cid \<and> prefix_shape S (oc_is_extended ch) (oc_extranonce_prefix ch)
        \<and> \<not> hashrate_refused (oc_nominal_hash_rate ch) threshold \<and> oc_user_identity ch \<noteq> [])
   \<and> cm_min_hashrate_threshold m = threshold \<and> cm_min_target_le m = min_target"

lemma mgr_okD:
  assumes "mgr_ok S ok live th mt m"
  shows "ok (cm_allocator m)" "live (cm_allocator m) = channel_index S ` ran (cm_channels m)"
    "cm_channels m cid = Some ch \<Longrightarrow> oc_channel_id ch = cid \<and> prefix_shape S (oc_is_extended ch) (oc_extranonce_prefix ch)
        \<and> \<not> hashrate_refused (oc_nominal_hash_rate ch) th \<and> oc_user_identity ch \<noteq> []"
    "\<lbrakk>cm_channels m i = Some a; cm_channels m j = Some b; channel_index S a = channel_index S b\<rbrakk> \<Longrightarrow> i = j"
    "cm_min_hashrate_threshold m = th" "cm_min_target_le m = mt"
  using assms by (auto simp: mgr_ok_def inj_on_def dom_def)

lemma mgr_okI:
  assumes "ok (cm_allocator m)" "live (cm_allocator m) = channel_index S ` ran (cm_channels m)"
    "\<And>cid ch. cm_channels m cid = Some ch \<Longrightarrow> oc_channel_id ch = cid \<and> prefix_shape S (oc_is_extended ch) (oc_extranonce_prefix ch)
        \<and> \<not> hashrate_refused (oc_nominal_hash_rate ch) th \<and> oc_user_identity ch \<noteq> []"
    "\<And>i j a b. \<lbrakk>cm_channels m i = Some a; cm_channels m j = Some b; channel_index S a = channel_index S b\<rbrakk> \<Longrightarrow> i = j"
    "cm_min_hashrate_threshold m = th" "cm_min_target_le m = mt"
  shows "mgr_ok S ok live th mt m"
  unfolding mgr_ok_def inj_on_def dom_def using assms by fastforce

lemma ran_index: "i \<in> channel_index S ` ran f \<longleftrightarrow> (\<exists>cid ch. f cid = Some ch \<and> i = channel_index S ch)"
  by (auto simp: ran_def)

lemma image_ran_remove:
  assumes "f k = Some x" "\<And>i a. f i = Some a \<Longrightarrow> g a = g x \<Longrightarrow> i = k"
  shows "g ` ran (f(k := None)) = g ` ran f - {g x}"
proof (rule set_eqI)
  fix y
  have "y \<in> g ` ran (f(k := None)) \<longleftrightarrow> (\<exists>i a. i \<noteq> k \<and> f i = Some a \<and> y = g a)" by (auto simp: ran_def)
  moreover have "y \<in> g ` ran f \<longleftrightarrow> (\<exists>i a. f i = Some a \<and> y = g a)" by (auto simp: ran_def)
  ultimately show "y \<in> g ` ran (f(k := None)) \<longleftrightarrow> y \<in> g ` ran f - {g x}" using assms by (metis Diff_iff option.inject singletonD singletonI)
qed

lemma map_update_inj:
  assumes "\<And>i j a b. f i = Some a \<Longrightarrow> f j = Some b \<Longrightarrow> g a = g b \<Longrightarrow> i = j" "\<And>i b. f i = Some b \<Longrightarrow> g b \<noteq> g x"
    and "(f(k \<mapsto> x)) i = Some a" "(f(k \<mapsto> x)) j = Some b" "g a = g b"
  shows "i = j"
  using assms(3-5) assms(1) assms(2) [of i a] assms(2) [of j b] by (cases "i = k"; cases "j = k") auto

lemma mgr_new:
  assumes "sri_laws S ok live" "with_policy S th rate = Some m"
  shows "mgr_ok S ok live th (compute_min_target_le S th rate) m"
proof -
  from assms(2) obtain a where "alloc_new S [] TOTAL_EXTRANONCE_LEN MAX_CHANNELS = Some a"
    and m: "m = \<lparr>cm_allocator = a, cm_channels = Map.empty, cm_next_channel_id = 1, cm_next_job_id = 1,
      cm_min_hashrate_threshold = th, cm_min_target_le = compute_min_target_le S th rate\<rparr>"
    by (auto simp: with_policy_def split: option.splits)
  with sri_new [OF assms(1)] show ?thesis by (auto intro!: mgr_okI)
qed

lemma mgr_counters:
  "mgr_ok S ok live th mt (m\<lparr>cm_next_channel_id := c, cm_next_job_id := j\<rparr>) = mgr_ok S ok live th mt m"
  by (simp add: mgr_ok_def)

lemma mgr_close:
  assumes "sri_laws S ok live" "mgr_ok S ok live th mt m"
  shows "mgr_ok S ok live th mt (handle_close_channel S cid m)"
proof (cases "cm_channels m cid")
  case None
  then show ?thesis using assms(2) by (simp add: handle_close_channel_def)
next
  case (Some ch)
  note d = mgr_okD [OF assms(2)]
  have inl: "index_of S (oc_extranonce_prefix ch) \<in> live (cm_allocator m)"
    using d(2) Some by (auto simp: channel_index_def ran_def)
  note r = sri_release [OF assms(1) d(1) inl]
  have m': "handle_close_channel S cid m = m\<lparr>cm_channels := (cm_channels m)(cid := None),
      cm_allocator := release S (oc_extranonce_prefix ch) (cm_allocator m)\<rparr>"
    by (simp add: handle_close_channel_def Some)
  have "channel_index S ` ran ((cm_channels m)(cid := None)) = channel_index S ` ran (cm_channels m) - {channel_index S ch}"
    by (rule image_ran_remove) (use Some d(4) in auto)
  then show ?thesis
    unfolding m' using r d by (intro mgr_okI) (auto simp: channel_index_def split: if_splits)
qed

lemma mgr_insert:
  assumes "sri_laws S ok live" "mgr_ok S ok live th mt m"
    and al: "(if oc_is_extended ch then allocate_extended S 10 (cm_allocator m) else allocate_standard S (cm_allocator m)) = Some (oc_extranonce_prefix ch, a)"
    and "oc_channel_id ch = cid" "\<not> hashrate_refused (oc_nominal_hash_rate ch) th" "oc_user_identity ch \<noteq> []"
  shows "mgr_ok S ok live th mt (insert_channel S cid ch (m\<lparr>cm_allocator := a\<rparr>))"
proof -
  note d = mgr_okD [OF assms(2)]
  note n = sri_allocate [OF assms(1) d(1) al]
  let ?i = "channel_index S ch"
  define f where "f = cm_channels m"
  have new: "channel_index S b \<noteq> ?i" if "f i = Some b" for i b
  proof -
    have "channel_index S b \<in> live (cm_allocator m)" unfolding d(2) using that by (auto simp: f_def ran_def)
    then show ?thesis using n by (auto simp: channel_index_def)
  qed
  let ?m' = "insert_channel S cid ch (m\<lparr>cm_allocator := a\<rparr>)"
  have inj: "i = j" if "(f(cid \<mapsto> ch)) i = Some b" "(f(cid \<mapsto> ch)) j = Some c" "channel_index S b = channel_index S c" for i j b c
    using map_update_inj [of f "channel_index S" ch cid i b j c] d(4) new that by (simp add: f_def)
  have m': "cm_channels ?m' = f(cid \<mapsto> ch)" "cm_min_hashrate_threshold ?m' = th" "cm_min_target_le ?m' = mt"
    using d(5,6) by (simp_all add: insert_channel_def f_def)
  have each: "oc_channel_id b = i \<and> prefix_shape S (oc_is_extended b) (oc_extranonce_prefix b)
      \<and> \<not> hashrate_refused (oc_nominal_hash_rate b) th \<and> oc_user_identity b \<noteq> []" if "(f(cid \<mapsto> ch)) i = Some b" for i b
    using that d(3) [of i b] n assms(4-6) by (auto simp: f_def split: if_splits)
  have al: "ok (cm_allocator ?m') \<and> live (cm_allocator ?m') = channel_index S ` ran (f(cid \<mapsto> ch))"
  proof (cases "f cid")
    case None
    then have "channel_index S ` ran (f(cid \<mapsto> ch)) = insert ?i (channel_index S ` ran f)" by (simp add: ran_map_upd)
    then show ?thesis
      using None n d(2) by (simp add: insert_channel_def f_def channel_index_def)
  next
    case (Some old)
    have o: "index_of S (oc_extranonce_prefix old) \<in> live a"
      using n d(2) Some by (auto simp: f_def channel_index_def ran_def)
    note r = sri_release [OF assms(1) n [THEN conjunct1] o]
    have "channel_index S ` ran (f(cid := None)) = channel_index S ` ran f - {channel_index S old}"
      unfolding f_def by (rule image_ran_remove) (use Some d(4) in \<open>auto simp: f_def\<close>)
    moreover have "channel_index S ` ran (f(cid \<mapsto> ch)) = insert ?i (channel_index S ` ran (f(cid := None)))"
      by (metis fun_upd_same fun_upd_upd image_insert ran_map_upd)
    moreover have "?i \<noteq> channel_index S old" using new [OF Some] by simp
    ultimately have "channel_index S ` ran (f(cid \<mapsto> ch)) = live (release S (oc_extranonce_prefix old) a)"
      using r n d(2) by (auto simp: channel_index_def f_def)
    then show ?thesis using Some r by (simp add: insert_channel_def f_def)
  qed
  show ?thesis
  proof (rule mgr_okI)
    show "ok (cm_allocator ?m')" "live (cm_allocator ?m') = channel_index S ` ran (cm_channels ?m')"
      using al m'(1) by simp_all
  next
    fix i b assume "cm_channels ?m' i = Some b"
    then show "oc_channel_id b = i \<and> prefix_shape S (oc_is_extended b) (oc_extranonce_prefix b)
      \<and> \<not> hashrate_refused (oc_nominal_hash_rate b) th \<and> oc_user_identity b \<noteq> []"
      unfolding m'(1) by (rule each)
  next
    fix i j b c assume "cm_channels ?m' i = Some b" "cm_channels ?m' j = Some c" "channel_index S b = channel_index S c"
    then show "i = j" unfolding m'(1) by (rule inj)
  qed (fact m')+
qed

lemma mgr_open_result:
  assumes "sri_laws S ok live" "mgr_ok S ok live th mt m" "open_result X S tmpl msg extended m r"
  shows "mgr_ok S ok live th mt (snd r)"
  using assms(3)
proof cases
  case (refused code)
  then show ?thesis using assms(2) by simp
next
  case (unencodable p a)
  note d = mgr_okD [OF assms(2)]
  note n = sri_allocate [OF assms(1) d(1) unencodable(2)]
  then have "ok (release S p a) \<and> live (release S p a) = live a - {index_of S p}" by (intro sri_release [OF assms(1)]) simp_all
  then show ?thesis using n d by (simp add: unencodable mgr_counters) (intro mgr_okI; simp)
next
  case (opened t p a reply job)
  let ?ch = "\<lparr>oc_channel_id = cm_next_channel_id m, oc_user_identity = om_user_identity msg, oc_is_extended = extended,
        oc_extranonce_prefix = p, oc_last_job_id = cm_next_job_id m, oc_nominal_hash_rate = om_nominal_hash_rate msg,
        oc_max_target_le = om_max_target msg\<rparr>"
  have "mgr_ok S ok live th mt (insert_channel S (cm_next_channel_id m) ?ch (m\<lparr>cm_allocator := a\<rparr>))"
    using opened mgr_okD(5) [OF assms(2)] by (intro mgr_insert [OF assms(1,2)]) simp_all
  moreover have "opens_channel S msg extended p a m =
      (insert_channel S (cm_next_channel_id m) ?ch (m\<lparr>cm_allocator := a\<rparr>))\<lparr>cm_next_channel_id := cm_next_channel_id m + 1,
        cm_next_job_id := cm_next_job_id m + 1\<rparr>"
    by (simp add: opens_channel_def insert_channel_def split: option.splits)
  ultimately show ?thesis by (simp only: opened snd_conv mgr_counters)
qed

section \<open>Runs of a connection\<close>

text \<open>The events, each with the shared values as the rest of the gateway has left them when it
  arrives; the run ends with the first error or close.\<close>

fun sv2_run ::
  "libs \<Rightarrow> ('a, 'p, 'g) sri \<Rightarrow> ('a, 'p, 'g) Sv2Conn \<Rightarrow> (Sv2Shared \<times> sv2_event) list \<Rightarrow> Sv2Out list \<times> ('a, 'p, 'g) Sv2Conn" where
  "sv2_run X S c [] = ([], c)"
| "sv2_run X S c ((sh, ev) # evs) =
     (case sv2_step X S ev sh c of
        (Inl e, sh', c') \<Rightarrow> ([], c')
      | (Inr out, sh', c') \<Rightarrow> (let (outs, c'') = sv2_run X S c' evs in (out # outs, c'')))"

lemma image_ran_same:
  assumes "f k = Some x" "g y = g x"
  shows "g ` ran (f(k \<mapsto> y)) = g ` ran f"
proof (rule set_eqI)
  fix z
  have e: "z \<in> g ` ran h \<longleftrightarrow> (\<exists>i a. h i = Some a \<and> z = g a)" for h by (auto simp: ran_def)
  show "z \<in> g ` ran (f(k \<mapsto> y)) \<longleftrightarrow> z \<in> g ` ran f"
    unfolding e using assms by (metis fun_upd_apply option.inject)
qed

lemma mgr_update_last_job:
  assumes "mgr_ok S ok live th mt m" "cm_channels m cid = Some ch"
  shows "mgr_ok S ok live th mt (m\<lparr>cm_channels := (cm_channels m)(cid \<mapsto> ch\<lparr>oc_last_job_id := j\<rparr>)\<rparr>)"
proof -
  note d = mgr_okD [OF assms(1)]
  let ?ch = "ch\<lparr>oc_last_job_id := j\<rparr>"
  have i: "channel_index S ?ch = channel_index S ch" by (simp add: channel_index_def)
  define f where "f = cm_channels m"
  have r: "channel_index S ` ran (f(cid \<mapsto> ?ch)) = channel_index S ` ran f"
    unfolding f_def by (rule image_ran_same) (fact assms(2), fact i)
  have s: "\<exists>b'. f k = Some b' \<and> channel_index S b' = channel_index S b" if "(f(cid \<mapsto> ?ch)) k = Some b" for k b
    using that assms(2) i by (auto simp: f_def split: if_splits)
  have inj: "k = l" if "(f(cid \<mapsto> ?ch)) k = Some b" "(f(cid \<mapsto> ?ch)) l = Some c" "channel_index S b = channel_index S c" for k l b c
    using s [OF that(1)] s [OF that(2)] that(3) d(4) by (metis f_def)
  let ?m' = "m\<lparr>cm_channels := f(cid \<mapsto> ?ch)\<rparr>"
  have m': "cm_channels ?m' = f(cid \<mapsto> ?ch)" by simp
  have "mgr_ok S ok live th mt ?m'"
  proof (rule mgr_okI)
    show "live (cm_allocator ?m') = channel_index S ` ran (cm_channels ?m')" using d(2) r by (simp add: f_def)
  next
    fix k b assume "cm_channels ?m' k = Some b"
    then show "oc_channel_id b = k \<and> prefix_shape S (oc_is_extended b) (oc_extranonce_prefix b)
        \<and> \<not> hashrate_refused (oc_nominal_hash_rate b) th \<and> oc_user_identity b \<noteq> []"
      using d(3) [of k b] d(3) [OF assms(2)] by (cases "k = cid") (auto simp: f_def)
  next
    fix k l b c assume "cm_channels ?m' k = Some b" "cm_channels ?m' l = Some c" "channel_index S b = channel_index S c"
    then show "k = l" unfolding m' by (rule inj)
  qed (use d in simp_all)
  then show ?thesis by (simp only: f_def)
qed

lemma mgr_template_update:
  "\<lbrakk>mgr_ok S ok live th mt m; on_template_update X S t ids m = (outs, m')\<rbrakk> \<Longrightarrow> mgr_ok S ok live th mt m'"
proof (induction ids arbitrary: m outs)
  case (Cons cid ids)
  let ?m1 = "m\<lparr>cm_next_job_id := cm_next_job_id m + 1\<rparr>"
  have m1: "mgr_ok S ok live th mt ?m1" using Cons.prems(1) by (simp add: mgr_ok_def)
  let ?m2 = "case cm_channels ?m1 cid of None \<Rightarrow> ?m1
    | Some c \<Rightarrow> ?m1\<lparr>cm_channels := (cm_channels ?m1)(cid \<mapsto> c\<lparr>oc_last_job_id := cm_next_job_id m\<rparr>)\<rparr>"
  have "mgr_ok S ok live th mt ?m2"
  proof (cases "cm_channels ?m1 cid")
    case None
    then show ?thesis using m1 by simp
  next
    case (Some c)
    show ?thesis unfolding Some option.case by (rule mgr_update_last_job [OF m1 Some])
  qed
  moreover obtain rest where "on_template_update X S t ids ?m2 = (rest, m')"
    using Cons.prems(2) by (auto simp: Let_def split: prod.splits)
  ultimately show ?case by (rule Cons.IH)
qed simp

lemma submit_keeps_mgr:
  "dispatch_frame X S (SubmitStandard share) sh c = (r, sh', c') \<Longrightarrow> co_mgr c' = co_mgr c"
  "dispatch_frame X S (SubmitExtended share) sh c = (r, sh', c') \<Longrightarrow> co_mgr c' = co_mgr c"
  by (auto simp: dispatch_frame_def handle_submit_standard_def handle_submit_extended_def after_share_def Let_def
      split: option.splits if_splits prod.splits)

lemma dispatch_mgr:
  assumes "sri_laws S ok live" "mgr_ok S ok live th mt (co_mgr c)" "dispatch_frame X S msg sh c = (r, sh', c')"
  shows "mgr_ok S ok live th mt (co_mgr c')"
proof (cases msg)
  case (OpenStandard m)
  note h = mgr_open_result [OF assms(1,2) open_standard_result [of X S "sh_template sh" m]]
  then show ?thesis using assms(3) by (auto simp: OpenStandard dispatch_frame_def opened_def split: prod.splits)
next
  case (OpenExtended m)
  note h = mgr_open_result [OF assms(1,2) open_extended_result [of X S "sh_template sh" m]]
  then show ?thesis using assms(3) by (auto simp: OpenExtended dispatch_frame_def opened_def split: prod.splits)
next
  case (CloseChannel cid)
  then show ?thesis using assms(3) mgr_close [OF assms(1,2)] by (auto simp: dispatch_frame_def)
next
  case (SubmitStandard share)
  then show ?thesis using submit_keeps_mgr(1) assms(2,3) by metis
next
  case (SubmitExtended share)
  then show ?thesis using submit_keeps_mgr(2) assms(2,3) by metis
qed (use assms(2,3) in \<open>auto simp: dispatch_frame_def\<close>)

lemma step_mgr:
  assumes "sri_laws S ok live" "mgr_ok S ok live th mt (co_mgr c)" "sv2_step X S ev sh c = (r, sh', c')"
  shows "mgr_ok S ok live th mt (co_mgr c')"
proof (cases ev)
  case (TemplateUpdate ids)
  then show ?thesis using assms(2,3) mgr_template_update [OF assms(2)]
    by (auto simp: sv2_step_def split: option.splits prod.splits)
next
  case (FrameReceived f)
  then show ?thesis using assms(2,3) dispatch_mgr [OF assms(1,2)]
    by (auto simp: sv2_step_def split: option.splits prod.splits)
qed (use assms(2,3) in \<open>auto simp: sv2_step_def\<close>)

lemma run_mgr:
  "\<lbrakk>sri_laws S ok live; mgr_ok S ok live th mt (co_mgr c); sv2_run X S c evs = (outs, c')\<rbrakk> \<Longrightarrow> mgr_ok S ok live th mt (co_mgr c')"
proof (induction evs arbitrary: c outs)
  case (Cons a evs)
  obtain sh ev where a: "a = (sh, ev)" by fastforce
  obtain r sh1 c1 where st: "sv2_step X S ev sh c = (r, sh1, c1)" by (metis prod_cases3)
  note k = step_mgr [OF Cons.prems(1,2) st]
  show ?case
  proof (cases r)
    case (Inl e)
    then show ?thesis using Cons.prems(3) k by (simp add: a st)
  next
    case (Inr out)
    then obtain rest where "sv2_run X S c1 evs = (rest, c')" using Cons.prems(3) by (auto simp: a st Let_def split: prod.splits)
    then show ?thesis using Cons.IH [OF Cons.prems(1) k] by blast
  qed
qed simp

lemma start_mgr:
  assumes "sri_laws S ok live" "start_connection S th rate f = Running reply c"
  shows "mgr_ok S ok live th (compute_min_target_le S th rate) (co_mgr c)"
  using assms(2) mgr_new [OF assms(1)]
  by (auto simp: start_connection_def Let_def split: first_frame.splits SetupConnectionResponse.splits option.splits)

section \<open>Disjoint search spaces\<close>

lemma full_extranonce_prefix:
  assumes "prefix_shape S extended p" "extended \<Longrightarrow> length x = 10" "\<not> extended \<Longrightarrow> x = []"
  shows "full_extranonce (prefix_bytes S p) x = (if extended then index_of S p @ x else prefix_bytes S p)"
    "length (full_extranonce (prefix_bytes S p) x) = 12" "take 2 (full_extranonce (prefix_bytes S p) x) = index_of S p"
  using assms by (cases extended; simp add: prefix_shape_def full_extranonce_def)+

text \<open>The extranonces that a share on a channel can have.\<close>

definition search_space :: "('a, 'p, 'g) sri \<Rightarrow> 'p OpenedChannel \<Rightarrow> bytes set" where
  "search_space S ch = {full_extranonce (prefix_bytes S (oc_extranonce_prefix ch)) x |x.
     if oc_is_extended ch then length x = 10 else x = []}"

lemma channels_disjoint:
  assumes "sri_laws S ok live" "start_connection S threshold rate f = Running reply c" "sv2_run X S c evs = (outs, c')"
    and "cm_channels (co_mgr c') i = Some a"
  shows "oc_channel_id a = i \<and> oc_user_identity a \<noteq> [] \<and> \<not> hashrate_refused (oc_nominal_hash_rate a) threshold
    \<and> (\<forall>j b. cm_channels (co_mgr c') j = Some b \<longrightarrow> i = j \<or> search_space S a \<inter> search_space S b = {})"
proof -
  have m: "mgr_ok S ok live threshold (compute_min_target_le S threshold rate) (co_mgr c')"
    by (rule run_mgr [OF assms(1) start_mgr [OF assms(1,2)] assms(3)])
  note d = mgr_okD [OF m]
  have sp: "take 2 x = channel_index S b" if x: "x \<in> search_space S b" and b: "cm_channels (co_mgr c') j = Some b" for x j b
  proof -
    obtain y where "x = full_extranonce (prefix_bytes S (oc_extranonce_prefix b)) y \<and> (if oc_is_extended b then length y = 10 else y = [])"
      using x unfolding search_space_def mem_Collect_eq by blast
    then show ?thesis
      using full_extranonce_prefix(3) [of S "oc_is_extended b" "oc_extranonce_prefix b" y] d(3) [OF b]
      by (simp add: channel_index_def split: if_splits)
  qed
  have "search_space S a \<inter> search_space S b = {}" if "cm_channels (co_mgr c') j = Some b" "i \<noteq> j" for j b
    using sp [OF _ assms(4)] sp [OF _ that(1)] d(4) [OF assms(4) that(1)] that(2) by fastforce
  then show ?thesis using d(3) [OF assms(4)] by blast
qed

text \<open>C15: The channels of a connection never search the same space: after any run of a connection,
  whatever was opened, closed and reopened and whatever the rest of the gateway did meanwhile, two
  open channels have no twelve-byte extranonce in common, every channel is filed under its own id,
  and only identified clients of at least the configured hash rate have a channel.\<close>

theorem sv2_channels_disjoint:
  assumes "sri_laws S ok live" "start_connection S threshold rate f = Running reply c" "sv2_run X S c evs = (outs, c')"
    and "cm_channels (co_mgr c') i = Some a"
  shows "oc_channel_id a = i \<and> oc_user_identity a \<noteq> [] \<and> \<not> hashrate_refused (oc_nominal_hash_rate a) threshold
    \<and> (\<forall>j b. cm_channels (co_mgr c') j = Some b \<longrightarrow> i = j \<or> search_space S a \<inter> search_space S b = {})"
  using channels_disjoint [OF assms] .

section \<open>A concrete stack for the witnesses\<close>

definition index_bytes :: "nat \<Rightarrow> bytes" where "index_bytes n = be_bytes 2 (of_nat n :: u16)"

definition ref_allocate :: "bytes \<Rightarrow> bytes list \<Rightarrow> (bytes \<times> bytes list) option" where
  "ref_allocate pad a =
     (case List.find (\<lambda>i. i \<notin> set a) (map index_bytes [0..<Suc (length a)]) of
        None \<Rightarrow> None | Some i \<Rightarrow> Some (i @ pad, i # a))"

definition ref_sri :: "(bytes list, bytes, nat) sri" where
  "ref_sri = \<lparr>alloc_new = \<lambda>u t n. Some [], allocate_extended = \<lambda>n. ref_allocate [], allocate_standard = ref_allocate (replicate 10 0),
     prefix_bytes = \<lambda>p. p, release = \<lambda>p a. removeAll (take 2 p) a,
     hash_rate_to_target = \<lambda>h r. Some (replicate 26 0 @ replicate 2 0xFF @ replicate 4 0),
     acct_new = \<lambda>n. 0, increment_rejected_shares = \<lambda>e g. g, should_acknowledge = \<lambda>g. False,
     last_share_sequence_number = \<lambda>g. 0, last_batch_accepted = \<lambda>g. 0, last_batch_work_sum = \<lambda>g. 0,
     has_work_selection = \<lambda>f. bit f 1\<rparr>"

lemma index_bytes_length [simp]: "length (index_bytes n) = 2" by (simp add: index_bytes_def)

lemma free_index: "List.find (\<lambda>i. i \<notin> set a) (map index_bytes ns) = Some i \<Longrightarrow> i \<notin> set a \<and> length i = 2"
  by (auto simp: find_Some_iff)

lemma ref_allocates:
  assumes "alloc = ref_allocate (if extended then [] else replicate 10 0)"
  shows "allocates ref_sri (\<lambda>a. True) set extended alloc"
  by (auto simp: allocates_def assms ref_allocate_def prefix_shape_def index_of_def ref_sri_def dest!: free_index
      split: option.splits simp del: upt_Suc)

lemma ref_sri_laws: "sri_laws ref_sri (\<lambda>a. True) set"
proof -
  have "allocates ref_sri (\<lambda>a. True) set True (allocate_extended ref_sri 10)"
    "allocates ref_sri (\<lambda>a. True) set False (allocate_standard ref_sri)"
    by (rule ref_allocates; simp add: ref_sri_def)+
  moreover have "releases ref_sri (\<lambda>a. True) set" by (simp add: releases_def ref_sri_def index_of_def)
  ultimately show ?thesis by (simp add: sri_laws_def) (simp add: ref_sri_def)
qed

definition sample_open :: OpenMsg where
  "sample_open = \<lparr>om_request_id = 7, om_user_identity = [0x75], om_nominal_hash_rate = Fin (10 ^ 13), om_max_target = replicate 32 0xFF\<rparr>"

definition small_state :: TemplateState where
  "small_state = \<lparr>prev_hash = replicate 32 0, height = 800000, nbits = [0x1d, 0, 0xff, 0xff], min_ntime = 0,
     ts_coinbase_value = 100, coinbase_outputs = [], coinb1 = [1, 3, 0xFF, 7], coinb2 = [9], merkle_branches = [],
     version = 0x20000000, job_id_seed = 5, target_pot_index = 2, datum_coinbaser_id = 0, block_target = replicate 32 0,
     txn_count = 0, txn_total_weight = 0, txn_total_size = 0, txn_total_sigops = 0, txn_data_hex = []\<rparr>"

definition sample_shared :: Sv2Shared where
  "sample_shared = \<lparr>sh_template = Some small_state, sh_tracker = tracker_new, sh_pad = 1, sh_upstream_open = True,
     sh_user_cfg = \<lparr>pool_address = [0x62], pass_full_users = True, pass_workers = True\<rparr>,
     sh_min_hashrate_threshold = DEFAULT_MIN_HASHRATE_THRESHOLD\<rparr>"

definition fresh_conn :: "(bytes list, bytes, nat) Sv2Conn" where
  "fresh_conn = \<lparr>co_mgr = \<lparr>cm_allocator = [], cm_channels = Map.empty, cm_next_channel_id = 1, cm_next_job_id = 1,
     cm_min_hashrate_threshold = DEFAULT_MIN_HASHRATE_THRESHOLD,
     cm_min_target_le = replicate 26 0 @ replicate 2 0xFF @ replicate 4 0\<rparr>, co_acct = 0\<rparr>"

lemma fresh_start:
  "start_connection ref_sri DEFAULT_MIN_HASHRATE_THRESHOLD DEFAULT_EXPECTED_SHARE_PER_MINUTE (Setup MiningProtocol 1)
     = Running (SetupSuccess 2 0) fresh_conn"
  by (simp add: start_connection_def handle_setup_connection_def ref_sri_def with_policy_def fresh_conn_def
      compute_min_target_le_def bit_1_iff)

definition sample_channel :: "u32 \<Rightarrow> bytes OpenedChannel" where
  "sample_channel i = \<lparr>oc_channel_id = i, oc_user_identity = [0x75], oc_is_extended = True, oc_extranonce_prefix = [0, ucast (i - 1)],
     oc_last_job_id = i, oc_nominal_hash_rate = Fin (10 ^ 13), oc_max_target_le = replicate 32 0xFF\<rparr>"

definition two_opens :: "(Sv2Shared \<times> sv2_event) list" where
  "two_opens = (let e = (sample_shared, FrameReceived (Some (OpenExtended sample_open))) in [e, e])"

lemma one_neq_two_u32: "(1 :: u32) \<noteq> 2" by simp

lemma sample_values: "be_bytes 2 (0 :: u16) = [0, 0]" "be_bytes 2 (1 :: u16) = [0, 1]" "utf8_valid [0x75]"
  by code_simp+

lemmas open_defs = sv2_step_def dispatch_frame_def opened_def handle_open_extended_mining_channel_def checked_open_def
  open_extended_inner_def is_client_authorized_def str_from_str0255_def hashrate_refused_def
  DEFAULT_MIN_HASHRATE_THRESHOLD_def build_new_extended_job_def ref_sri_def ref_allocate_def index_bytes_def
  insert_channel_def

lemma two_opens_run: "\<exists>outs c'. sv2_run plain_libs ref_sri fresh_conn two_opens = (outs, c')
   \<and> cm_channels (co_mgr c') = [1 \<mapsto> sample_channel 1, 2 \<mapsto> sample_channel 2]"
  by (simp add: two_opens_def open_defs sample_shared_def fresh_conn_def Let_def sample_open_def small_state_def
      clamp_target_to_min_hashrate_le_def sample_values sample_channel_def)

theorem sv2_channels_disjoint_witness:
  "oc_user_identity (sample_channel 1) \<noteq> [] \<and> search_space ref_sri (sample_channel 1) \<inter> search_space ref_sri (sample_channel 2) = {}"
proof -
  obtain outs c' where r: "sv2_run plain_libs ref_sri fresh_conn two_opens = (outs, c')"
    and c: "cm_channels (co_mgr c') = [1 \<mapsto> sample_channel 1, 2 \<mapsto> sample_channel 2]"
    using two_opens_run by blast
  have "cm_channels (co_mgr c') 1 = Some (sample_channel 1)" "cm_channels (co_mgr c') 2 = Some (sample_channel 2)"
    by (simp_all add: c)
  with sv2_channels_disjoint [OF ref_sri_laws fresh_start r, of 1 "sample_channel 1"] show ?thesis
    by (metis one_neq_two_u32)
qed

section \<open>Bounded targets\<close>

fun target_of :: "MiningOut \<Rightarrow> bytes option" where
  "target_of (OpenExtendedMiningChannelSuccess m) = Some (os_target m)"
| "target_of (OpenStandardMiningChannelSuccess m) = Some (os_target m)"
| "target_of (SetTarget c t) = Some t"
| "target_of m = None"

definition targets_within :: "bytes \<Rightarrow> MiningOut list \<Rightarrow> bool" where
  "targets_within mt ms \<longleftrightarrow> (\<forall>m \<in> set ms. \<forall>t. target_of m = Some t \<longrightarrow> length t = 32 \<and> le_nat t \<le> le_nat mt)"

lemma targets_within_simps [simp]:
  "targets_within mt []" "targets_within mt (m # ms) \<longleftrightarrow>
    (\<forall>t. target_of m = Some t \<longrightarrow> length t = 32 \<and> le_nat t \<le> le_nat mt) \<and> targets_within mt ms"
  "targets_within mt (ms @ ns) \<longleftrightarrow> targets_within mt ms \<and> targets_within mt ns"
  by (auto simp: targets_within_def)

lemma open_targets:
  assumes "open_result X S tmpl msg extended m (outs, m')" "length (cm_min_target_le m) = 32"
  shows "targets_within (cm_min_target_le m) outs"
  using assms(1)
proof cases
  case (opened t p a reply job)
  have "target_of job = None" using opened by (auto split: if_splits)
  moreover have "length (os_target reply) = 32 \<and> le_nat (os_target reply) \<le> le_nat (cm_min_target_le m)"
    using clamp_min_hashrate [of "om_max_target msg" "cm_min_target_le m"] assms(2) opened by simp
  ultimately show ?thesis using opened(1) by simp
qed simp_all

lemma update_targets: "on_template_update X S t ids m = (outs, m') \<Longrightarrow> targets_within mt outs"
proof (induction ids arbitrary: m outs)
  case (Cons cid ids)
  then show ?case
    by (auto simp: Let_def targets_within_def split: prod.splits option.splits if_splits)
qed simp

lemma forward_targets: "forward_share_outcome S up cid seq oc g = Ok out \<Longrightarrow> targets_within mt (out_frames out)"
  by (auto simp: forward_share_outcome_def frames_def no_out_def build_submit_shares_success_def build_submit_shares_error_def
      targets_within_def split: ShareOutcome.splits if_splits)

lemma after_share_targets:
  "after_share S cid seq r sh c = (Ok out, sh', c') \<Longrightarrow> targets_within mt (out_frames out)"
  by (auto simp: after_share_def dest: forward_targets split: prod.splits)

lemma refusal_targets: "targets_within mt (out_frames (frames [build_submit_shares_error a b e]))"
  by (simp add: frames_def no_out_def build_submit_shares_error_def)

lemma submit_targets:
  "handle_submit_extended X S share sh c = (Ok out, sh', c') \<Longrightarrow> targets_within mt (out_frames out)"
  "handle_submit_standard X S share sh c = (Ok out, sh', c') \<Longrightarrow> targets_within mt (out_frames out)"
  by (auto simp: handle_submit_extended_def handle_submit_standard_def Let_def refusal_targets
      dest!: after_share_targets split: option.splits if_splits)

lemma dispatch_targets:
  assumes "dispatch_frame X S msg sh c = (Ok out, sh', c')" "length (cm_min_target_le (co_mgr c)) = 32"
  shows "targets_within (cm_min_target_le (co_mgr c)) (out_frames out)"
proof (cases msg)
  case (OpenStandard m)
  obtain outs m' where r: "handle_open_standard_mining_channel X S (sh_template sh) m (co_mgr c) = (outs, m')" by fastforce
  show ?thesis
    using open_targets [OF open_standard_result [of X S "sh_template sh" m "co_mgr c", unfolded r] assms(2)] assms(1)
    by (auto simp: OpenStandard dispatch_frame_def opened_def r frames_def no_out_def)
next
  case (OpenExtended m)
  obtain outs m' where r: "handle_open_extended_mining_channel S (sh_template sh) m (co_mgr c) = (outs, m')" by fastforce
  show ?thesis
    using open_targets [OF open_extended_result [of undefined S "sh_template sh" m "co_mgr c", unfolded r] assms(2)] assms(1)
    by (auto simp: OpenExtended dispatch_frame_def opened_def r frames_def no_out_def)
next
  case (UpdateChannel m)
  have "targets_within (cm_min_target_le (co_mgr c)) [case handle_update_channel m th (cm_min_target_le (co_mgr c)) of Inr out \<Rightarrow> out | Inl out \<Rightarrow> out]" for th
    using clamp_min_hashrate [of "um_maximum_target m" "cm_min_target_le (co_mgr c)"] assms(2)
    by (simp add: handle_update_channel_def)
  then show ?thesis using assms(1) by (auto simp: UpdateChannel dispatch_frame_def frames_def no_out_def)
next
  case (SubmitStandard share)
  then show ?thesis using submit_targets(2) assms(1) by (simp add: dispatch_frame_def)
next
  case (SubmitExtended share)
  then show ?thesis using submit_targets(1) assms(1) by (simp add: dispatch_frame_def)
qed (use assms in \<open>auto simp: dispatch_frame_def frames_def no_out_def handle_set_custom_mining_job_def\<close>)

lemma step_targets:
  assumes "sv2_step X S ev sh c = (Inr out, sh', c')" "length (cm_min_target_le (co_mgr c)) = 32"
  shows "targets_within (cm_min_target_le (co_mgr c)) (out_frames out)"
proof (cases ev)
  case (TemplateUpdate ids)
  then show ?thesis using assms(1) update_targets
    by (auto simp: sv2_step_def frames_def no_out_def split: option.splits prod.splits)
next
  case (FrameReceived f)
  then show ?thesis using assms dispatch_targets
    by (auto simp: sv2_step_def no_out_def map_err_Inr split: option.splits prod.splits)
qed (use assms in \<open>auto simp: sv2_step_def no_out_def split: if_splits\<close>)

lemma min_target_length: "sri_laws S ok live \<Longrightarrow> length (compute_min_target_le S th rate) = 32"
  by (auto simp: compute_min_target_le_def dest: sri_target split: option.splits)

lemma run_targets:
  "\<lbrakk>sri_laws S ok live; mgr_ok S ok live th mt (co_mgr c); length mt = 32; sv2_run X S c evs = (outs, c'); out \<in> set outs\<rbrakk>
    \<Longrightarrow> targets_within mt (out_frames out)"
proof (induction evs arbitrary: c outs)
  case (Cons a evs)
  obtain sh ev where a: "a = (sh, ev)" by fastforce
  obtain r sh1 c1 where st: "sv2_step X S ev sh c = (r, sh1, c1)" by (metis prod_cases3)
  note k = step_mgr [OF Cons.prems(1,2) st] and m = mgr_okD(6) [OF Cons.prems(2)]
  show ?case
  proof (cases r)
    case (Inl e)
    then show ?thesis using Cons.prems(4,5) by (simp add: a st)
  next
    case (Inr o1)
    then obtain rest where r: "sv2_run X S c1 evs = (rest, c')" "outs = o1 # rest"
      using Cons.prems(4) by (auto simp: a st Let_def split: prod.splits)
    have "targets_within mt (out_frames o1)"
      using step_targets [OF st [unfolded Inr]] Cons.prems(3) m by simp
    then show ?thesis using Cons.IH [OF Cons.prems(1) k Cons.prems(3) r(1)] Cons.prems(5) r(2) by auto
  qed
qed simp

text \<open>C16: No client gets work that is easier than the policy: in any run of a connection, every target
  that any reply carries (the two open replies and the answer to a channel update) is a 256-bit
  number that is at most the target of the configured minimum hash rate, whatever target the
  client asks for.\<close>

theorem sv2_targets_bounded:
  assumes "sri_laws S ok live" "start_connection S threshold rate f = Running reply c" "sv2_run X S c evs = (outs, c')"
    and "out \<in> set outs" "m \<in> set (out_frames out)" "target_of m = Some t"
  shows "length t = 32 \<and> le_nat t \<le> le_nat (compute_min_target_le S threshold rate)"
  using run_targets [OF assms(1) start_mgr [OF assms(1,2)] min_target_length [OF assms(1)] assms(3,4)] assms(5,6)
  by (simp add: targets_within_def)

text \<open>The witness: a client that asks for the easiest target there is.\<close>

theorem sv2_targets_bounded_witness:
  "\<exists>outs c' out m t. sv2_run plain_libs ref_sri fresh_conn two_opens = (outs, c') \<and> out \<in> set outs \<and> m \<in> set (out_frames out)
     \<and> target_of m = Some t \<and> length t = 32
     \<and> le_nat t \<le> le_nat (compute_min_target_le ref_sri DEFAULT_MIN_HASHRATE_THRESHOLD DEFAULT_EXPECTED_SHARE_PER_MINUTE)"
proof -
  let ?e = "(sample_shared, FrameReceived (Some (OpenExtended sample_open)))"
  obtain out m t sh1 c1 where st: "sv2_step plain_libs ref_sri (snd ?e) sample_shared fresh_conn = (Inr out, sh1, c1)"
    "m \<in> set (out_frames out)" "target_of m = Some t"
    by (simp add: open_defs sample_shared_def fresh_conn_def Let_def sample_open_def small_state_def
      clamp_target_to_min_hashrate_le_def sample_values frames_def no_out_def) fastforce
  obtain outs c' where r: "sv2_run plain_libs ref_sri fresh_conn two_opens = (outs, c')" by fastforce
  then have "out \<in> set outs" using st(1) by (auto simp: two_opens_def Let_def split: sum.splits prod.splits)
  with sv2_targets_bounded [OF ref_sri_laws fresh_start r _ st(2,3)] st r show ?thesis by blast
qed

section \<open>What becomes of a share\<close>

text \<open>The reply of the dispatcher in one expression: the first reason to refuse, if there is one.\<close>

definition refusal :: "('a, 'p, 'g) sri \<Rightarrow> bool \<Rightarrow> SharesExtended \<Rightarrow> JobTracker \<Rightarrow> ('a, 'p) ChannelManager \<Rightarrow> error_code option" where
  "refusal S extended share t m =
     (case cm_channels m (se_channel_id share) of
        None \<Rightarrow> Some SUBMIT_SHARES_INVALID_CHANNEL_ID
      | Some ch \<Rightarrow>
          if oc_is_extended ch \<noteq> extended
          then Some (if extended then SUBMIT_SHARES_BAD_EXTRANONCE_SIZE else SUBMIT_SHARES_INVALID_SHARE)
          else if extended \<and> length (se_extranonce share) \<noteq> 10 then Some SUBMIT_SHARES_BAD_EXTRANONCE_SIZE
          else if get_entry t (Sv2 (se_channel_id share) (se_job_id share)) = None then Some SUBMIT_SHARES_INVALID_JOB_ID
          else None)"

definition submit_of :: "bool \<Rightarrow> SharesExtended \<Rightarrow> sv2_msg" where
  "submit_of extended share = (if extended then SubmitExtended share else SubmitStandard share)"

text \<open>The inputs of the submission that an accepted share becomes.\<close>

definition share_inputs :: "('a, 'p, 'g) sri \<Rightarrow> bool \<Rightarrow> SharesExtended \<Rightarrow> 'p OpenedChannel \<Rightarrow> SubmittedShareInputs" where
  "share_inputs S extended share ch =
     \<lparr>si_username = oc_user_identity ch,
      si_extranonce = full_extranonce (prefix_bytes S (oc_extranonce_prefix ch)) (if extended then se_extranonce share else []),
      si_ntime = se_ntime share, si_nonce = se_nonce share, si_version = se_version share, si_current_diff = DISPATCH_DIFF,
      si_patched_coinb1 = None\<rparr>"

lemma submit_refused:
  assumes "refusal S extended share (sh_tracker sh) (co_mgr c) = Some code"
  shows "\<exists>c'. dispatch_frame X S (submit_of extended share) sh c =
    (Ok (frames [SubmitSharesError (se_channel_id share) (se_sequence_number share) code]), sh, c') \<and> co_mgr c' = co_mgr c"
proof -
  have "unat (10 :: u16) = 10" by simp
  then show ?thesis
    using assms
    by (cases extended)
      (auto simp: submit_of_def dispatch_frame_def refusal_def handle_submit_extended_def handle_submit_standard_def
        build_submit_shares_error_def after_share_def validate_extended_share_def validate_standard_share_def rejected_def
        finalize_share_def forward_share_outcome_def frames_def no_out_def Let_def split: option.splits if_splits)
qed

lemma submit_forwarded:
  assumes "refusal S extended share (sh_tracker sh) (co_mgr c) = None" "sh_upstream_open sh"
  shows "\<exists>ch entry out sh' c'. cm_channels (co_mgr c) (se_channel_id share) = Some ch
    \<and> get_entry (sh_tracker sh) (Sv2 (se_channel_id share) (se_job_id share)) = Some entry
    \<and> dispatch_frame X S (submit_of extended share) sh c = (Ok out, sh', c')
    \<and> out_shares out = [se_body (fst (build_share_submission X (share_inputs S extended share ch) entry (sh_user_cfg sh)
        (cross_protocol_coinbase_already_seen (sh_tracker sh) (current_seed (sh_template sh)) (jm_coinbase_id (je_meta entry)))
        (sh_pad sh)))]"
proof -
  have ten: "unat (10 :: u16) = 10" by simp
  obtain ch where ch: "cm_channels (co_mgr c) (se_channel_id share) = Some ch"
    using assms(1) by (auto simp: refusal_def split: option.splits)
  obtain entry where en: "get_entry (sh_tracker sh) (Sv2 (se_channel_id share) (se_job_id share)) = Some entry"
    using assms(1) by (auto simp: refusal_def split: option.splits if_splits)
  let ?b = "build_share_submission X (share_inputs S extended share ch) entry (sh_user_cfg sh)
        (cross_protocol_coinbase_already_seen (sh_tracker sh) (current_seed (sh_template sh)) (jm_coinbase_id (je_meta entry)))
        (sh_pad sh)"
  obtain enc e' pad where b: "?b = (enc, e', pad)" by (metis prod_cases3)
  have k: "oc_is_extended ch = extended" "extended \<Longrightarrow> length (se_extranonce share) = 10"
    using assms(1) ch by (auto simp: refusal_def split: option.splits if_splits)
  obtain out sh' c' where "dispatch_frame X S (submit_of extended share) sh c = (Ok out, sh', c')" "out_shares out = [se_body enc]"
    using ch en k b assms(2) ten
    by (cases extended; cases "se_block_submission enc")
      (auto simp: submit_of_def dispatch_frame_def handle_submit_extended_def handle_submit_standard_def after_share_def
        validate_extended_share_def validate_standard_share_def finalize_share_def forward_share_outcome_def frames_def no_out_def
        Let_def share_inputs_def)
  then show ?thesis using ch en b by auto
qed

text \<open>C17: The verdict on a share: the dispatcher answers with the first of the listed reasons to
  refuse it (no such channel, the wrong kind of channel, an extranonce that is not ten bytes, no
  such job), in one error reply that names the share, without touching the shared state or the
  channels; and every other share, whatever its hash and however often it was sent before,
  becomes exactly one submission to the pool, built from the fields of the share and the
  extranonce prefix and user of its channel.\<close>

theorem sv2_submit_exact:
  assumes "sh_upstream_open sh"
  shows "case refusal S extended share (sh_tracker sh) (co_mgr c) of
      Some code \<Rightarrow> \<exists>c'. dispatch_frame X S (submit_of extended share) sh c =
        (Ok (frames [SubmitSharesError (se_channel_id share) (se_sequence_number share) code]), sh, c') \<and> co_mgr c' = co_mgr c
    | None \<Rightarrow> \<exists>ch entry out sh' c'. cm_channels (co_mgr c) (se_channel_id share) = Some ch
        \<and> get_entry (sh_tracker sh) (Sv2 (se_channel_id share) (se_job_id share)) = Some entry
        \<and> dispatch_frame X S (submit_of extended share) sh c = (Ok out, sh', c')
        \<and> out_shares out = [se_body (fst (build_share_submission X (share_inputs S extended share ch) entry (sh_user_cfg sh)
            (cross_protocol_coinbase_already_seen (sh_tracker sh) (current_seed (sh_template sh)) (jm_coinbase_id (je_meta entry)))
            (sh_pad sh)))]"
  using submit_refused [of S extended share sh c] submit_forwarded [OF _ assms, of S extended share c X]
  by (cases "refusal S extended share (sh_tracker sh) (co_mgr c)") simp_all

section \<open>The job that an open reply announces\<close>

lemma open_extended_opened:
  assumes "dispatch_frame X S (OpenExtended msg) sh c = (Ok out, sh1, c1)"
    and "out_frames out = [OpenExtendedMiningChannelSuccess reply, NewExtendedMiningJob job, SetNewPrevHash ph]"
  obtains t p a where "sh_template sh = Some t" "os_extranonce_prefix reply = prefix_bytes S p"
    "build_new_extended_job (os_channel_id reply) (xj_job_id job) t = Some job"
    "ph = build_set_new_prev_hash (os_channel_id reply) (xj_job_id job) t"
    "sh1 = sh\<lparr>sh_tracker := tracker_insert (sh_tracker sh) (Sv2 (os_channel_id reply) (xj_job_id job))
       (job_meta_from_template t 0 0) (job_id_seed t)\<rparr>"
    "co_mgr c1 = opens_channel S msg True p a (co_mgr c)" "os_channel_id reply = cm_next_channel_id (co_mgr c)"
    "xj_channel_id job = cm_next_channel_id (co_mgr c)" "xj_job_id job = cm_next_job_id (co_mgr c)"
proof -
  obtain outs m' where r: "handle_open_extended_mining_channel S (sh_template sh) msg (co_mgr c) = (outs, m')" by fastforce
  have d: "outs = out_frames out" "sh1 = sh\<lparr>sh_tracker := seed_job_tracker (sh_template sh) outs (sh_tracker sh)\<rparr>" "c1 = c\<lparr>co_mgr := m'\<rparr>"
    using assms(1) by (auto simp: dispatch_frame_def opened_def r frames_def no_out_def)
  show ?thesis
    using open_extended_result [of undefined S "sh_template sh" msg "co_mgr c", unfolded r]
  proof cases
    case (opened t p a rep j)
    obtain b where b: "build_new_extended_job (cm_next_channel_id (co_mgr c)) (cm_next_job_id (co_mgr c)) t = Some b"
      using opened by blast
    have id: "xj_job_id b = cm_next_job_id (co_mgr c)" "xj_channel_id b = cm_next_channel_id (co_mgr c)"
      using b by (auto simp: build_new_extended_job_def split: if_splits)
    have e: "reply = rep" "job = b" "ph = build_set_new_prev_hash (cm_next_channel_id (co_mgr c)) (cm_next_job_id (co_mgr c)) t"
      using opened(1) opened b d(1) assms(2) by simp_all
    show ?thesis
      by (rule that [of t p a])
        (use opened e id b d assms(2) in \<open>simp_all add: seed_job_tracker_def\<close>)
  qed (use d assms(2) in auto)
qed

lemma open_extended_ids:
  assumes "dispatch_frame X S (OpenExtended msg) sh c = (Ok out, sh1, c1)"
    and "out_frames out = [OpenExtendedMiningChannelSuccess reply, NewExtendedMiningJob job, SetNewPrevHash ph]"
  shows "os_channel_id reply = cm_next_channel_id (co_mgr c)" "xj_channel_id job = cm_next_channel_id (co_mgr c)"
    "xj_job_id job = cm_next_job_id (co_mgr c)"
  by (rule open_extended_opened [OF assms], assumption)+

text \<open>What a miner hashes for a share of the job: the coinbase from the job's two halves and the
  channel's prefix, and the header over the job's merkle path and the activated previous hash.\<close>

definition mined_coinbase :: "ExtJob \<Rightarrow> OpenSuccess \<Rightarrow> SharesExtended \<Rightarrow> bytes" where
  "mined_coinbase job reply share =
     xj_coinbase_tx_prefix job @ os_extranonce_prefix reply @ se_extranonce share @ xj_coinbase_tx_suffix job"

definition mined_header :: "libs \<Rightarrow> bytes \<Rightarrow> ExtJob \<Rightarrow> PrevHash \<Rightarrow> SharesExtended \<Rightarrow> bytes" where
  "mined_header X coinbase job ph share =
     le_bytes 4 (se_version share) @ ph_prev_hash ph @ climb X (double_sha256 X coinbase) (xj_merkle_path job)
     @ le_bytes 4 (se_ntime share) @ le_bytes 4 (ph_nbits ph) @ le_bytes 4 (se_nonce share)"

lemma le_bytes_be_word: "length bs = 4 \<Longrightarrow> le_bytes 4 (be_word bs :: u32) = rev bs"
  by (simp add: be_word_def le_bytes_le_word_n)

lemma floor_pot_8: "floor_pot 8 = 3"
  using floor_pot_unique [of 3 8] by (simp add: word_unat_eq_iff)

lemma get_inserted: "get_entry (tracker_insert t k m s) k = Some (new_entry m s)"
  by (simp add: tracker_insert_def get_entry_def Let_def update_conv')

lemma full_extranonce_exact: "\<lbrakk>length p = 2; length e = 10\<rbrakk> \<Longrightarrow> full_extranonce p e = p @ e"
  by (simp add: full_extranonce_def)

lemma tracked_header:
  assumes "build_new_extended_job cid jid t = Some job" "ph = build_set_new_prev_hash cid jid t"
    and "oc_extranonce_prefix ch = p" "os_extranonce_prefix reply = prefix_bytes S p"
    and "length (os_extranonce_prefix reply) = 2" "length (se_extranonce share) = 10"
    and "unat (target_pot_index t) < length (coinb1 t)" "length (nbits t) = 4"
  shows "share_header X (job_meta_from_template t 0 0) (share_inputs S True share ch)
    = mined_header X ((mined_coinbase job reply share)[unat (target_pot_index t) := 3]) job ph share"
  using assms
  by (auto simp: share_header_def share_inputs_def mined_header_def mined_coinbase_def job_meta_from_template_def
      build_new_extended_job_def build_set_new_prev_hash_def le_bytes_be_word merkle_root_climb coinb1_of_share_def
      DISPATCH_DIFF_def floor_pot_8 full_extranonce_exact list_update_append1 Let_def split: if_splits)

lemma extended_job_halves:
  "build_new_extended_job cid jid t = Some job \<Longrightarrow> xj_coinbase_tx_prefix job = coinb1 t \<and> xj_coinbase_tx_suffix job = coinb2 t"
  by (auto simp: build_new_extended_job_def split: if_splits)

text \<open>What the pool reads and what was mined, for a share on an extended job.\<close>

lemma extended_views:
  assumes "build_new_extended_job cid jid t = Some job" "ph = build_set_new_prev_hash cid jid t"
    and "oc_extranonce_prefix ch = p" "os_extranonce_prefix reply = prefix_bytes S p" "length (os_extranonce_prefix reply) = 2"
    and "length (se_extranonce share) = 10" "unat (target_pot_index t) < length (coinb1 t)"
  defines "m \<equiv> job_meta_from_template t 0 0" and "i \<equiv> share_inputs S True share ch" and "pot \<equiv> unat (target_pot_index t)"
  shows "pool_coinbase (job_of_meta m) (coinbase_of_meta m) (share_prefix_of X m i) = (mined_coinbase job reply share)[pot := 3]"
    "length (nbits t) = 4 \<Longrightarrow> pool_header X (job_of_meta m) (coinbase_of_meta m) (share_prefix_of X m i)
      = mined_header X ((mined_coinbase job reply share)[pot := 3]) job ph share"
    "coinb1 t ! pot \<noteq> 3 \<Longrightarrow> (mined_coinbase job reply share)[pot := 3] \<noteq> mined_coinbase job reply share"
proof -
  have halves: "xj_coinbase_tx_prefix job = coinb1 t" "xj_coinbase_tx_suffix job = coinb2 t"
    using extended_job_halves [OF assms(1)] by simp_all
  have none: "si_patched_coinb1 i = None" by (simp add: i_def share_inputs_def)
  show "pool_coinbase (job_of_meta m) (coinbase_of_meta m) (share_prefix_of X m i) = (mined_coinbase job reply share)[pot := 3]"
    using assms(3-7) halves
    by (simp add: pool_coinbase_def job_of_meta_def coinbase_of_meta_def share_prefix_of_def mined_coinbase_def floor_pot_8
        job_meta_from_template_def share_inputs_def DISPATCH_DIFF_def full_extranonce_exact list_update_append1 m_def i_def pot_def)
  show "pool_header X (job_of_meta m) (coinbase_of_meta m) (share_prefix_of X m i)
      = mined_header X ((mined_coinbase job reply share)[pot := 3]) job ph share" if "length (nbits t) = 4"
    using rebuilds_header [where share = i and m = m and X = X] none that
      tracked_header [OF assms(1,2,3,4,5,6,7)] unfolding m_def i_def pot_def by simp
  show "(mined_coinbase job reply share)[pot := 3] \<noteq> mined_coinbase job reply share" if "coinb1 t ! pot \<noteq> 3"
  proof
    assume "(mined_coinbase job reply share)[pot := 3] = mined_coinbase job reply share"
    then have "mined_coinbase job reply share ! pot = 3" using assms(7) halves(1)
      by (metis (no_types, lifting) length_append mined_coinbase_def nth_list_update_eq trans_less_add1 pot_def)
    then show False using that halves(1) assms(7) by (simp add: mined_coinbase_def nth_append pot_def)
  qed
qed

text \<open>C14: The header that the pool checks for a Stratum V2 share: when an extended open has announced a
  job and its first share follows it, and the coinbase of its template has not been sent for any
  other job since the flags were last reset (the cross-protocol sentinel; where it has, the coinbase
  is left out of the submission), the user's formatted name has no NUL byte, the template's parts
  fit their length fields and its proof-of-target offset lies in its first half, the queue to the pool is open, and the extranonce has 2 bytes of prefix and
  10 from the miner, then the pool reads from the forwarded submission the job and the
  coinbase, and the header it rebuilds is the one that the miner hashed from the messages of this
  server (previous hash, target bits and merkle path included), except that the coinbase carries 3
  (the exponent of the fixed difficulty 8) at the proof-of-target offset.  The job sent to the
  miner carries the template's placeholder there, so whenever that byte is not 3 the pool checks
  a coinbase that the miner never hashed.\<close>

theorem sv2_pool_checks_other_coinbase:
  assumes opened: "dispatch_frame X S (OpenExtended msg) sh c = (Ok out, sh1, c1)"
      "out_frames out = [OpenExtendedMiningChannelSuccess reply, NewExtendedMiningJob job, SetNewPrevHash ph]"
    and state: "sh_template sh = Some t" "meta_fits (job_meta_from_template t 0 0)" "sh_upstream_open sh"
      "unat (target_pot_index t) < length (coinb1 t)"
      "\<not> cross_protocol_coinbase_already_seen (sh_tracker sh) (job_id_seed t) 0"
      "0 \<notin> set (format_share_username (om_user_identity msg) (sh_user_cfg sh))"
    and share: "se_channel_id share = os_channel_id reply" "se_job_id share = xj_job_id job"
      "length (se_extranonce share) = 10" "length (os_extranonce_prefix reply) = 2"
  shows "\<exists>out2 sh2 c2 body sub j cb. dispatch_frame X S (SubmitExtended share) sh1 c1 = (Ok out2, sh2, c2)
    \<and> out_shares out2 = [body] \<and> read_submission body = Some sub \<and> sub_job sub = Some j \<and> sub_coinbase sub = Some cb
    \<and> pool_coinbase j cb (sub_prefix sub) = (mined_coinbase job reply share)[unat (target_pot_index t) := 3]
    \<and> pool_header X j cb (sub_prefix sub) = mined_header X (pool_coinbase j cb (sub_prefix sub)) job ph share
    \<and> (coinb1 t ! unat (target_pot_index t) \<noteq> 3 \<longrightarrow> pool_coinbase j cb (sub_prefix sub) \<noteq> mined_coinbase job reply share)"
proof -
  let ?m = "job_meta_from_template t 0 0" and ?pot = "unat (target_pot_index t)"
  let ?key = "Sv2 (se_channel_id share) (se_job_id share)" and ?e = "new_entry (job_meta_from_template t 0 0) (job_id_seed t)"
  obtain p a where o: "os_extranonce_prefix reply = prefix_bytes S p"
    "build_new_extended_job (os_channel_id reply) (xj_job_id job) t = Some job"
    "ph = build_set_new_prev_hash (os_channel_id reply) (xj_job_id job) t"
    "sh1 = sh\<lparr>sh_tracker := tracker_insert (sh_tracker sh) ?key ?m (job_id_seed t)\<rparr>"
    "co_mgr c1 = opens_channel S msg True p a (co_mgr c)" "os_channel_id reply = cm_next_channel_id (co_mgr c)"
    using open_extended_opened [OF opened] state(1) share(1,2) by (metis option.inject)
  obtain ch where ch: "cm_channels (co_mgr c1) (se_channel_id share) = Some ch" "oc_is_extended ch"
    "oc_extranonce_prefix ch = p" "oc_user_identity ch = om_user_identity msg"
    using o(5,6) share(1) by (simp add: opens_channel_def insert_channel_def Let_def)
  have g: "get_entry (sh_tracker sh1) ?key = Some ?e" by (simp add: o(4) get_inserted)
  have none: "refusal S True share (sh_tracker sh1) (co_mgr c1) = None"
    using ch g share(3) by (simp add: refusal_def)
  let ?in = "share_inputs S True share ch"
  obtain enc e' pad where b: "build_share_submission X ?in ?e (sh_user_cfg sh) False (sh_pad sh) = (enc, e', pad)"
    by (metis prod_cases3)
  have seen: "\<not> cross_protocol_coinbase_already_seen (sh_tracker sh1) (current_seed (sh_template sh1)) (jm_coinbase_id (je_meta ?e))"
    using state(1,5) by (simp add: o(4) current_seed_def cross_protocol_coinbase_already_seen_def tracker_insert_def Let_def
        new_entry_def job_meta_from_template_def evict_oldest_def split: list.splits)
  obtain out2 sh2 c2 where r: "dispatch_frame X S (SubmitExtended share) sh1 c1 = (Ok out2, sh2, c2)" "out_shares out2 = [se_body enc]"
    using submit_forwarded [OF none, of X] state(3) ch g seen b by (auto simp: submit_of_def o(4))
  have me: "je_meta ?e = ?m" "\<not> server_has_merkle_branches ?e" "\<not> coinbase_sent ?e"
    by (simp_all add: new_entry_def coinbase_sent_def job_meta_from_template_def)
  have inp: "si_username ?in = om_user_identity msg" "length (si_extranonce ?in) = 12" "si_patched_coinb1 ?in = None"
    "si_current_diff ?in = 8"
    using ch share(3,4) o(1) by (simp_all add: share_inputs_def full_extranonce_exact DISPATCH_DIFF_def)
  have rd: "read_submission (se_body enc) = Some \<lparr>sub_prefix = share_prefix_of X ?m ?in,
     sub_user = format_share_username (om_user_identity msg) (sh_user_cfg sh),
     sub_job = Some (job_of_meta ?m), sub_coinbase = Some (coinbase_of_meta ?m)\<rparr>"
    using read_back [OF b] state(2,6) inp me by simp
  have nb: "length (nbits t) = 4" using state(2) by (simp add: meta_fits_def job_meta_from_template_def)
  note views = extended_views [OF o(2,3) ch(3) o(1) share(4,3) state(4)]
  note mc = views(1) [where X = X] and mh = views(2) [OF nb, where X = X] and ne = views(3)
  show ?thesis using r rd mc mh ne by (intro exI conjI) (assumption | simp)+
qed

definition sample_sv2_share :: SharesExtended where
  "sample_sv2_share = \<lparr>se_channel_id = 1, se_sequence_number = 0, se_job_id = 1, se_nonce = 9, se_ntime = 1, se_version = 0x20000000,
     se_extranonce = replicate 10 4\<rparr>"

text \<open>The open of \<open>sample_open\<close> on a fresh connection, under any template small enough to encode.\<close>

definition encodable_template :: "TemplateState \<Rightarrow> bool" where
  "encodable_template t \<longleftrightarrow> length (merkle_branches t) \<le> 255 \<and> length (coinb1 t) \<le> 65535 \<and> length (coinb2 t) \<le> 65535"

lemma first_open:
  assumes "sh_template sh = Some t" "encodable_template t"
  shows "\<exists>out sh1 c1 reply job ph. dispatch_frame plain_libs ref_sri (OpenExtended sample_open) sh fresh_conn = (Ok out, sh1, c1)
    \<and> out_frames out = [OpenExtendedMiningChannelSuccess reply, NewExtendedMiningJob job, SetNewPrevHash ph]
    \<and> os_channel_id reply = 1 \<and> xj_job_id job = 1 \<and> xj_channel_id job = 1 \<and> os_extranonce_prefix reply = [0, 0]"
  using assms
  by (simp add: open_defs fresh_conn_def Let_def sample_open_def encodable_template_def
      clamp_target_to_min_hashrate_le_def sample_values frames_def no_out_def)

lemma small_state_values: "encodable_template small_state" "meta_fits (job_meta_from_template small_state 0 0)"
  "unat (target_pot_index small_state) = 2" "coinb1 small_state = [1, 3, 0xFF, 7]"
  by (simp_all add: encodable_template_def small_state_def meta_fits_def job_meta_from_template_def)

lemma sample_shared_values: "sh_template sample_shared = Some small_state" "sh_tracker sample_shared = tracker_new"
  "sh_upstream_open sample_shared" "sh_user_cfg sample_shared = \<lparr>pool_address = [0x62], pass_full_users = True, pass_workers = True\<rparr>"
  by (simp_all add: sample_shared_def)

theorem sv2_submit_exact_witness:
  "\<exists>c'. dispatch_frame plain_libs ref_sri (SubmitStandard sample_sv2_share) sample_shared fresh_conn =
     (Ok (frames [SubmitSharesError 1 0 SUBMIT_SHARES_INVALID_CHANNEL_ID]), sample_shared, c')"
proof -
  have r: "refusal ref_sri False sample_sv2_share (sh_tracker sample_shared) (co_mgr fresh_conn) = Some SUBMIT_SHARES_INVALID_CHANNEL_ID"
    by (simp add: refusal_def fresh_conn_def)
  show ?thesis
    using sv2_submit_exact [OF sample_shared_values(3), where S = ref_sri and extended = False and share = sample_sv2_share and c = fresh_conn and X = plain_libs]
    unfolding r option.case
    by (auto simp: submit_of_def sample_sv2_share_def)
qed

theorem sv2_pool_checks_other_coinbase_witness:
  "\<exists>out sh1 c1 reply job ph out2 sh2 c2 body sub j cb.
     dispatch_frame plain_libs ref_sri (OpenExtended sample_open) sample_shared fresh_conn = (Ok out, sh1, c1)
   \<and> out_frames out = [OpenExtendedMiningChannelSuccess reply, NewExtendedMiningJob job, SetNewPrevHash ph]
   \<and> dispatch_frame plain_libs ref_sri (SubmitExtended sample_sv2_share) sh1 c1 = (Ok out2, sh2, c2)
   \<and> out_shares out2 = [body] \<and> read_submission body = Some sub \<and> sub_job sub = Some j \<and> sub_coinbase sub = Some cb
   \<and> pool_coinbase j cb (sub_prefix sub) \<noteq> mined_coinbase job reply sample_sv2_share"
proof -
  obtain out sh1 c1 reply job ph where o: "dispatch_frame plain_libs ref_sri (OpenExtended sample_open) sample_shared fresh_conn = (Ok out, sh1, c1)"
    "out_frames out = [OpenExtendedMiningChannelSuccess reply, NewExtendedMiningJob job, SetNewPrevHash ph]"
    "os_channel_id reply = 1" "xj_job_id job = 1" "os_extranonce_prefix reply = [0, 0]"
    using first_open [OF sample_shared_values(1) small_state_values(1)] by blast
  have u: "om_user_identity sample_open = [0x75]" by (simp add: sample_open_def)
  have s: "\<not> cross_protocol_coinbase_already_seen (sh_tracker sample_shared) (job_id_seed small_state) 0"
    "0 \<notin> set (format_share_username (om_user_identity sample_open) (sh_user_cfg sample_shared))"
    unfolding u sample_shared_values
    by (simp_all add: tracker_new_def cross_protocol_coinbase_already_seen_def format_share_username_def)
  have sm: "se_channel_id sample_sv2_share = 1" "se_job_id sample_sv2_share = 1" "length (se_extranonce sample_sv2_share) = 10"
    by (simp_all add: sample_sv2_share_def)
  show ?thesis
    using sv2_pool_checks_other_coinbase [OF o(1,2) sample_shared_values(1) small_state_values(2) sample_shared_values(3) _ s, of sample_sv2_share] o sm
    by (auto simp: small_state_values)
qed

section \<open>Jobs that no share can be accepted for\<close>

text \<open>C40: New work cannot be mined: after a template change the server announces a new job on every
  channel but enters none of them into the job tracker, so a share for one of them is refused
  and never reaches the pool, until some other connection happens to register the same pair of
  channel and job.\<close>

theorem sv2_new_jobs_refused:
  assumes "sv2_step X S (TemplateUpdate ids) sh c = (Inr out, sh1, c1)"
    and "Sv2 (se_channel_id share) (se_job_id share) \<in> set (seed_keys (out_frames out))"
    and "get_entry (sh_tracker sh) (Sv2 (se_channel_id share) (se_job_id share)) = None"
  shows "\<exists>code c2. dispatch_frame X S (submit_of extended share) sh1 c1 =
    (Ok (frames [SubmitSharesError (se_channel_id share) (se_sequence_number share) code]), sh1, c2)"
proof -
  have "sh1 = sh" using assms(1) by (auto simp: sv2_step_def split: option.splits prod.splits)
  then have "get_entry (sh_tracker sh1) (Sv2 (se_channel_id share) (se_job_id share)) = None" using assms(3) by simp
  then have "refusal S extended share (sh_tracker sh1) (co_mgr c1) \<noteq> None"
    by (auto simp: refusal_def split: option.splits)
  then obtain code where "refusal S extended share (sh_tracker sh1) (co_mgr c1) = Some code" by blast
  then show ?thesis using submit_refused by blast
qed

text \<open>Two connections share the keys of the tracker: every connection numbers its channels and
  jobs from 1, and a key holds nothing else, so when a second miner opens its first channel the
  job of the first miner's first channel is replaced in the tracker by the second one's, and the
  next share of the first miner is encoded against a template that it never worked on.\<close>

theorem sv2_connections_share_keys:
  assumes "start_connection S threshold rate f = Running r c" "start_connection S threshold' rate' f' = Running r' c'"
    and "dispatch_frame X S (OpenExtended msg) sh c = (Ok out, sh1, c1)"
      "out_frames out = [OpenExtendedMiningChannelSuccess reply, NewExtendedMiningJob job, SetNewPrevHash ph]"
    and "dispatch_frame X S (OpenExtended msg') (sh1\<lparr>sh_template := Some t'\<rparr>) c' = (Ok out', sh2, c2)"
      "out_frames out' = [OpenExtendedMiningChannelSuccess reply', NewExtendedMiningJob job', SetNewPrevHash ph']"
  shows "get_entry (sh_tracker sh2) (Sv2 (xj_channel_id job) (xj_job_id job))
    = Some (new_entry (job_meta_from_template t' 0 0) (job_id_seed t'))"
proof -
  have n: "cm_next_channel_id (co_mgr c) = 1" "cm_next_job_id (co_mgr c) = 1" "cm_next_channel_id (co_mgr c') = 1" "cm_next_job_id (co_mgr c') = 1"
    using assms(1,2) by (auto simp: start_connection_def with_policy_def Let_def split: first_frame.splits SetupConnectionResponse.splits option.splits)
  have k: "xj_channel_id job = 1 \<and> xj_job_id job = 1" "os_channel_id reply' = 1 \<and> xj_job_id job' = 1"
    using open_extended_ids [OF assms(3,4)] open_extended_ids [OF assms(5,6)] n by simp_all
  show ?thesis
  proof (rule open_extended_opened [OF assms(5,6)], goal_cases)
    case (1 t p a)
    then show ?case using k by (simp add: get_inserted)
  qed
qed

theorem sv2_new_jobs_refused_witness:
  "\<exists>out0 sh0 c0 out sh1 c1 code c2. dispatch_frame plain_libs ref_sri (OpenExtended sample_open) sample_shared fresh_conn = (Ok out0, sh0, c0)
   \<and> sv2_step plain_libs ref_sri (TemplateUpdate [1]) sh0 c0 = (Inr out, sh1, c1)
   \<and> Sv2 1 2 \<in> set (seed_keys (out_frames out))
   \<and> dispatch_frame plain_libs ref_sri (SubmitExtended (sample_sv2_share\<lparr>se_job_id := 2\<rparr>)) sh1 c1 =
      (Ok (frames [SubmitSharesError 1 0 code]), sh1, c2)"
proof -
  obtain out0 sh0 c0 reply job ph where o: "dispatch_frame plain_libs ref_sri (OpenExtended sample_open) sample_shared fresh_conn = (Ok out0, sh0, c0)"
    "out_frames out0 = [OpenExtendedMiningChannelSuccess reply, NewExtendedMiningJob job, SetNewPrevHash ph]"
    "os_channel_id reply = 1" "xj_job_id job = 1"
    using first_open [OF sample_shared_values(1) small_state_values(1)] by blast
  obtain t p a where d: "sh_template sample_shared = Some t"
    "sh0 = sample_shared\<lparr>sh_tracker := tracker_insert (sh_tracker sample_shared) (Sv2 1 1) (job_meta_from_template t 0 0) (job_id_seed t)\<rparr>"
    "co_mgr c0 = opens_channel ref_sri sample_open True p a (co_mgr fresh_conn)"
    using open_extended_opened [OF o(1,2)] o(3,4) by metis
  have none: "get_entry (sh_tracker sh0) (Sv2 1 2) = None"
    by (simp add: d(2) sample_shared_values tracker_insert_def tracker_new_def get_entry_def evict_oldest_def Let_def TRACKER_MAX_def)
  have st: "sh_template sh0 = Some small_state" using d(2) sample_shared_values(1) by simp
  have ch: "\<exists>ch. cm_channels (co_mgr c0) 1 = Some ch \<and> oc_is_extended ch" "cm_next_job_id (co_mgr c0) = 2"
    by (simp_all add: d(3) opens_channel_def insert_channel_def Let_def fresh_conn_def)
  obtain outs m where u: "on_template_update plain_libs ref_sri small_state [1] (co_mgr c0) = (outs, m)"
    "Sv2 1 2 \<in> set (seed_keys outs)"
    using ch by (auto simp: Let_def build_new_extended_job_def small_state_def)
  have s: "sv2_step plain_libs ref_sri (TemplateUpdate [1]) sh0 c0 = (Inr (frames outs), sh0, c0\<lparr>co_mgr := m\<rparr>)"
    unfolding sv2_step_def st by (simp only: sv2_event.case option.case u(1) Let_def prod.case)
  have k: "se_channel_id (sample_sv2_share\<lparr>se_job_id := 2\<rparr>) = 1" "se_job_id (sample_sv2_share\<lparr>se_job_id := 2\<rparr>) = 2"
    "se_sequence_number (sample_sv2_share\<lparr>se_job_id := 2\<rparr>) = 0"
    by (simp_all add: sample_sv2_share_def)
  have "Sv2 1 2 \<in> set (seed_keys (out_frames (frames outs)))" using u(2) by (simp add: frames_def no_out_def)
  then show ?thesis
    using sv2_new_jobs_refused [OF s, where share = "sample_sv2_share\<lparr>se_job_id := 2\<rparr>" and extended = True] o(1) s none
    unfolding k submit_of_def if_True by blast
qed

definition other_state :: TemplateState where
  "other_state = small_state\<lparr>prev_hash := replicate 32 1, job_id_seed := 6\<rparr>"

theorem sv2_connections_share_keys_witness:
  "\<exists>out sh1 c1 out' sh2 c2. dispatch_frame plain_libs ref_sri (OpenExtended sample_open) sample_shared fresh_conn = (Ok out, sh1, c1)
   \<and> Sv2 1 1 \<in> set (seed_keys (out_frames out))
   \<and> dispatch_frame plain_libs ref_sri (OpenExtended sample_open) (sh1\<lparr>sh_template := Some other_state\<rparr>) fresh_conn = (Ok out', sh2, c2)
   \<and> map_option (jm_prevhash_bin \<circ> je_meta) (get_entry (sh_tracker sh2) (Sv2 1 1)) = Some (replicate 32 1)"
proof -
  obtain out sh1 c1 reply job ph where o: "dispatch_frame plain_libs ref_sri (OpenExtended sample_open) sample_shared fresh_conn = (Ok out, sh1, c1)"
    "out_frames out = [OpenExtendedMiningChannelSuccess reply, NewExtendedMiningJob job, SetNewPrevHash ph]"
    "xj_channel_id job = 1" "xj_job_id job = 1"
    using first_open [OF sample_shared_values(1) small_state_values(1)] by blast
  have t: "sh_template (sh1\<lparr>sh_template := Some other_state\<rparr>) = Some other_state" "encodable_template other_state"
    by (simp_all add: other_state_def encodable_template_def small_state_def)
  obtain out' sh2 c2 reply' job' ph' where o': "dispatch_frame plain_libs ref_sri (OpenExtended sample_open) (sh1\<lparr>sh_template := Some other_state\<rparr>) fresh_conn = (Ok out', sh2, c2)"
    "out_frames out' = [OpenExtendedMiningChannelSuccess reply', NewExtendedMiningJob job', SetNewPrevHash ph']"
    using first_open [OF t] by blast
  show ?thesis
    using sv2_connections_share_keys [OF fresh_start fresh_start o(1,2) o'] o o'
    by (simp add: new_entry_def job_meta_from_template_def other_state_def)
qed

end
