(* ===== verification/Sv2Connection.thy ===== *)
theory Sv2Connection
  imports Sv2Stream Sv2Runs
begin

text \<open>
  One Stratum V2 connection over its socket (\<open>handle_connection\<close> of \<open>listener.rs\<close>): the handshake, the
  first frame, and the dispatch loop that reads frames from the stream and writes its replies to it,
  with every error of either; and the accept loop of the listener.
\<close>

section \<open>Writing the replies\<close>

text \<open>What the connection is given: the libraries, the codec, how a frame is read as a message (None
  where it is no Sv2 frame, Some None where it does not parse) and a message is built into a frame,
  the shared values that each turn finds, and whether the socket takes each write.\<close>

record ('a, 'p, 'g, 'd, 'n, 's, 'f, 'e) conn_env =
  en_libs :: libs
  en_sri :: "('a, 'p, 'g) sri"
  en_codec :: "('d, 'n, 's, 'f, 'e) codec"
  en_parse :: "'f \<Rightarrow> sv2_msg option option"
  en_parse_first :: "'f \<Rightarrow> first_frame"
  en_frame :: "MiningOut \<Rightarrow> 'f option"
  en_setup_frame :: "SetupConnectionResponse \<Rightarrow> 'f option"
  en_shared :: "nat \<Rightarrow> Sv2Shared"
  en_sent :: "nat \<Rightarrow> bool"

datatype 'e ConnError = ConnNoise "'e NoiseStreamError" | FrameBuild | ConnErr ConnectionError

record ('a, 'p, 'g, 'd, 'n, 's) ConnState =
  cn_reader :: "('d, 's) ReadHalf"
  cn_writer :: "('n, 's) WriteHalf"
  cn_conn :: "('a, 'p, 'g) Sv2Conn"
  cn_steps :: nat \<comment> \<open>turns of the loop\<close>
  cn_writes :: nat
  cn_wire :: bytes \<comment> \<open>what the socket has taken\<close>
  cn_outs :: "Sv2Out list" \<comment> \<open>what the turns have emitted\<close>

fun write_mining_frames ::
  "('a, 'p, 'g, 'd, 'n, 's, 'f, 'e) conn_env \<Rightarrow> MiningOut list \<Rightarrow> ('a, 'p, 'g, 'd, 'n, 's) ConnState
     \<Rightarrow> ('e ConnError + unit) \<times> ('a, 'p, 'g, 'd, 'n, 's) ConnState" where
  "write_mining_frames E [] s = (Ok (), s)"
| "write_mining_frames E (m # ms) s =
     (case en_frame E m of
        None \<Rightarrow> (Err FrameBuild, s)
      | Some f \<Rightarrow>
          (case write_frame (en_codec E) (en_sent E (cn_writes s)) f (cn_writer s) of
             (Inl e, w) \<Rightarrow> (Err (ConnNoise e), s\<lparr>cn_writer := w, cn_writes := Suc (cn_writes s)\<rparr>)
           | (Inr bs, w) \<Rightarrow>
               write_mining_frames E ms
                 (s\<lparr>cn_writer := w, cn_writes := Suc (cn_writes s), cn_wire := cn_wire s @ bs\<rparr>)))"

section \<open>The dispatch loop\<close>

text \<open>One arm of the loop: the step of the connection, then its replies in their order.  Some result
  ends the task.\<close>

definition turn ::
  "('a, 'p, 'g, 'd, 'n, 's, 'f, 'e) conn_env \<Rightarrow> sv2_event \<Rightarrow> ('a, 'p, 'g, 'd, 'n, 's) ConnState
     \<Rightarrow> ('e ConnError + unit) option \<times> ('a, 'p, 'g, 'd, 'n, 's) ConnState" where
  "turn E ev s =
     (case sv2_step (en_libs E) (en_sri E) ev (en_shared E (cn_steps s)) (cn_conn s) of
        (r, sh, c) \<Rightarrow>
          let s' = s\<lparr>cn_conn := c, cn_steps := Suc (cn_steps s)\<rparr>
          in (case r of
                Inl None \<Rightarrow> (Some (Ok ()), s')
              | Inl (Some e) \<Rightarrow> (Some (Err (ConnErr e)), s')
              | Inr out \<Rightarrow>
                  (case write_mining_frames E (out_frames out) (s'\<lparr>cn_outs := cn_outs s @ [out]\<rparr>) of
                     (Inl e, s'') \<Rightarrow> (Some (Err e), s'')
                   | (Inr u, s'') \<Rightarrow> (None, s''))))"

text \<open>Which arm is ready: the shutdown channel has changed (None where its sender is gone), the
  template channel has (with the hash map's key order; None where its sender is gone), or bytes
  arrive until another arm is ready, which drops the pending read.\<close>

datatype loop_event = ShutdownReady "bool option" | TemplateReady "u32 list option" | BytesReady "read list"

text \<open>The loop up to its first \<open>k\<close> frames; None is a read that never ends.\<close>

fun dispatch_loop ::
  "('a, 'p, 'g, 'd, 'n, 's, 'f, 'e) conn_env \<Rightarrow> nat \<Rightarrow> ('a, 'p, 'g, 'd, 'n, 's) ConnState \<Rightarrow> loop_event list
     \<Rightarrow> (('e ConnError + unit) option \<times> ('a, 'p, 'g, 'd, 'n, 's) ConnState) option" where
  "dispatch_loop E 0 s evs = Some (None, s)"
| "dispatch_loop E (Suc k) s [] = Some (None, s)"
| "dispatch_loop E (Suc k) s (ShutdownReady r # evs) =
     (case turn E (ShutdownChanged (r \<noteq> Some False)) s of
        (Some res, s') \<Rightarrow> Some (Some res, s')
      | (None, s') \<Rightarrow> dispatch_loop E (Suc k) s' evs)"
| "dispatch_loop E (Suc k) s (TemplateReady ids # evs) =
     (case turn E (case ids of None \<Rightarrow> PublisherDropped | Some is \<Rightarrow> TemplateUpdate is) s of
        (Some res, s') \<Rightarrow> Some (Some res, s')
      | (None, s') \<Rightarrow> dispatch_loop E (Suc k) s' evs)"
| "dispatch_loop E (Suc k) s (BytesReady seg # evs) =
     (case read_frame (en_codec E) (cn_reader s) seg of
        None \<Rightarrow> None
      | Some (Waiting, r, rest) \<Rightarrow> dispatch_loop E (Suc k) (s\<lparr>cn_reader := r\<rparr>) evs
      | Some (Returned (Inl e), r, rest) \<Rightarrow>
          Some (if e = StreamClosed then turn E SocketClosed (s\<lparr>cn_reader := r\<rparr>)
                else (Some (Err (ConnNoise e)), s\<lparr>cn_reader := r\<rparr>))
      | Some (Returned (Inr f), r, rest) \<Rightarrow>
          (case en_parse E f of
             None \<Rightarrow> Some (Some (Err (ConnErr (UnexpectedFirstFrame 0xFF))), s\<lparr>cn_reader := r\<rparr>)
           | Some m \<Rightarrow>
               (case turn E (FrameReceived m) (s\<lparr>cn_reader := r\<rparr>) of
                  (Some res, s') \<Rightarrow> Some (Some res, s')
                | (None, s') \<Rightarrow> dispatch_loop E k s' (BytesReady rest # evs))))"

section \<open>The connection\<close>

text \<open>The reply to the first frame, on the state of a fresh connection.\<close>

definition write_setup_reply ::
  "('a, 'p, 'g, 'd, 'n, 's, 'f, 'e) conn_env \<Rightarrow> SetupConnectionResponse \<Rightarrow> ('n, 's) WriteHalf
     \<Rightarrow> ('e ConnError + bytes) \<times> ('n, 's) WriteHalf" where
  "write_setup_reply E reply w =
     (case en_setup_frame E reply of
        None \<Rightarrow> (Err FrameBuild, w)
      | Some f \<Rightarrow> apfst (map_err ConnNoise) (write_frame (en_codec E) (en_sent E 1) f w))"

text \<open>The Noise state of the responder (None where the key is refused), the reads of the handshake and
  those up to the first frame, then the arms of the loop.  None in the first component is a task
  that still runs.\<close>

definition handle_connection ::
  "('a, 'p, 'g, 'd, 'n, 's, 'f, 'e) conn_env \<Rightarrow> fl \<Rightarrow> fl \<Rightarrow> ('s \<times> 's) option \<Rightarrow> timed_read list \<Rightarrow> read list
     \<Rightarrow> nat \<Rightarrow> loop_event list
     \<Rightarrow> (('e ConnError + unit) option \<times> ('a, 'p, 'g, 'd, 'n, 's) ConnState option) option" where
  "handle_connection E threshold rate responder shakes net k evs =
     (let C = en_codec E; ends = (\<lambda>r. Some (Some r, None)); waits = Some (None, None)
      in case responder of
           None \<Rightarrow> ends (Err (ConnNoise HandshakeRemoteInvalidMessage))
         | Some (initial, waiting) \<Rightarrow>
             (case accept C Responder (en_sent E 0) initial waiting shakes of
                None \<Rightarrow> waits
              | Some (Inl e) \<Rightarrow> ends (Err (ConnNoise e))
              | Some (Inr (rd, wr, bs)) \<Rightarrow>
                  (case read_frame C rd net of
                     None \<Rightarrow> None
                   | Some (Waiting, rd', rest) \<Rightarrow> waits
                   | Some (Returned (Inl e), rd', rest) \<Rightarrow> ends (Err (ConnNoise e))
                   | Some (Returned (Inr f), rd', rest) \<Rightarrow>
                       (case start_connection (en_sri E) threshold rate (en_parse_first E f) of
                          StartError e \<Rightarrow> ends (Err (ConnErr e))
                        | Closed reply \<Rightarrow> ends (case write_setup_reply E reply wr of (Inl e, w) \<Rightarrow> Err e | (Inr b, w) \<Rightarrow> Ok ())
                        | InitFailed reply e \<Rightarrow>
                            ends (case write_setup_reply E reply wr of (Inl e', w) \<Rightarrow> Err e' | (Inr b, w) \<Rightarrow> Err (ConnErr e))
                        | Running reply c \<Rightarrow>
                            (case write_setup_reply E reply wr of
                               (Inl e, w) \<Rightarrow> ends (Err e)
                             | (Inr b, w) \<Rightarrow>
                                 map_option (apsnd Some) (dispatch_loop E k
                                   \<lparr>cn_reader = rd', cn_writer = w, cn_conn = c, cn_steps = 0, cn_writes = 2,
                                    cn_wire = bs @ b, cn_outs = []\<rparr> (BytesReady rest # evs)))))))"

section \<open>The accept loop\<close>

text \<open>The shutdown channel changes (None where its sender is gone), a connection is accepted, or
  accepting fails (the loop then sleeps for 100 ms).\<close>

datatype listen_event = ListenShutdown "bool option" | ListenAccepted | ListenFailed

text \<open>The number of connection tasks spawned, and whether the loop has returned.\<close>

fun run_with_shutdown :: "listen_event list \<Rightarrow> nat \<times> bool" where
  "run_with_shutdown [] = (0, False)"
| "run_with_shutdown (ListenShutdown r # evs) = (if r = None \<or> r = Some True then (0, True) else run_with_shutdown evs)"
| "run_with_shutdown (ListenAccepted # evs) = apfst Suc (run_with_shutdown evs)"
| "run_with_shutdown (ListenFailed # evs) = run_with_shutdown evs"

text \<open>\<open>run\<close> holds the sender of its shutdown channel itself and never uses it.\<close>

definition listener_run :: "listen_event list \<Rightarrow> nat \<times> bool" where
  "listener_run evs = run_with_shutdown (filter (\<lambda>ev. case ev of ListenShutdown r \<Rightarrow> False | _ \<Rightarrow> True) evs)"

text \<open>The gateway runs the listener this way: it accepts every connection and never returns, so that only
  aborting its task stops it.\<close>

theorem listener_run_never_returns: "listener_run evs = (count_list evs ListenAccepted, False)"
proof (induction evs)
  case (Cons ev evs)
  then show ?case by (cases ev) (simp_all add: listener_run_def)
qed (simp add: listener_run_def)

section \<open>The loop over bytes runs the connection over messages\<close>

definition simulates ::
  "('a, 'p, 'g, 'd, 'n, 's, 'f, 'e) conn_env \<Rightarrow> ('a, 'p, 'g, 'd, 'n, 's) ConnState
     \<Rightarrow> ('a, 'p, 'g, 'd, 'n, 's) ConnState \<Rightarrow> sv2_event list \<Rightarrow> bool" where
  "simulates E s s' evs \<longleftrightarrow>
     (\<exists>outs. sv2_run (en_libs E) (en_sri E) (cn_conn s) (zip (map (en_shared E) [cn_steps s..<cn_steps s']) evs) = (outs, cn_conn s')
        \<and> cn_outs s' = cn_outs s @ outs)
   \<and> cn_steps s' = cn_steps s + length evs"

lemma simulates_refl: "simulates E s (s\<lparr>cn_reader := r\<rparr>) []"
  by (simp add: simulates_def)

lemma simulates_nothing [simp]: "simulates E s s []"
  by (simp add: simulates_def)

lemma simulates_reader [simp]: "simulates E (s\<lparr>cn_reader := r\<rparr>) s' evs = simulates E s s' evs"
  by (simp add: simulates_def)

lemma write_mining_frames_keeps:
  "write_mining_frames E ms s = (r, s') \<Longrightarrow>
     cn_reader s' = cn_reader s \<and> cn_conn s' = cn_conn s \<and> cn_steps s' = cn_steps s \<and> cn_outs s' = cn_outs s"
proof (induction E ms s rule: write_mining_frames.induct)
  case (2 E m ms s)
  then show ?case by (auto split: option.splits prod.splits sum.splits)
qed simp

lemma turn_cases:
  assumes "turn E ev s = (res, s')"
  shows "cn_reader s' = cn_reader s" "cn_steps s' = Suc (cn_steps s)"
    "\<exists>r sh. sv2_step (en_libs E) (en_sri E) ev (en_shared E (cn_steps s)) (cn_conn s) = (r, sh, cn_conn s')
       \<and> cn_outs s' = cn_outs s @ (case r of Inl e \<Rightarrow> [] | Inr out \<Rightarrow> [out]) \<and> (res = None \<longrightarrow> (\<exists>out. r = Inr out))"
  using assms write_mining_frames_keeps [of E]
  by (auto simp: turn_def Let_def split: prod.splits sum.splits option.splits)

lemma simulates_turn:
  assumes "turn E ev s = (res, s')"
  shows "simulates E s s' [ev]"
proof -
  obtain r sh where "sv2_step (en_libs E) (en_sri E) ev (en_shared E (cn_steps s)) (cn_conn s) = (r, sh, cn_conn s')"
    "cn_outs s' = cn_outs s @ (case r of Inl e \<Rightarrow> [] | Inr out \<Rightarrow> [out])" "cn_steps s' = Suc (cn_steps s)"
    using turn_cases [OF assms] by blast
  then show ?thesis by (cases r) (simp_all add: simulates_def)
qed

lemma simulates_Cons:
  assumes "turn E ev s = (None, s')" "simulates E s' s'' evs"
  shows "simulates E s s'' (ev # evs)"
proof -
  obtain out sh where st: "sv2_step (en_libs E) (en_sri E) ev (en_shared E (cn_steps s)) (cn_conn s) = (Inr out, sh, cn_conn s')"
    "cn_outs s' = cn_outs s @ [out]" "cn_steps s' = Suc (cn_steps s)"
    using turn_cases [OF assms(1)] by auto
  have "cn_steps s < cn_steps s''" using assms(2) st(3) by (simp add: simulates_def)
  then have "[cn_steps s..<cn_steps s''] = cn_steps s # [cn_steps s'..<cn_steps s'']"
    unfolding st(3) by (rule upt_conv_Cons)
  then show ?thesis using assms(2) st by (auto simp: simulates_def)
qed

fun received :: "sv2_event list \<Rightarrow> sv2_msg option list" where
  "received [] = []"
| "received (FrameReceived m # evs) = m # received evs"
| "received (ev # evs) = received evs"

fun segments :: "loop_event list \<Rightarrow> read list list" where
  "segments [] = []"
| "segments (BytesReady seg # evs) = seg # segments evs"
| "segments (ev # evs) = segments evs"


definition loop_result ::
  "('a, 'p, 'g, 'd, 'n, 's, 'f, 'e) conn_env \<Rightarrow> nat \<Rightarrow> ('a, 'p, 'g, 'd, 'n, 's) ConnState \<Rightarrow> loop_event list
     \<Rightarrow> ('e ConnError + unit) option \<Rightarrow> ('a, 'p, 'g, 'd, 'n, 's) ConnState \<Rightarrow> bool" where
  "loop_result E k s evs res s' \<longleftrightarrow>
     (\<exists>steps frames later. simulates E s s' steps \<and> map Some (received steps) = map (en_parse E) frames
        \<and> serve (en_codec E) k (cn_reader s) (segments evs) = Some (map Inr frames @ later) \<and> (res = None \<longrightarrow> later = []))"

lemma loop_result_same:
  assumes "loop_result E k s' evs res s''" "turn E ev s = (None, s')" "received [ev] = []"
  shows "loop_result E k s evs res s''"
proof -
  obtain steps frames later where l: "simulates E s' s'' steps" "map Some (received steps) = map (en_parse E) frames"
    "serve (en_codec E) k (cn_reader s') (segments evs) = Some (map Inr frames @ later)" "res = None \<longrightarrow> later = []"
    using assms(1) by (auto simp: loop_result_def)
  have "received (ev # steps) = received steps" using assms(3) by (cases ev) simp_all
  then show ?thesis using l simulates_Cons [OF assms(2) l(1)] turn_cases(1) [OF assms(2)]
    unfolding loop_result_def by metis
qed

lemma loop_result_stop:
  assumes "decoder_progress (en_codec E) \<mu>" "turn E ev s = (Some res, s')" "received [ev] = []"
  shows "loop_result E k s evs (Some res) s'"
proof -
  obtain later where "serve (en_codec E) k (cn_reader s) (segments evs) = Some later"
    using serve_returns [OF assms(1)] by blast
  then show ?thesis using simulates_turn [OF assms(2)] assms(3) unfolding loop_result_def
    by (intro exI [of _ "[ev]"] exI [of _ "[]"] exI [of _ later]) simp
qed

text \<open>A turn that handles a frame of the stream.\<close>

lemma loop_result_frame:
  assumes "loop_result E k s' (BytesReady rest # evs) res s''" "turn E (FrameReceived m) (s\<lparr>cn_reader := r\<rparr>) = (None, s')"
    and "read_frame (en_codec E) (cn_reader s) seg = Some (Returned (Inr f), r, rest)" "en_parse E f = Some m"
  shows "loop_result E (Suc k) s (BytesReady seg # evs) res s''"
proof -
  obtain steps frames later where l: "simulates E s' s'' steps" "map Some (received steps) = map (en_parse E) frames"
    "serve (en_codec E) k (cn_reader s') (rest # segments evs) = Some (map Inr frames @ later)" "res = None \<longrightarrow> later = []"
    using assms(1) by (auto simp: loop_result_def)
  show ?thesis
    unfolding loop_result_def
  proof (intro exI conjI)
    show "simulates E s s'' (FrameReceived m # steps)" using simulates_Cons [OF assms(2) l(1)] by simp
    show "map Some (received (FrameReceived m # steps)) = map (en_parse E) (f # frames)" using l(2) assms(4) by simp
    show "serve (en_codec E) (Suc k) (cn_reader s) (segments (BytesReady seg # evs)) = Some (map Inr (f # frames) @ later)"
      using assms(3) l(3) turn_cases(1) [OF assms(2)] by simp
  qed (rule l(4))
qed

lemma loop_result_reader:
  assumes "loop_result E (Suc k) (s\<lparr>cn_reader := r\<rparr>) evs res s'"
    and "read_frame (en_codec E) (cn_reader s) seg = Some (Waiting, r, rest)"
  shows "loop_result E (Suc k) s (BytesReady seg # evs) res s'"
  using assms by (simp add: loop_result_def)

text \<open>A loop that ends at a read without handling what was read.\<close>

lemma loop_result_end:
  assumes "decoder_progress (en_codec E) \<mu>" "simulates E s s' steps" "received steps = []"
  shows "loop_result E k s evs (Some res) s'"
proof -
  obtain later where "serve (en_codec E) k (cn_reader s) (segments evs) = Some later"
    using serve_returns [OF assms(1)] by blast
  then show ?thesis using assms(2,3) unfolding loop_result_def
    by (intro exI [of _ steps] exI [of _ "[]"] exI [of _ later]) simp
qed

lemma loop_result_last_frame:
  assumes "decoder_progress (en_codec E) \<mu>" "turn E (FrameReceived m) (s\<lparr>cn_reader := r\<rparr>) = (Some res, s')"
    and "read_frame (en_codec E) (cn_reader s) seg = Some (Returned (Inr f), r, rest)" "en_parse E f = Some m"
  shows "loop_result E (Suc k) s (BytesReady seg # evs) (Some res) s'"
proof -
  obtain later where l: "serve (en_codec E) k r (rest # segments evs) = Some later"
    using serve_returns [OF assms(1)] by blast
  show ?thesis unfolding loop_result_def
    using simulates_turn [OF assms(2)] assms(3,4) l
    by (intro exI [of _ "[FrameReceived m]"] exI [of _ "[f]"] exI [of _ later]) simp
qed

definition loop_ok ::
  "('a, 'p, 'g, 'd, 'n, 's, 'f, 'e) conn_env \<Rightarrow> nat \<Rightarrow> ('a, 'p, 'g, 'd, 'n, 's) ConnState \<Rightarrow> loop_event list \<Rightarrow> bool" where
  "loop_ok E k s evs \<longleftrightarrow> (\<exists>res s'. dispatch_loop E k s evs = Some (res, s') \<and> loop_result E k s evs res s')"

lemma loop_okI: "\<lbrakk>dispatch_loop E k s evs = Some (res, s'); loop_result E k s evs res s'\<rbrakk> \<Longrightarrow> loop_ok E k s evs"
  by (auto simp: loop_ok_def)

lemma loop_ok_turn:
  assumes "decoder_progress (en_codec E) \<mu>" "received [ev] = []" "segments (x # evs) = segments evs"
    and "dispatch_loop E (Suc k) s (x # evs) =
      (case turn E ev s of (Some res, s') \<Rightarrow> Some (Some res, s') | (None, s') \<Rightarrow> dispatch_loop E (Suc k) s' evs)"
    and IH: "\<And>s'. turn E ev s = (None, s') \<Longrightarrow> loop_ok E (Suc k) s' evs"
  shows "loop_ok E (Suc k) s (x # evs)"
proof -
  have seg: "loop_result E (Suc k) s (x # evs) res s' = loop_result E (Suc k) s evs res s'" for res s'
    using assms(3) by (simp add: loop_result_def)
  obtain res s1 where t: "turn E ev s = (res, s1)" by fastforce
  show ?thesis
  proof (cases res)
    case None
    with IH t obtain res' s2 where "dispatch_loop E (Suc k) s1 evs = Some (res', s2)" "loop_result E (Suc k) s1 evs res' s2"
      by (auto simp: loop_ok_def)
    then show ?thesis using loop_result_same [OF _ t [unfolded None] assms(2)] assms(4) t None seg
      by (intro loop_okI) simp_all
  next
    case (Some x)
    then show ?thesis using loop_result_stop [OF assms(1) t [unfolded Some] assms(2)] assms(4) t seg
      by (intro loop_okI) simp_all
  qed
qed

lemma loop_ok_read_error:
  assumes "decoder_progress (en_codec E) \<mu>"
    and rf: "read_frame (en_codec E) (cn_reader s) seg = Some (Returned (Inl e), r, rest)"
  shows "loop_ok E (Suc k) s (BytesReady seg # evs)"
proof (cases "e = StreamClosed")
  case True
  obtain res s1 where t: "turn E SocketClosed (s\<lparr>cn_reader := r\<rparr>) = (res, s1)" by fastforce
  then obtain x where "res = Some x" using turn_cases(3) [OF t] by (cases res) (auto simp: sv2_step_def)
  moreover have "simulates E s s1 [SocketClosed]" using simulates_turn [OF t] by simp
  note loop_result_end [OF assms(1) this]
  ultimately show ?thesis using rf True t by (intro loop_okI) simp_all
next
  case False
  then show ?thesis using rf loop_result_end [OF assms(1) simulates_refl] by (intro loop_okI) simp_all
qed

lemma loop_ok_frame:
  assumes "decoder_progress (en_codec E) \<mu>"
    and rf: "read_frame (en_codec E) (cn_reader s) seg = Some (Returned (Inr f), r, rest)"
    and IH: "\<And>m s'. \<lbrakk>en_parse E f = Some m; turn E (FrameReceived m) (s\<lparr>cn_reader := r\<rparr>) = (None, s')\<rbrakk>
      \<Longrightarrow> loop_ok E k s' (BytesReady rest # evs)"
  shows "loop_ok E (Suc k) s (BytesReady seg # evs)"
proof (cases "en_parse E f")
  case None
  then show ?thesis using rf loop_result_end [OF assms(1) simulates_refl] by (intro loop_okI) simp_all
next
  case (Some m)
  obtain res s1 where t: "turn E (FrameReceived m) (s\<lparr>cn_reader := r\<rparr>) = (res, s1)" by fastforce
  show ?thesis
  proof (cases res)
    case None
    obtain res' s2 where l: "dispatch_loop E k s1 (BytesReady rest # evs) = Some (res', s2)"
      "loop_result E k s1 (BytesReady rest # evs) res' s2"
      using IH [OF Some t [unfolded None]] by (auto simp: loop_ok_def)
    have "dispatch_loop E (Suc k) s (BytesReady seg # evs) = Some (res', s2)" using rf Some t None l(1) by simp
    then show ?thesis by (rule loop_okI) (rule loop_result_frame [OF l(2) t [unfolded None] rf Some])
  next
    case (Some x)
    have "dispatch_loop E (Suc k) s (BytesReady seg # evs) = Some (Some x, s1)"
      using rf \<open>en_parse E f = Some m\<close> t Some by simp
    then show ?thesis by (rule loop_okI)
      (rule loop_result_last_frame [OF assms(1) t [unfolded Some] rf \<open>en_parse E f = Some m\<close>])
  qed
qed

lemma dispatch_loop_ok: "decoder_progress (en_codec E) \<mu> \<Longrightarrow> loop_ok E k s evs"
proof (induction E k s evs rule: dispatch_loop.induct)
  case (3 E k s r evs)
  show ?case by (rule loop_ok_turn [OF 3(2)]) (use 3(1) [OF sym refl 3(2)] in simp_all)
next
  case (4 E k s ids evs)
  show ?case by (rule loop_ok_turn [OF 4(2), where ev = "case ids of None \<Rightarrow> PublisherDropped | Some is \<Rightarrow> TemplateUpdate is"])
    (use 4(1) [OF sym refl 4(2)] in \<open>simp_all split: option.split\<close>)
next
  case (5 E k s seg evs)
  obtain p r rest where rf: "read_frame (en_codec E) (cn_reader s) seg = Some (p, r, rest)"
    using settled [OF 5(3), of "cn_reader s" seg] by (auto simp: settles_def)
  show ?case
  proof (cases p)
    case Waiting
    then have "loop_ok E (Suc k) (s\<lparr>cn_reader := r\<rparr>) evs" using 5(1) 5(3) rf by simp
    then show ?thesis using rf Waiting loop_result_reader by (fastforce simp: loop_ok_def)
  next
    case (Returned y)
    show ?thesis
    proof (cases y)
      case (Inl e)
      then show ?thesis using loop_ok_read_error [OF 5(3)] rf Returned by simp
    next
      case (Inr f)
      show ?thesis
        by (rule loop_ok_frame [OF 5(3) rf [unfolded Returned Inr]])
          (use 5(2,3) rf Returned Inr in \<open>simp_all del: dispatch_loop.simps\<close>)
    qed
  qed
qed (auto simp: loop_ok_def loop_result_def intro!: exI [of _ "[]"])

text \<open>C18: The byte stream adds nothing to the messages: the dispatch loop comes back on every sequence of
  ready arms, and what it has done is a run of the connection over messages, with the shared values of its
  turns, in which exactly the frames that the stream decodes to arrive, in order, each read as its
  message; a loop that still runs has handled every frame that has arrived.\<close>

theorem sv2_loop_refines_run:
  assumes "decoder_progress (en_codec E) \<mu>"
  shows "\<exists>res s' steps outs frames later. dispatch_loop E k s evs = Some (res, s')
    \<and> sv2_run (en_libs E) (en_sri E) (cn_conn s) (zip (map (en_shared E) [cn_steps s..<cn_steps s']) steps) = (outs, cn_conn s')
    \<and> cn_outs s' = cn_outs s @ outs \<and> length steps = cn_steps s' - cn_steps s
    \<and> serve (en_codec E) k (cn_reader s) (segments evs) = Some (map Inr frames @ later)
    \<and> map Some (received steps) = map (en_parse E) frames \<and> (res = None \<longrightarrow> later = [])"
proof -
  obtain res s' where d: "dispatch_loop E k s evs = Some (res, s')" "loop_result E k s evs res s'"
    using dispatch_loop_ok [OF assms, of k s evs] unfolding loop_ok_def by blast
  then obtain steps frames later where l: "simulates E s s' steps" "map Some (received steps) = map (en_parse E) frames"
    "serve (en_codec E) k (cn_reader s) (segments evs) = Some (map Inr frames @ later)" "res = None \<longrightarrow> later = []"
    unfolding loop_result_def by blast
  from l(1) obtain outs where r: "cn_outs s' = cn_outs s @ outs"
    "sv2_run (en_libs E) (en_sri E) (cn_conn s) (zip (map (en_shared E) [cn_steps s..<cn_steps s']) steps) = (outs, cn_conn s')"
    and n: "cn_steps s' = cn_steps s + length steps"
    unfolding simulates_def by blast
  have "length steps = cn_steps s' - cn_steps s" using n by simp
  with d(1) l(2-4) r show ?thesis
    by (intro exI [of _ res] exI [of _ s'] exI [of _ steps] exI [of _ outs] exI [of _ frames] exI [of _ later] conjI) assumption+
qed

text \<open>So what holds of all runs over messages holds of every connection, whatever bytes it gets: no two
  channels of it search the same space.\<close>

lemma handle_connection_runs:
  assumes "decoder_progress (en_codec E) \<mu>" "handle_connection E threshold rate responder shakes net k evs = Some (res, Some s')"
  shows "\<exists>first reply c steps. start_connection (en_sri E) threshold rate first = Running reply c
    \<and> sv2_run (en_libs E) (en_sri E) c (zip (map (en_shared E) [0..<cn_steps s']) steps) = (cn_outs s', cn_conn s')"
proof -
  obtain first reply c s0 evs' where st: "start_connection (en_sri E) threshold rate first = Running reply c"
    and l: "dispatch_loop E k s0 evs' = Some (res, s')" and s0: "cn_conn s0 = c" "cn_steps s0 = 0" "cn_outs s0 = []"
    using assms(2) by (fastforce simp: handle_connection_def Let_def split: option.splits prod.splits sum.splits progress.splits start.splits)
  obtain steps where "simulates E s0 s' steps"
    using dispatch_loop_ok [OF assms(1), of k s0 evs'] l by (auto simp: loop_ok_def loop_result_def)
  then have "sv2_run (en_libs E) (en_sri E) c (zip (map (en_shared E) [0..<cn_steps s']) steps) = (cn_outs s', cn_conn s')"
    using s0 by (auto simp: simulates_def)
  then show ?thesis using st by blast
qed

theorem sv2_connection_channels_disjoint:
  assumes "decoder_progress (en_codec E) \<mu>" "handle_connection E threshold rate responder shakes net k evs = Some (res, Some s')"
    and "sri_laws (en_sri E) ok live" "cm_channels (co_mgr (cn_conn s')) i = Some a" "cm_channels (co_mgr (cn_conn s')) j = Some b" "i \<noteq> j"
  shows "search_space (en_sri E) a \<inter> search_space (en_sri E) b = {}"
  using handle_connection_runs [OF assms(1,2)] channels_disjoint [OF assms(3) _ _ assms(4)] assms(5,6) by metis

section \<open>A connection\<close>

definition sample_env :: "(bytes list, bytes, nat, nat option, unit, unit, bytes, unit) conn_env" where
  "sample_env = \<lparr>en_libs = plain_libs, en_sri = ref_sri, en_codec = sample_codec,
     en_parse = (\<lambda>f. Some (if f = [9] then Some (CloseChannel 1) else None)), en_parse_first = (\<lambda>f. Setup MiningProtocol 1),
     en_frame = (\<lambda>m. Some [1]), en_setup_frame = (\<lambda>r. Some [0]), en_shared = (\<lambda>n. sample_shared), en_sent = (\<lambda>n. True)\<rparr>"

definition sample_start :: "(bytes list, bytes, nat, nat option, unit, unit) ConnState" where
  "sample_start = \<lparr>cn_reader = sample_reader, cn_writer = \<lparr>wr_enc = (), wr_state = ()\<rparr>, cn_conn = fresh_conn,
     cn_steps = 0, cn_writes = 0, cn_wire = [], cn_outs = []\<rparr>"

text \<open>A read that the template arm interrupts, then a channel closed and a frame that does not parse.\<close>

definition sample_arms :: "loop_event list" where
  "sample_arms = [BytesReady [Arrived [1]], TemplateReady None, BytesReady [Arrived [9, 1, 7]]]"

lemma sample_serve: "serve sample_codec 3 sample_reader (segments sample_arms) = Some [Inr [9], Inr [7]]"
  by (simp add: sample_arms_def numeral_3_eq_3 read_frame.simps prepare_def take_in_def Let_def sample_codec_def sample_reader_def)

lemma sample_loop: "\<exists>s'. dispatch_loop sample_env 3 sample_start sample_arms = Some (None, s')"
  by (simp add: sample_arms_def numeral_3_eq_3 read_frame.simps prepare_def take_in_def Let_def sample_codec_def sample_reader_def
      sample_env_def sample_start_def turn_def sv2_step_def dispatch_frame_def no_out_def)

theorem sv2_loop_refines_run_witness:
  "\<exists>s' steps outs. dispatch_loop sample_env 3 sample_start sample_arms = Some (None, s')
    \<and> sv2_run plain_libs ref_sri fresh_conn (zip (map (\<lambda>n. sample_shared) [0..<cn_steps s']) steps) = (outs, cn_conn s')
    \<and> received steps = [Some (CloseChannel 1), None]"
proof -
  have p: "decoder_progress (en_codec sample_env) (\<lambda>st. 0)" using sample_codec_progress by (simp add: sample_env_def)
  have e: "en_codec sample_env = sample_codec" "cn_reader sample_start = sample_reader" "en_libs sample_env = plain_libs"
    "en_sri sample_env = ref_sri" "cn_conn sample_start = fresh_conn" "cn_steps sample_start = 0" "en_shared sample_env = (\<lambda>n. sample_shared)"
    by (simp_all add: sample_env_def sample_start_def)
  obtain res s' steps outs frames and later :: "(unit NoiseStreamError + bytes) list" where r: "dispatch_loop sample_env 3 sample_start sample_arms = Some (res, s')"
    "sv2_run plain_libs ref_sri fresh_conn (zip (map (\<lambda>n. sample_shared) [0..<cn_steps s']) steps) = (outs, cn_conn s')"
    "Some [Inr [9], Inr [7]] = Some (map Inr frames @ later)" "map Some (received steps) = map (en_parse sample_env) frames"
    "res = None \<longrightarrow> later = []"
    using sv2_loop_refines_run [OF p, of 3 sample_start sample_arms] unfolding e sample_serve
    by (elim exE conjE) (rule that; assumption)
  moreover have "res = None" using r(1) sample_loop by (elim exE) simp
  ultimately have "frames = [[9], [7]]" by (auto simp: Cons_eq_map_conv)
  then have "received steps = [Some (CloseChannel 1), None]" using r(4) by (auto simp: sample_env_def map_eq_Cons_conv)
  with r(1,2) \<open>res = None\<close> show ?thesis by (intro exI conjI) simp_all
qed

end
