(* ===== verification/Dupes.thy ===== *)
theory Dupes
  imports Prelude
begin

text \<open>
  The share deduplication cache of \<open>crates/datum-dupes/src/lib.rs\<close>.  The LRU cache itself
  is the crate lru, a parameter: its operations and its documented behaviour, stated over
  the list of keys in order of use (most recent first).
\<close>

record ShareKey =
  sk_channel_id :: u32
  sk_sequence :: u64
  sk_ntime :: u32
  sk_version :: u32
  sk_extranonce :: "128 word"
  sk_nonce :: u32

record 'c lru_ops =
  lru_new :: "nat \<Rightarrow> 'c"
  lru_get :: "'c \<Rightarrow> ShareKey \<Rightarrow> bool \<times> 'c"
  lru_put :: "'c \<Rightarrow> ShareKey \<Rightarrow> 'c"
  lru_len :: "'c \<Rightarrow> nat"
  lru_cap :: "'c \<Rightarrow> nat"

text \<open>The documented behaviour of the crate: \<open>get\<close> promotes a present key, \<open>put\<close> makes a
  key the most recent and evicts the least recent beyond the capacity.\<close>

definition lru_laws :: "'c lru_ops \<Rightarrow> ('c \<Rightarrow> ShareKey list) \<Rightarrow> bool" where
  "lru_laws L recent \<longleftrightarrow>
     (\<forall>n. recent (lru_new L n) = [] \<and> lru_cap L (lru_new L n) = n)
   \<and> (\<forall>c k. fst (lru_get L c k) = (k \<in> set (recent c))
        \<and> recent (snd (lru_get L c k)) = (if k \<in> set (recent c) then k # removeAll k (recent c) else recent c)
        \<and> lru_cap L (snd (lru_get L c k)) = lru_cap L c)
   \<and> (\<forall>c k. recent (lru_put L c k) = take (lru_cap L c) (k # removeAll k (recent c))
        \<and> lru_cap L (lru_put L c k) = lru_cap L c)
   \<and> (\<forall>c. lru_len L c = length (recent c))"

definition dupe_new :: "'c lru_ops \<Rightarrow> nat \<Rightarrow> 'c" where
  "dupe_new L capacity = lru_new L (max capacity 1)"

definition check_and_insert :: "'c lru_ops \<Rightarrow> 'c \<Rightarrow> ShareKey \<Rightarrow> bool \<times> 'c" where
  "check_and_insert L c key =
     (let (found, c1) = lru_get L c key in
      if found then (False, c1) else (True, lru_put L c1 key))"

definition dupe_len :: "'c lru_ops \<Rightarrow> 'c \<Rightarrow> nat" where "dupe_len L c = lru_len L c"
definition dupe_is_empty :: "'c lru_ops \<Rightarrow> 'c \<Rightarrow> bool" where "dupe_is_empty L c = (lru_len L c = 0)"
definition dupe_capacity :: "'c lru_ops \<Rightarrow> 'c \<Rightarrow> nat" where "dupe_capacity L c = lru_cap L c"

text \<open>A run of the cache over a sequence of shares: the verdicts and the final cache.\<close>

fun check_all :: "'c lru_ops \<Rightarrow> 'c \<Rightarrow> ShareKey list \<Rightarrow> bool list \<times> 'c" where
  "check_all L c [] = ([], c)"
| "check_all L c (k # ks) =
     (let (v, c1) = check_and_insert L c k; (vs, c2) = check_all L c1 ks in (v # vs, c2))"

section \<open>The recency list\<close>

definition touch :: "nat \<Rightarrow> ShareKey \<Rightarrow> ShareKey list \<Rightarrow> ShareKey list" where
  "touch cap k ks = take cap (k # removeAll k ks)"

definition cache_ok :: "'c lru_ops \<Rightarrow> ('c \<Rightarrow> ShareKey list) \<Rightarrow> nat \<Rightarrow> 'c \<Rightarrow> bool" where
  "cache_ok L recent cap c \<longleftrightarrow> lru_cap L c = cap \<and> 0 < cap \<and> distinct (recent c) \<and> length (recent c) \<le> cap"

lemma check_and_insert_touch:
  assumes laws: "lru_laws L recent" and ok: "cache_ok L recent cap c"
    and step: "check_and_insert L c k = (v, c')"
  shows "v = (k \<notin> set (recent c)) \<and> recent c' = touch cap k (recent c) \<and> cache_ok L recent cap c'"
proof -
  obtain f c1 where g: "lru_get L c k = (f, c1)" by (cases "lru_get L c k")
  have f: "f = (k \<in> set (recent c))"
    "recent c1 = (if k \<in> set (recent c) then k # removeAll k (recent c) else recent c)"
    "lru_cap L c1 = cap"
    using laws ok g unfolding lru_laws_def cache_ok_def by (metis fst_conv snd_conv)+
  have p: "recent (lru_put L c1 k) = take cap (k # removeAll k (recent c1))" "lru_cap L (lru_put L c1 k) = cap"
    using laws f(3) unfolding lru_laws_def by metis+
  have short: "length (removeAll k (recent c)) < length (recent c)" if "k \<in> set (recent c)"
    using that by (rule length_removeAll_less)
  show ?thesis
    using step ok f p short
    by (auto simp: check_and_insert_def g touch_def cache_ok_def Let_def distinct_removeAll take_all
        split: if_splits dest: in_set_takeD)
qed

lemma touch_keeps:
  assumes "distinct r" "r = pre @ k # post" "set pre \<subseteq> S" "finite S" "card S < cap" "k \<notin> S"
    and "x = k \<or> x \<in> S"
  shows "\<exists>pre' post'. touch cap x r = pre' @ k # post' \<and> set pre' \<subseteq> S"
proof (cases "x = k")
  case True
  then have "touch cap x r = [] @ k # take (cap - 1) (removeAll k r)"
    using assms(5) by (cases cap) (simp_all add: touch_def)
  then show ?thesis by (metis empty_subsetI list.set(1))
next
  case False
  let ?p = "x # removeAll x pre"
  have xS: "x \<in> S" using False assms(7) by simp
  have "distinct ?p" using assms(1,2) by (simp add: distinct_removeAll)
  moreover have sub: "set ?p \<subseteq> S" using assms(3) xS by auto
  ultimately have "length ?p \<le> card S" using assms(4) by (metis card_mono distinct_card)
  then obtain n where cap: "cap = length ?p + Suc n"
    using assms(5) by (metis add_Suc_right less_iff_Suc_add order_le_less_trans)
  have "touch cap x r = ?p @ k # take n (removeAll x post)"
    unfolding touch_def cap using assms(2) False by simp
  then show ?thesis using sub by blast
qed

lemma check_all_append:
  "check_all L c (xs @ ys) = (let (vs, c1) = check_all L c xs; (ws, c2) = check_all L c1 ys in (vs @ ws, c2))"
  by (induction xs arbitrary: c) (simp_all add: Let_def split: prod.splits)

lemma check_all_ok:
  assumes "lru_laws L recent" "cache_ok L recent cap c" "check_all L c ks = (vs, c')"
  shows "cache_ok L recent cap c' \<and> set (recent c') \<subseteq> set (recent c) \<union> set ks"
  using assms(2,3)
proof (induction ks arbitrary: c vs)
  case (Cons k ks)
  obtain v c1 where s: "check_and_insert L c k = (v, c1)" by (cases "check_and_insert L c k")
  obtain ws where r: "check_all L c1 ks = (ws, c')" using Cons.prems(2) s by (auto split: prod.splits)
  note t = check_and_insert_touch [OF assms(1) Cons.prems(1) s]
  have "set (recent c1) \<subseteq> set (recent c) \<union> {k}" using t by (auto simp: touch_def dest: in_set_takeD)
  then show ?case using Cons.IH [OF _ r] t by auto
qed simp

lemma check_all_window:
  assumes laws: "lru_laws L recent" and ok: "cache_ok L recent cap c"
    and r: "recent c = pre @ k # post" "set pre \<subseteq> S" and S: "finite S" "card S < cap" "k \<notin> S"
    and ks: "set ks - {k} \<subseteq> S" and run: "check_all L c ks = (vs, c')"
  shows "k \<in> set (recent c')"
  using ok r ks run
proof (induction ks arbitrary: c vs pre post)
  case Nil
  then show ?case by simp
next
  case (Cons x ks)
  obtain v c1 where s: "check_and_insert L c x = (v, c1)" by (cases "check_and_insert L c x")
  obtain ws where run: "check_all L c1 ks = (ws, c')" using Cons.prems(5) s by (auto split: prod.splits)
  note t = check_and_insert_touch [OF laws Cons.prems(1) s]
  have "distinct (recent c)" using Cons.prems(1) by (simp add: cache_ok_def)
  moreover have "x = k \<or> x \<in> S" using Cons.prems(4) by auto
  ultimately obtain pre' post' where "recent c1 = pre' @ k # post'" "set pre' \<subseteq> S"
    using touch_keeps [OF _ Cons.prems(2,3) S] t by metis
  moreover have "set ks - {k} \<subseteq> S" using Cons.prems(4) by auto
  ultimately show ?case using Cons.IH [OF _ _ _ _ run] t by blast
qed

lemma dupe_new_ok: "lru_laws L recent \<Longrightarrow> cache_ok L recent (max capacity 1) (dupe_new L capacity)"
  by (simp add: lru_laws_def cache_ok_def dupe_new_def)

text \<open>C35: The share cache never rejects a fresh share and rejects every repetition inside its
  window: in any run from a new cache, a key that was not submitted before is reported novel,
  a key that is submitted again after fewer than \<open>max(capacity, 1)\<close> other distinct keys is
  reported a duplicate, and the cache never holds more keys than its capacity.\<close>

theorem dedupe_window:
  assumes "lru_laws L recent" "card (set ks - {k}) < max capacity 1"
  shows "last (fst (check_all L (dupe_new L capacity) (js @ k # ks @ [k]))) = False
    \<and> (last (fst (check_all L (dupe_new L capacity) (js @ [k]))) = False \<longleftrightarrow>
         k \<in> set (recent (snd (check_all L (dupe_new L capacity) js))))
    \<and> set (recent (snd (check_all L (dupe_new L capacity) js))) \<subseteq> set js
    \<and> dupe_len L (snd (check_all L (dupe_new L capacity) js)) \<le> max capacity 1"
proof -
  let ?cap = "max capacity 1"
  obtain vs c where js: "check_all L (dupe_new L capacity) js = (vs, c)"
    by (cases "check_all L (dupe_new L capacity) js")
  obtain v c1 where k: "check_and_insert L c k = (v, c1)" by (cases "check_and_insert L c k")
  obtain ws c2 where ks: "check_all L c1 ks = (ws, c2)" by (cases "check_all L c1 ks")
  obtain v' c3 where k': "check_and_insert L c2 k = (v', c3)" by (cases "check_and_insert L c2 k")
  note ok = check_all_ok [OF assms(1) dupe_new_ok [OF assms(1)] js]
  note t1 = check_and_insert_touch [OF assms(1) ok [THEN conjunct1] k]
  note ok2 = check_all_ok [OF assms(1) t1 [THEN conjunct2, THEN conjunct2] ks]
  have "recent c1 = [] @ k # take (?cap - 1) (removeAll k (recent c))"
    using t1 by (cases "max capacity 1") (simp_all add: touch_def)
  then have "k \<in> set (recent c2)"
    by (rule check_all_window [OF assms(1) t1 [THEN conjunct2, THEN conjunct2] _ _ _ assms(2) _ _ ks]) auto
  then have "v' = False" using check_and_insert_touch [OF assms(1) ok2 [THEN conjunct1] k'] by simp
  moreover have "recent (dupe_new L capacity) = []" using assms(1) by (simp add: lru_laws_def dupe_new_def)
  moreover have "lru_len L c = length (recent c)" using assms(1) by (simp add: lru_laws_def)
  ultimately show ?thesis
    using ok t1 by (simp add: check_all_append js k ks k' dupe_len_def cache_ok_def)
qed

definition list_lru :: "(nat \<times> ShareKey list) lru_ops" where
  "list_lru = \<lparr>lru_new = (\<lambda>n. (n, [])),
     lru_get = (\<lambda>(n, ks) k. (k \<in> set ks, (n, if k \<in> set ks then k # removeAll k ks else ks))),
     lru_put = (\<lambda>(n, ks) k. (n, take n (k # removeAll k ks))),
     lru_len = (\<lambda>(n, ks). length ks), lru_cap = fst\<rparr>"

lemma list_lru_laws: "lru_laws list_lru snd"
  by (auto simp: lru_laws_def list_lru_def)

definition sample_key :: "u32 \<Rightarrow> ShareKey" where
  "sample_key n = \<lparr>sk_channel_id = 1, sk_sequence = 2, sk_ntime = 3, sk_version = 4, sk_extranonce = 5, sk_nonce = n\<rparr>"

theorem dedupe_window_witness:
  "last (fst (check_all list_lru (dupe_new list_lru 2) ([sample_key 1] @ sample_key 2 # [sample_key 3] @ [sample_key 2]))) = False"
  using dedupe_window [OF list_lru_laws, of "[sample_key 3]" "sample_key 2" 2 "[sample_key 1]"]
  by (simp add: sample_key_def)

end
