(* ===== verification/Watch.thy ===== *)
theory Watch
  imports Prelude "HOL-Library.Sublist"
begin

text \<open>
  The watch channels of the tasks: \<open>TemplateStatePublisher\<close> and \<open>TemplateStateChannel\<close> of
  \<open>template_state.rs\<close>, and with the same bodies \<open>TemplateChannel\<close> of \<open>datum-blocktemplates\<close> and
  \<open>CoinbaserPublisher\<close> and \<open>CoinbaserChannel\<close> of \<open>datum-coinbaser\<close>.  The channel itself is tokio's: a
  record of functions with their documented laws.
\<close>

section \<open>The channel of tokio\<close>

datatype 'a poll = Waiting | Ready 'a | RecvError

record ('w, 'r, 'a) watch_lib =
  wl_channel :: "'a option \<Rightarrow> 'w \<times> 'r"
  wl_send :: "'a option \<Rightarrow> 'w \<Rightarrow> bool \<times> 'w" \<comment> \<open>whether there was a receiver\<close>
  wl_borrow :: "'w \<Rightarrow> 'a option"
  wl_changed :: "'w \<Rightarrow> 'r \<Rightarrow> unit poll \<times> 'r" \<comment> \<open>the receiver with the version that it has seen\<close>

text \<open>\<open>held w r\<close>: \<open>r\<close> is a receiver of the channel, and a sender is alive.  A send then replaces the value
  and is seen as a change, once; the initial value is not.\<close>

definition watch_laws :: "('w, 'r, 'a) watch_lib \<Rightarrow> ('w \<Rightarrow> 'r \<Rightarrow> bool) \<Rightarrow> bool" where
  "watch_laws L held \<longleftrightarrow>
     (\<forall>v w r. wl_channel L v = (w, r) \<longrightarrow> held w r \<and> fst (wl_changed L w r) = Waiting)
     \<and> (\<forall>v w r sent w'. held w r \<longrightarrow> wl_send L v w = (sent, w') \<longrightarrow>
          sent \<and> held w' r \<and> wl_borrow L w' = v \<and> fst (wl_changed L w' r) = Ready ())
     \<and> (\<forall>w r p r'. held w r \<longrightarrow> wl_changed L w r = (p, r') \<longrightarrow>
          p \<noteq> RecvError \<and> held w r' \<and> fst (wl_changed L w r') = Waiting)"

lemma watch_lawsD:
  assumes "watch_laws L held"
  shows "wl_channel L v = (w, r) \<Longrightarrow> held w r \<and> fst (wl_changed L w r) = Waiting"
    "\<lbrakk>held w r; wl_send L v w = (sent, w')\<rbrakk> \<Longrightarrow> sent \<and> held w' r \<and> wl_borrow L w' = v \<and> fst (wl_changed L w' r) = Ready ()"
    "\<lbrakk>held w r; wl_changed L w r = (p, r')\<rbrakk> \<Longrightarrow> p \<noteq> RecvError \<and> held w r' \<and> fst (wl_changed L w r') = Waiting"
  using assms unfolding watch_laws_def by blast+

section \<open>Publishing and waiting\<close>

definition publisher_new :: "('w, 'r, 'a) watch_lib \<Rightarrow> 'w \<times> 'r" where
  "publisher_new L = wl_channel L None"

definition watch_publish :: "('w, 'r, 'a) watch_lib \<Rightarrow> 'a \<Rightarrow> 'w \<Rightarrow> bool \<times> 'w" where
  "watch_publish L v w = wl_send L (Some v) w"

definition watch_current :: "('w, 'r, 'a) watch_lib \<Rightarrow> 'w \<Rightarrow> 'a option" where
  "watch_current L w = wl_borrow L w"

text \<open>The loop of \<open>changed\<close>, which goes on where the changed value is None.\<close>

partial_function (option) watch_changed :: "('w, 'r, 'a) watch_lib \<Rightarrow> 'w \<Rightarrow> 'r \<Rightarrow> ('a poll \<times> 'r) option" where
  "watch_changed L w r =
     (let (p, r') = wl_changed L w r
      in case p of
          Waiting \<Rightarrow> Some (Waiting, r')
        | RecvError \<Rightarrow> Some (RecvError, r')
        | Ready u \<Rightarrow> (case wl_borrow L w of Some v \<Rightarrow> Some (Ready v, r') | None \<Rightarrow> watch_changed L w r'))"

section \<open>What a receiver gets\<close>

text \<open>Any interleaving of sends and of polls by one receiver, and the values that it gets.\<close>

datatype 'a watch_op = Publish 'a | Poll

fun poll_value :: "'a poll \<Rightarrow> 'a list" where
  "poll_value (Ready v) = [v]"
| "poll_value p = []"

fun watch_run :: "('w, 'r, 'a) watch_lib \<Rightarrow> 'w \<Rightarrow> 'r \<Rightarrow> 'a watch_op list \<Rightarrow> 'a list option" where
  "watch_run L w r [] = Some []"
| "watch_run L w r (Publish v # ops) = watch_run L (snd (watch_publish L v w)) r ops"
| "watch_run L w r (Poll # ops) =
     Option.bind (watch_changed L w r) (\<lambda>(p, r'). map_option (append (poll_value p)) (watch_run L w r' ops))"

fun published :: "'a watch_op list \<Rightarrow> 'a list" where
  "published [] = []"
| "published (Publish v # ops) = v # published ops"
| "published (Poll # ops) = published ops"

lemma published_poll [simp]: "published (ops @ [Poll]) = published ops"
  by (induction ops rule: published.induct) simp_all

text \<open>The value at hand, if it is a change that the receiver has not seen.\<close>

definition unseen :: "('w, 'r, 'a) watch_lib \<Rightarrow> 'w \<Rightarrow> 'r \<Rightarrow> 'a list" where
  "unseen L w r = (if fst (wl_changed L w r) = Waiting then [] else case wl_borrow L w of Some v \<Rightarrow> [v] | None \<Rightarrow> [])"

lemma publish_unseen:
  assumes "watch_laws L held" "held w r"
  shows "held (snd (watch_publish L v w)) r \<and> unseen L (snd (watch_publish L v w)) r = [v]"
  using watch_lawsD(2) [OF assms(1,2), of "Some v"] by (cases "wl_send L (Some v) w") (simp add: watch_publish_def unseen_def)

text \<open>A poll always has a result; it takes the value at hand.\<close>

lemma changed_returns:
  assumes "watch_laws L held" "held w r"
  obtains p r' where "watch_changed L w r = Some (p, r')" "held w r'" "unseen L w r' = []" "poll_value p = unseen L w r"
proof -
  obtain p r' where c: "wl_changed L w r = (p, r')" by fastforce
  note law = watch_lawsD(3) [OF assms c]
  obtain p2 r2 where c2: "wl_changed L w r' = (p2, r2)" by fastforce
  have seen: "watch_changed L w r' = Some (Waiting, r2)" using law by (subst watch_changed.simps) (simp add: c2)
  have law2: "held w r2" "fst (wl_changed L w r2) = Waiting" using watch_lawsD(3) [OF assms(1) _ c2] law by blast+
  show thesis
  proof (cases p)
    case Waiting
    then have "watch_changed L w r = Some (Waiting, r')" by (subst watch_changed.simps) (simp add: c)
    then show ?thesis using that law by (simp add: unseen_def c Waiting)
  next
    case (Ready u)
    show ?thesis
    proof (cases "wl_borrow L w")
      case None
      have "watch_changed L w r = Some (Waiting, r2)" using seen by (subst watch_changed.simps) (simp add: c Ready None)
      then show ?thesis using that law2 by (simp add: unseen_def None)
    next
      case (Some v)
      have "watch_changed L w r = Some (poll.Ready v, r')" by (subst watch_changed.simps) (simp add: c Ready Some)
      then show ?thesis using that law by (simp add: unseen_def c Ready Some)
    qed
  qed (use law in simp)
qed

lemma watch_run_subseq:
  "\<lbrakk>watch_laws L held; held w r\<rbrakk> \<Longrightarrow> \<exists>got. watch_run L w r ops = Some got \<and> subseq got (unseen L w r @ published ops)"
proof (induction ops arbitrary: w r)
  case (Cons op ops)
  show ?case
  proof (cases op)
    case (Publish v)
    note next' = publish_unseen [OF Cons.prems, of v]
    from Cons.IH [OF Cons.prems(1), of "snd (watch_publish L v w)" r] next'
    obtain got where "watch_run L (snd (watch_publish L v w)) r ops = Some got" "subseq got (v # published ops)" by auto
    then show ?thesis using subseq_drop_many [of got "v # published ops" "unseen L w r"] by (simp add: Publish)
  next
    case Poll
    obtain p r' where c: "watch_changed L w r = Some (p, r')" "held w r'" "unseen L w r' = []" "poll_value p = unseen L w r"
      by (rule changed_returns [OF Cons.prems])
    from Cons.IH [OF Cons.prems(1) c(2)] c(3) obtain got where "watch_run L w r' ops = Some got" "subseq got (published ops)" by auto
    then show ?thesis by (simp add: Poll c(1,4) list_emb_append_mono)
  qed
qed simp

lemma watch_run_last:
  "\<lbrakk>watch_laws L held; held w r; watch_run L w r (ops @ [Poll]) = Some got; unseen L w r @ published ops \<noteq> []\<rbrakk>
   \<Longrightarrow> got \<noteq> [] \<and> last got = last (unseen L w r @ published ops)"
proof (induction ops arbitrary: w r got)
  case Nil
  obtain p r' where c: "watch_changed L w r = Some (p, r')" "held w r'" "unseen L w r' = []" "poll_value p = unseen L w r"
    by (rule changed_returns [OF Nil.prems(1,2)])
  then have "got = unseen L w r" using Nil.prems(3) by simp
  then show ?case using Nil.prems(4) by simp
next
  case (Cons op ops)
  show ?case
  proof (cases op)
    case (Publish v)
    then show ?thesis using Cons.IH [OF Cons.prems(1), of "snd (watch_publish L v w)" r got] Cons.prems(3)
        publish_unseen [OF Cons.prems(1,2), of v] by simp
  next
    case Poll
    obtain p r' where c: "watch_changed L w r = Some (p, r')" "held w r'" "unseen L w r' = []" "poll_value p = unseen L w r"
      by (rule changed_returns [OF Cons.prems(1,2)])
    then obtain got' where g: "watch_run L w r' (ops @ [Poll]) = Some got'" "got = unseen L w r @ got'"
      using Cons.prems(3) by (auto simp: Poll)
    show ?thesis
    proof (cases "published ops = []")
      case True
      then have "got' = []" using watch_run_subseq [OF Cons.prems(1) c(2), of "ops @ [Poll]"] g(1) c(3) by simp
      then show ?thesis using Cons.prems(4) True g(2) by (simp add: Poll)
    next
      case False
      then show ?thesis using Cons.IH [OF Cons.prems(1) c(2) g(1)] c(3) g(2) by (simp add: Poll)
    qed
  qed
qed

text \<open>A receiver gets the published values in order, each at most once, and skips those that were
  overwritten before it looked; whenever it looks, it has got the latest one: the last value that it ever
  got is then the last that was published.\<close>

theorem watch_conflates:
  assumes "watch_laws L held" "publisher_new L = (w, r)"
  shows "\<exists>got. watch_run L w r (ops @ [Poll]) = Some got \<and> subseq got (published ops)
    \<and> (if published ops = [] then got = [] else got \<noteq> [] \<and> last got = last (published ops))"
proof -
  have new: "held w r" "unseen L w r = []"
    using watch_lawsD(1) [OF assms(1)] assms(2) by (auto simp: publisher_new_def unseen_def)
  from watch_run_subseq [OF assms(1) new(1), of "ops @ [Poll]"] new(2) obtain got where
    got: "watch_run L w r (ops @ [Poll]) = Some got" "subseq got (published ops)" by auto
  then show ?thesis using watch_run_last [OF assms(1) new(1) got(1)] new(2) by auto
qed

section \<open>An instance\<close>

text \<open>The value with its version; a receiver is the version that it has seen.\<close>

definition plain_watch :: "('a option \<times> nat, nat, 'a) watch_lib" where
  "plain_watch = \<lparr>wl_channel = (\<lambda>v. ((v, 0), 0)), wl_send = (\<lambda>v w. (True, (v, snd w + 1))), wl_borrow = fst,
     wl_changed = (\<lambda>w r. if snd w = r then (Waiting, r) else (Ready (), snd w))\<rparr>"

lemma plain_watch_laws: "watch_laws plain_watch (\<lambda>w r. r \<le> snd w)"
  unfolding watch_laws_def plain_watch_def by auto

theorem watch_conflates_witness:
  "watch_run plain_watch (None, 0) 0 ([Publish (1 :: nat), Publish 2, Poll, Publish 3] @ [Poll]) = Some [2, 3]"
proof -
  let ?ops = "[Publish (1 :: nat), Publish 2, Poll, Publish 3]"
  have new: "publisher_new plain_watch = ((None, 0), 0)" by (simp add: publisher_new_def plain_watch_def)
  obtain got where got: "watch_run plain_watch (None, 0) 0 (?ops @ [Poll]) = Some got"
    using watch_conflates [OF plain_watch_laws new, of ?ops] by blast
  have "watch_changed plain_watch (Some (2 :: nat), 2) 0 = Some (Ready 2, 2)"
    "watch_changed plain_watch (Some (3 :: nat), 3) 2 = Some (Ready 3, 3)"
    by (subst watch_changed.simps; simp add: plain_watch_def)+
  moreover have "snd (watch_publish plain_watch v w) = (Some v, snd w + 1)" for v :: nat and w
    by (simp add: watch_publish_def plain_watch_def)
  ultimately show ?thesis using got by (simp add: numeral_2_eq_2 numeral_3_eq_3)
qed

end
