(* ===== verification/Startup.thy ===== *)
theory Startup
  imports Backlog
begin

text \<open>
  The start of the gateway process (\<open>run_async\<close> of \<open>crates/datum-bin/src/main.rs\<close>): which of its
  servers and tasks a configuration starts, what it does where an address does not parse or a port cannot
  be bound, and the order in which it stops.
\<close>

section \<open>What is started\<close>

text \<open>The tasks that run once the start is over; the template driver, the notify assembler and the relay
  always do where the puller does, or wait for ever without it.\<close>

record 'a Tasks =
  tk_sv1 :: "ServerState option" \<comment> \<open>the SV1 server, where its port was bound\<close>
  tk_sv2 :: "'a ListenerConfig option"
  tk_puller :: bool
  tk_submitter :: "BlockSubmitter option"
  tk_upstream :: bool
  tk_stats :: RuntimeStats

datatype panic = Sv1AddrPanic | ApiAddrPanic

text \<open>A panic, a return because the API could not be bound, or a process that serves until it is told to
  stop, with the API or without.\<close>

datatype 'a startup = Panicked panic | ApiBindFailed "'a Tasks" | Serves bool "'a Tasks"

text \<open>\<open>bind bound a\<close>: whether the address can be bound after those in \<open>bound\<close>.\<close>

definition bind_sv1 :: "('a list \<Rightarrow> 'a \<Rightarrow> bool) \<Rightarrow> 'a \<Rightarrow> Config \<Rightarrow> ServerState option" where
  "bind_sv1 bind a cfg = (if bind [] a then Some (sv1_state cfg) else None)"

definition bind_sv2 :: "('a list \<Rightarrow> 'a \<Rightarrow> bool) \<Rightarrow> 'a list \<Rightarrow> 'a ListenerConfig option \<Rightarrow> 'a ListenerConfig option" where
  "bind_sv2 bind bound lc = (case lc of None \<Rightarrow> None | Some l \<Rightarrow> if bind bound (bind_addr l) then Some l else None)"

text \<open>The API, once everything else runs.\<close>

definition serve_api ::
  "(bytes \<Rightarrow> u16 \<Rightarrow> 'a option) \<Rightarrow> ('a \<Rightarrow> bool) \<Rightarrow> Config \<Rightarrow> 'a Tasks \<Rightarrow> 'a startup" where
  "serve_api parse_addr bind cfg tasks =
     (if api_listen_port (c_api cfg) = 0 then Serves False tasks
      else case parse_addr (api_addr_or_default cfg) (api_listen_port (c_api cfg)) of
          None \<Rightarrow> Panicked ApiAddrPanic
        | Some a \<Rightarrow> if bind a then Serves True tasks else ApiBindFailed tasks)"

definition run_async ::
  "'s keylibs \<Rightarrow> (bytes \<Rightarrow> 'e + bytes) \<Rightarrow> (bytes \<Rightarrow> u16 \<Rightarrow> 'a option) \<Rightarrow> ('a list \<Rightarrow> 'a \<Rightarrow> bool) \<Rightarrow> bool \<Rightarrow> Config
     \<Rightarrow> 'a startup" where
  "run_async K file parse_addr bind http cfg =
     (case parse_addr (stratum_addr_or_default cfg) (st_listen_port (c_stratum cfg)) of
        None \<Rightarrow> Panicked Sv1AddrPanic
      | Some a \<Rightarrow>
          let sv1 = bind_sv1 bind a cfg;
              bound = (if sv1 = None then [] else [a]);
              (lc, st) = sv2_listener_config K file parse_addr cfg (set_sv2_registry 0 stats_new);
              client = rpc_client http cfg;
              st = (case client of Some c \<Rightarrow> set_rpc_url (rpcurl (c_bitcoind cfg)) st | None \<Rightarrow> st);
              sv2 = bind_sv2 bind bound lc;
              bound = (case sv2 of Some l \<Rightarrow> bind_addr l # bound | None \<Rightarrow> bound)
          in serve_api parse_addr (bind bound) cfg
               \<lparr>tk_sv1 = sv1, tk_sv2 = sv2, tk_puller = (client \<noteq> None), tk_submitter = block_submitter http cfg,
                tk_upstream = upstream_spawned cfg, tk_stats = mark_started st\<rparr>)"

text \<open>The steps of the stop: the SV1 server is told and awaited, where it runs, and the SV2 listener's
  task is aborted.  A process that could not bind its API leaves without them.\<close>

datatype stop_step = TellSv1 | AwaitSv1 | AbortSv2

definition stop_steps :: "'a startup \<Rightarrow> stop_step list" where
  "stop_steps s =
     (case s of
        Serves api tasks \<Rightarrow> TellSv1 # (if tk_sv1 tasks \<noteq> None then [AwaitSv1] else []) @ (if tk_sv2 tasks \<noteq> None then [AbortSv2] else [])
      | _ \<Rightarrow> [])"

text \<open>The process: \<open>run_async\<close> on the configuration that was loaded and validated.\<close>

definition returns_from :: "'a startup \<Rightarrow> bool" where
  "returns_from s = (case s of Panicked p \<Rightarrow> False | _ \<Rightarrow> True)"

definition gateway_process ::
  "'s keylibs \<Rightarrow> (bytes \<Rightarrow> 'e + bytes) \<Rightarrow> (bytes \<Rightarrow> u16 \<Rightarrow> 'a option) \<Rightarrow> ('a list \<Rightarrow> 'a \<Rightarrow> bool) \<Rightarrow> bool
     \<Rightarrow> (bytes \<Rightarrow> 'j + Config) \<Rightarrow> bool \<Rightarrow> bytes list \<Rightarrow> bool \<times> Config option" where
  "gateway_process K file parse_addr bind http json runtime argv =
     gateway_main json file runtime (\<lambda>cfg. returns_from (run_async K file parse_addr bind http cfg)) argv"

section \<open>When the start panics\<close>

lemma run_async_returns:
  "returns_from (run_async K file parse_addr bind http cfg)
     \<longleftrightarrow> parse_addr (stratum_addr_or_default cfg) (st_listen_port (c_stratum cfg)) \<noteq> None
       \<and> (api_listen_port (c_api cfg) = 0 \<or> parse_addr (api_addr_or_default cfg) (api_listen_port (c_api cfg)) \<noteq> None)"
  by (auto simp: run_async_def serve_api_def returns_from_def Let_def split: option.split prod.split)

lemma violates_ignores_addresses:
  "violates (cfg\<lparr>c_stratum := (c_stratum cfg)\<lparr>st_listen_addr := a\<rparr>, c_api := (c_api cfg)\<lparr>api_listen_addr := b\<rparr>\<rparr>) = violates cfg"
proof (rule ext)
  fix e
  show "violates (cfg\<lparr>c_stratum := (c_stratum cfg)\<lparr>st_listen_addr := a\<rparr>, c_api := (c_api cfg)\<lparr>api_listen_addr := b\<rparr>\<rparr>) e = violates cfg e"
    by (cases e) (simp_all add: client_cap_def timeout_floor_def)
qed

lemmas exit_facts = run_gateway_ran validate_config_ok run_async_returns violates_ignores_addresses

text \<open>C21: The exit code says exactly what happened: the gateway runs on the configuration of the named file
  (the default one where none is named) if that loads and breaks no rule, and on nothing else; the process
  then succeeds if and only if the listen addresses of the SV1 server and of an enabled API parse, which no
  rule of the validation looks at, and panics otherwise; and \<open>--validate-config\<close> succeeds exactly where
  the file loads and breaks no rule.\<close>

theorem gateway_exit_exact:
  "(snd (gateway_process K file parse_addr bind http json runtime argv) = Some cfg
     \<longleftrightarrow> (\<exists>path. parse_args argv = Run path \<and> runtime \<and> from_file json (file path) = Inr cfg \<and> (\<forall>e. \<not> violates cfg e)))
   \<and> (fst (gateway_process K file parse_addr bind http json runtime argv)
     \<longleftrightarrow> (case parse_args argv of
            Run path \<Rightarrow> runtime \<and> (\<exists>c. from_file json (file path) = Inr c \<and> (\<forall>e. \<not> violates c e)
              \<and> parse_addr (stratum_addr_or_default c) (st_listen_port (c_stratum c)) \<noteq> None
              \<and> (if api_listen_port (c_api c) = 0 then True else parse_addr (api_addr_or_default c) (api_listen_port (c_api c)) \<noteq> None))
          | ValidateConfig path \<Rightarrow> (\<exists>c. from_file json (file path) = Inr c \<and> (\<forall>e. \<not> violates c e))
          | ParseError msg \<Rightarrow> False
          | _ \<Rightarrow> True))
   \<and> violates (cfg\<lparr>c_stratum := (c_stratum cfg)\<lparr>st_listen_addr := a\<rparr>, c_api := (c_api cfg)\<lparr>api_listen_addr := b\<rparr>\<rparr>) = violates cfg"
  unfolding gateway_process_def gateway_main_def
  by (auto simp: exit_facts simp del: violates.simps split: Cmd.split)

section \<open>What a failed bind costs\<close>

text \<open>A port of a miner server that cannot be bound costs that server only; the port of the API costs the
  process: it returns, with success, and the tasks that already run end with it, none of them told.\<close>

theorem failed_binds:
  assumes "parse_addr (stratum_addr_or_default cfg) (st_listen_port (c_stratum cfg)) = Some a"
    and "run_async K file parse_addr bind http cfg = s"
  shows "case s of
      Panicked p \<Rightarrow> p = ApiAddrPanic
    | ApiBindFailed tasks \<Rightarrow> api_listen_port (c_api cfg) \<noteq> 0 \<and> stop_steps s = []
    | Serves api tasks \<Rightarrow> (tk_sv1 tasks = (if bind [] a then Some (sv1_state cfg) else None)) \<and> tk_upstream tasks = upstream_spawned cfg
        \<and> (tk_submitter tasks \<noteq> None \<longleftrightarrow> tk_puller tasks) \<and> api = (api_listen_port (c_api cfg) \<noteq> 0)
        \<and> rs_registry (tk_stats tasks) = Some 0"
  using assms
  by (auto simp: run_async_def serve_api_def Let_def bind_sv1_def block_submitter_def stop_steps_def mark_started_def
      sv2_listener_config_def set_sv2_authority_pubkey_b58_def set_sv2_registry_def set_rpc_url_def
      split: option.splits if_splits prod.splits sum.splits)

section \<open>Options without an effect\<close>

text \<open>The configuration with every option at its default that nothing outside the loading and the
  validation reads: the limits on clients and threads, the idle time-outs, the miners' user name
  modifiers, the policy options of the pool, the nodes for extra block submissions, the API's
  password, and the whole logger section.\<close>

definition effective :: "Config \<Rightarrow> Config" where
  "effective cfg = cfg
     \<lparr>c_bitcoind := default_bitcoind\<lparr>rpccookiefile := rpccookiefile (c_bitcoind cfg), rpcuser := rpcuser (c_bitcoind cfg),
        rpcpassword := rpcpassword (c_bitcoind cfg), rpcurl := rpcurl (c_bitcoind cfg)\<rparr>,
      c_stratum := default_stratum\<lparr>st_listen_addr := st_listen_addr (c_stratum cfg), st_listen_port := st_listen_port (c_stratum cfg),
        st_vardiff_min := st_vardiff_min (c_stratum cfg), vardiff_target_shares_min := vardiff_target_shares_min (c_stratum cfg)\<rparr>,
      c_mining := (c_mining cfg)\<lparr>save_submitblocks_dir := []\<rparr>,
      c_api := default_api\<lparr>api_listen_addr := api_listen_addr (c_api cfg), api_listen_port := api_listen_port (c_api cfg)\<rparr>,
      c_logger := default_logger, c_extra_urls := [],
      c_datum := default_datum\<lparr>dc_pool_host := dc_pool_host (c_datum cfg), dc_pool_port := dc_pool_port (c_datum cfg),
        dc_pool_pubkey := dc_pool_pubkey (c_datum cfg), pool_pass_full_users := pool_pass_full_users (c_datum cfg),
        pool_pass_workers := pool_pass_workers (c_datum cfg)\<rparr>\<rparr>"

lemma effective_fields:
  "stratum_addr_or_default (effective cfg) = stratum_addr_or_default cfg"
  "api_addr_or_default (effective cfg) = api_addr_or_default cfg"
  "st_listen_port (c_stratum (effective cfg)) = st_listen_port (c_stratum cfg)"
  "api_listen_port (c_api (effective cfg)) = api_listen_port (c_api cfg)"
  "rpcurl (c_bitcoind (effective cfg)) = rpcurl (c_bitcoind cfg)"
  by (simp_all add: effective_def stratum_addr_or_default_def api_addr_or_default_def)

lemma effective_parts:
  "sv1_state (effective cfg) = sv1_state cfg" "rpc_client http (effective cfg) = rpc_client http cfg"
  "upstream_spawned (effective cfg) = upstream_spawned cfg" "driver_config (effective cfg) = driver_config cfg"
  "user_config (effective cfg) = user_config cfg" "cfg_summary (effective cfg) = cfg_summary cfg"
  by (simp_all add: effective_def sv1_state_def vardiff_params_def rpc_client_def rpc_auth_def upstream_spawned_def driver_config_def
      user_config_def cfg_summary_def Let_def cong: option.case_cong)

lemma effective_listener: "sv2_listener_config K file parse_addr (effective cfg) st = sv2_listener_config K file parse_addr cfg st"
  by (simp add: effective_def sv2_listener_config_def)

lemma effective_submitter: "block_submitter http (effective cfg) = block_submitter http cfg"
  by (simp add: block_submitter_def effective_parts)

text \<open>Nothing of the run depends on any of them: the configuration that keeps only the others starts the
  same tasks and gives the driver, the shares and the API the same values.\<close>

theorem options_without_effect:
  "run_async K file parse_addr bind http (effective cfg) = run_async K file parse_addr bind http cfg
   \<and> driver_config (effective cfg) = driver_config cfg \<and> user_config (effective cfg) = user_config cfg
   \<and> cfg_summary (effective cfg) = cfg_summary cfg"
  unfolding run_async_def serve_api_def bind_sv1_def effective_fields effective_parts effective_listener effective_submitter
  by (intro conjI refl)

end
