(* ===== verification/Registry.thy ===== *)
theory Registry
  imports Coinbaser "HOL-Library.AList"
begin

text \<open>
  The channel registry and the job store of \<open>crates/datum-stratum-sv2/src/lib.rs\<close>: the extranonce
  bridge, the ring of the last eight jobs of a channel and the registry that \<open>/metrics\<close> reads.
  Hash maps are association lists with the AList operations of the library.
\<close>

section \<open>The extranonce bridge\<close>

record ExtranonceBridge =
  local_index_bytes :: byte
  rollable_bytes :: byte

definition default_bridge :: ExtranonceBridge where
  "default_bridge = \<lparr>local_index_bytes = 2, rollable_bytes = 10\<rparr>"

datatype BridgeError =
    BadPartition byte byte byte byte \<comment> \<open>prefix, index, roll and their sum\<close>
  | BadLength nat

definition bridge_new :: "byte \<Rightarrow> byte \<Rightarrow> BridgeError + ExtranonceBridge" where
  "bridge_new idx roll =
     (let s = ucast idx + ucast roll :: u32
      in if s \<noteq> 12 then Err (BadPartition 0 idx roll (ucast s))
         else Ok \<lparr>local_index_bytes = idx, rollable_bytes = roll\<rparr>)"

definition concat_for_upstream :: "ExtranonceBridge \<Rightarrow> bytes \<Rightarrow> bytes \<Rightarrow> BridgeError + bytes" where
  "concat_for_upstream b local_prefix rolling =
     (if length local_prefix + length rolling \<noteq> 12 then Err (BadLength (length local_prefix + length rolling))
      else Ok (local_prefix @ rolling))"

section \<open>The job store\<close>

record ExtendedJob =
  ej_job_id :: u32
  ej_is_future :: bool
  ej_version :: u32
  additional_coinbase_outputs :: "CoinbaseOutput list"

definition job_from_blob :: "u32 \<Rightarrow> u32 \<Rightarrow> CoinbaserBlob \<Rightarrow> ExtendedJob" where
  "job_from_blob job_id ver blob =
     \<lparr>ej_job_id = job_id, ej_is_future = False, ej_version = ver, additional_coinbase_outputs = outputs blob\<rparr>"

record InMemoryJobStore =
  js_capacity :: nat
  js_order :: "u32 list"
  js_jobs :: "(u32 \<times> ExtendedJob) list"

definition store_default :: InMemoryJobStore where
  "store_default = \<lparr>js_capacity = 0, js_order = [], js_jobs = []\<rparr>"

definition store_with_capacity :: "nat \<Rightarrow> InMemoryJobStore" where
  "store_with_capacity capacity = \<lparr>js_capacity = max capacity 1, js_order = [], js_jobs = []\<rparr>"

definition new_eight_job_ring :: InMemoryJobStore where "new_eight_job_ring = store_with_capacity 8"

definition store_get :: "InMemoryJobStore \<Rightarrow> u32 \<Rightarrow> ExtendedJob option" where
  "store_get s job_id = map_of (js_jobs s) job_id"

definition store_len :: "InMemoryJobStore \<Rightarrow> nat" where "store_len s = length (js_jobs s)"
definition store_is_empty :: "InMemoryJobStore \<Rightarrow> bool" where "store_is_empty s \<longleftrightarrow> store_len s = 0"

text \<open>None is the panic of \<open>Vec::remove(0)\<close> on an empty eviction queue.\<close>

definition store_put :: "InMemoryJobStore \<Rightarrow> ExtendedJob \<Rightarrow> InMemoryJobStore option" where
  "store_put s job =
     (let jid = ej_job_id job;
          room =
            (if store_get s jid \<noteq> None then Some s
             else map_option (\<lambda>t. t\<lparr>js_order := js_order t @ [jid]\<rparr>)
               (if js_capacity s \<le> store_len s
                then (case js_order s of
                        [] \<Rightarrow> None
                      | evicted # rest \<Rightarrow> Some (s\<lparr>js_order := rest, js_jobs := AList.delete evicted (js_jobs s)\<rparr>))
                else Some s))
      in map_option (\<lambda>t. t\<lparr>js_jobs := AList.update jid job (js_jobs t)\<rparr>) room)"

section \<open>The store as a bounded FIFO\<close>

definition store_ok :: "InMemoryJobStore \<Rightarrow> bool" where
  "store_ok s \<longleftrightarrow> 0 < js_capacity s \<and> distinct (map fst (js_jobs s)) \<and> distinct (js_order s)
     \<and> set (js_order s) = set (map fst (js_jobs s)) \<and> length (js_jobs s) \<le> js_capacity s
     \<and> (\<forall>jid j. store_get s jid = Some j \<longrightarrow> ej_job_id j = jid)"

text \<open>The jobs of a store, the oldest first.\<close>

definition stored :: "InMemoryJobStore \<Rightarrow> ExtendedJob list" where
  "stored s = map (\<lambda>jid. the (store_get s jid)) (js_order s)"

text \<open>What a put does to them: a job with a new id goes to the end, after the oldest has left where
  the store is full; a job with a known id takes the place of the old one.\<close>

definition put_spec :: "nat \<Rightarrow> ExtendedJob list \<Rightarrow> ExtendedJob \<Rightarrow> ExtendedJob list" where
  "put_spec cap js job =
     (if ej_job_id job \<in> ej_job_id ` set js
      then map (\<lambda>j. if ej_job_id j = ej_job_id job then job else j) js
      else (if cap \<le> length js then tl js else js) @ [job])"

lemma store_ok_length: "store_ok s \<Longrightarrow> length (js_order s) = length (js_jobs s)"
  unfolding store_ok_def by (metis distinct_card length_map)

lemma store_get_Some: "store_ok s \<Longrightarrow> jid \<in> set (js_order s) \<Longrightarrow> \<exists>j. store_get s jid = Some j \<and> ej_job_id j = jid"
  unfolding store_ok_def store_get_def by (metis list.set_map map_of_eq_None_iff not_None_eq)

lemma store_get_None: "store_ok s \<Longrightarrow> store_get s jid = None \<longleftrightarrow> jid \<notin> set (js_order s)"
  by (auto simp: store_ok_def store_get_def map_of_eq_None_iff)

lemma stored_ids: "store_ok s \<Longrightarrow> map ej_job_id (stored s) = js_order s"
  by (auto simp: stored_def o_def intro!: map_idI dest: store_get_Some)

lemma store_new: "store_ok (store_with_capacity c)" "stored (store_with_capacity c) = []"
  "js_capacity (store_with_capacity c) = max c 1"
  by (simp_all add: store_ok_def store_with_capacity_def stored_def store_get_def)

text \<open>The new entry of a map whose keys are the queue.\<close>

lemma store_append:
  assumes "distinct (map fst m)" "distinct ks" "set ks = set (map fst m)" "jid \<notin> set ks"
  shows "distinct (map fst (AList.update jid j m))" "set (ks @ [jid]) = set (map fst (AList.update jid j m))"
    "length (AList.update jid j m) = length m + 1"
proof -
  have u: "map fst (AList.update jid j m) = map fst m @ [jid]" using assms by (simp add: update_keys)
  show "distinct (map fst (AList.update jid j m))" "set (ks @ [jid]) = set (map fst (AList.update jid j m))"
    using assms by (auto simp: u)
  show "length (AList.update jid j m) = length m + 1" using arg_cong [OF u, of length] by simp
qed

lemma store_put_new:
  assumes s: "store_ok s" and n: "ej_job_id job \<notin> set (js_order s)"
  shows "\<exists>s'. store_put s job = Some s' \<and> store_ok s' \<and> js_capacity s' = js_capacity s
    \<and> stored s' = (if js_capacity s \<le> length (stored s) then tl (stored s) else stored s) @ [job]"
proof -
  define ks where "ks = (if js_capacity s \<le> length (js_order s) then tl (js_order s) else js_order s)"
  define m where "m = (if js_capacity s \<le> length (js_order s) then AList.delete (hd (js_order s)) (js_jobs s) else js_jobs s)"
  define s' where "s' = s\<lparr>js_order := ks @ [ej_job_id job], js_jobs := AList.update (ej_job_id job) job m\<rparr>"
  have o: "distinct (map fst (js_jobs s))" "distinct (js_order s)" "set (js_order s) = set (map fst (js_jobs s))"
    "0 < js_capacity s" "length (js_jobs s) \<le> js_capacity s" "\<And>jid j. store_get s jid = Some j \<Longrightarrow> ej_job_id j = jid"
    using s by (auto simp: store_ok_def)
  note len = store_ok_length [OF s]
  have put: "store_put s job = Some s'"
    using n o(4) len
    by (cases "js_order s") (auto simp: store_put_def store_get_None [OF s] store_len_def s'_def ks_def m_def Let_def)
  have mk: "distinct (map fst m)" "distinct ks" "set ks = set (map fst m)" "ej_job_id job \<notin> set ks" "length m < js_capacity s"
    "set ks \<subseteq> set (js_order s)" "\<And>jid. jid \<in> set ks \<Longrightarrow> map_of m jid = map_of (js_jobs s) jid"
  proof -
    show "distinct (map fst m)" using o(1) by (simp add: m_def distinct_delete)
    show "distinct ks" using o(2) by (simp add: ks_def distinct_tl)
    show sub: "set ks \<subseteq> set (js_order s)" by (cases "js_order s") (auto simp: ks_def)
    show "ej_job_id job \<notin> set ks" using n sub by blast
    show keys: "set ks = set (map fst m)"
    proof (cases "js_order s")
      case (Cons old rest)
      then have "set (removeAll old (map fst (js_jobs s))) = set rest" using o(2,3) by (simp del: set_map add: o(3) [symmetric])
      then show ?thesis using Cons o(3) by (simp del: set_map add: ks_def m_def delete_keys)
    qed (use o in \<open>simp add: ks_def m_def\<close>)
    have "length ks = length m" using \<open>distinct ks\<close> \<open>distinct (map fst m)\<close> keys by (metis distinct_card length_map)
    moreover have "length ks < js_capacity s" using len o(4,5) by (auto simp: ks_def)
    ultimately show "length m < js_capacity s" by simp
    show "map_of m jid = map_of (js_jobs s) jid" if "jid \<in> set ks" for jid
      using that o(2) by (cases "js_order s") (auto simp: ks_def m_def delete_conv' split: if_splits)
  qed
  note ap = store_append [OF mk(1-4), of job]
  have get: "store_get s' jid = (if jid = ej_job_id job then Some job else store_get s jid)" if "jid \<in> set ks \<or> jid = ej_job_id job" for jid
    using that mk(7) by (auto simp: store_get_def s'_def update_conv')
  have ids: "ej_job_id j = jid" if "store_get s' jid = Some j" for jid j
  proof -
    have "jid \<in> set (map fst (js_jobs s'))"
      using that map_of_eq_None_iff [of "js_jobs s'" jid] by (auto simp: store_get_def)
    then have "jid \<in> set (map fst (AList.update (ej_job_id job) job m))" by (simp add: s'_def)
    then have "jid \<in> set ks \<or> jid = ej_job_id job" unfolding ap(2) [symmetric] by auto
    then show ?thesis using get [of jid] that o(6) [of jid j] by (cases "jid = ej_job_id job") auto
  qed
  have ok: "store_ok s'"
    unfolding store_ok_def
  proof (intro conjI allI impI)
    show "set (js_order s') = set (map fst (js_jobs s'))" using ap(2) by (simp add: s'_def del: set_map)
    show "ej_job_id j = jid" if "store_get s' jid = Some j" for jid j using that by (rule ids)
  qed (use ap(1,3) mk(2,4,5) o(4) in \<open>simp_all add: s'_def\<close>)
  have "map (\<lambda>jid. the (store_get s' jid)) ks = map (\<lambda>jid. the (store_get s jid)) ks"
    using get mk(4) by (intro map_cong refl) auto
  then have "stored s' = map (\<lambda>jid. the (store_get s jid)) ks @ [job]"
    using get [of "ej_job_id job"] by (simp add: stored_def) (simp add: s'_def)
  moreover have "map (\<lambda>jid. the (store_get s jid)) ks = (if js_capacity s \<le> length (stored s) then tl (stored s) else stored s)"
    by (simp add: stored_def ks_def map_tl)
  ultimately show ?thesis using put ok by (simp add: s'_def)
qed

lemma store_put_known:
  assumes s: "store_ok s" and k: "ej_job_id job \<in> set (js_order s)"
  shows "\<exists>s'. store_put s job = Some s' \<and> store_ok s' \<and> js_capacity s' = js_capacity s
    \<and> stored s' = map (\<lambda>j. if ej_job_id j = ej_job_id job then job else j) (stored s)"
proof -
  define s' where "s' = s\<lparr>js_jobs := AList.update (ej_job_id job) job (js_jobs s)\<rparr>"
  have put: "store_put s job = Some s'"
    using k by (auto simp: store_put_def store_get_None [OF s] s'_def Let_def)
  have keys: "map fst (js_jobs s') = map fst (js_jobs s)"
    using s k by (simp add: s'_def update_keys store_ok_def)
  have get: "store_get s' jid = (if jid = ej_job_id job then Some job else store_get s jid)" for jid
    by (simp add: store_get_def s'_def update_conv')
  have "length (js_jobs s') = length (js_jobs s)" using arg_cong [OF keys, of length] by simp
  then have "store_ok s'"
    using s keys get unfolding store_ok_def by (auto simp: s'_def del: set_map split: if_splits)
  moreover have "stored s' = map (\<lambda>j. if ej_job_id j = ej_job_id job then job else j) (stored s)"
  proof -
    have "the (store_get s' jid) = (if ej_job_id (the (store_get s jid)) = ej_job_id job then job else the (store_get s jid))"
      if "jid \<in> set (js_order s)" for jid
      using store_get_Some [OF s that] by (auto simp: get)
    then show ?thesis by (simp add: stored_def s'_def)
  qed
  ultimately show ?thesis using put by (simp add: s'_def)
qed

lemma store_put_spec:
  assumes s: "store_ok s"
  shows "\<exists>s'. store_put s job = Some s' \<and> store_ok s' \<and> js_capacity s' = js_capacity s
    \<and> stored s' = put_spec (js_capacity s) (stored s) job"
proof -
  have "set (map ej_job_id (stored s)) = set (js_order s)" by (simp only: stored_ids [OF s])
  then have ids: "ej_job_id ` set (stored s) = set (js_order s)" by simp
  show ?thesis
    using store_put_new [OF s, of job] store_put_known [OF s, of job]
    by (cases "ej_job_id job \<in> set (js_order s)") (simp_all add: put_spec_def ids)
qed

text \<open>With new ids the ring keeps the last eight jobs: the law of the interface, at its capacity.\<close>

definition store_push :: "InMemoryJobStore \<Rightarrow> ExtendedJob \<Rightarrow> InMemoryJobStore" where
  "store_push s job = (case store_put s job of Some t \<Rightarrow> t | None \<Rightarrow> s)"

definition new_ej :: "ExtendedJob \<Rightarrow> ExtendedJob list \<Rightarrow> bool" where
  "new_ej job js \<longleftrightarrow> ej_job_id job \<notin> ej_job_id ` set js"

interpretation job_ring: bounded_fifo store_push stored "\<lambda>s. store_ok s \<and> js_capacity s = 8" new_ej 8
proof
  fix s job assume s: "store_ok s \<and> js_capacity s = 8" "new_ej job (stored s)"
  then obtain s' where "store_put s job = Some s'" "store_ok s'" "js_capacity s' = 8" "stored s' = put_spec 8 (stored s) job"
    using store_put_spec [of s job] by auto
  then show "store_ok (store_push s job) \<and> js_capacity (store_push s job) = 8"
    "stored (store_push s job) = (if 8 \<le> length (stored s) then tl (stored s) else stored s) @ [job]"
    using s(2) by (simp_all add: store_push_def put_spec_def new_ej_def)
qed (auto simp: new_ej_def)

fun put_all :: "InMemoryJobStore \<Rightarrow> ExtendedJob list \<Rightarrow> InMemoryJobStore option" where
  "put_all s [] = Some s"
| "put_all s (job # jobs) = (case store_put s job of None \<Rightarrow> None | Some t \<Rightarrow> put_all t jobs)"

text \<open>C36: The job ring implements its specification: a store of any requested capacity (one where zero
  is requested) never panics, after any sequence of puts holds what the specification holds (a
  known id replaces its job in place, a new id goes to the end and, where the store is full, the
  oldest leaves), and never exceeds its capacity; a store made with \<open>Default\<close> panics at its first
  put.\<close>

theorem job_ring_refines:
  "(\<exists>s. put_all (store_with_capacity c) jobs = Some s \<and> stored s = foldl (put_spec (max c 1)) [] jobs
      \<and> store_len s = length (stored s) \<and> store_len s \<le> max c 1)
   \<and> store_put store_default job = None"
proof
  have "\<exists>s'. put_all s jobs = Some s' \<and> store_ok s' \<and> js_capacity s' = js_capacity s
      \<and> stored s' = foldl (put_spec (js_capacity s)) (stored s) jobs" if "store_ok s" for s
    using that
  proof (induction jobs arbitrary: s)
    case (Cons job jobs)
    obtain t where t: "store_put s job = Some t" "store_ok t" "js_capacity t = js_capacity s" "stored t = put_spec (js_capacity s) (stored s) job"
      using store_put_spec [OF Cons.prems, of job] by blast
    show ?case using Cons.IH [OF t(2)] by (simp add: t)
  qed simp
  from this [OF store_new(1) [of c]] obtain s where s: "put_all (store_with_capacity c) jobs = Some s" "store_ok s"
    "js_capacity s = max c 1" "stored s = foldl (put_spec (max c 1)) [] jobs" by (auto simp: store_new)
  moreover have "store_len s = length (stored s)"
    using store_ok_length [OF s(2)] by (simp add: store_len_def stored_def)
  moreover have "store_len s \<le> max c 1" using s(2,3) by (simp add: store_len_def store_ok_def)
  ultimately show "\<exists>s. put_all (store_with_capacity c) jobs = Some s \<and> stored s = foldl (put_spec (max c 1)) [] jobs
      \<and> store_len s = length (stored s) \<and> store_len s \<le> max c 1" by blast
  show "store_put store_default job = None"
    by (simp add: store_put_def store_default_def store_get_def store_len_def)
qed

lemma foldl_put_spec_fresh:
  "distinct (map ej_job_id (seen @ jobs)) \<Longrightarrow> job_ring.fresh_after seen jobs"
  by (induction jobs arbitrary: seen) (auto simp: new_ej_def)

text \<open>The last eight of a sequence of jobs with distinct ids.\<close>

theorem job_ring_last_eight:
  assumes "distinct (map ej_job_id jobs)"
  shows "stored (job_ring.push_all new_eight_job_ring jobs) = drop (length jobs - 8) jobs"
  using job_ring.push_all_items [of new_eight_job_ring "[]" jobs] foldl_put_spec_fresh [of "[]" jobs] assms store_new [of 8]
  by (simp add: new_eight_job_ring_def)

section \<open>The registry\<close>

record ChannelState =
  cs_channel_id :: u32
  cs_user_identity :: bytes
  cs_job_store :: InMemoryJobStore

record ChannelRegistry =
  cr_inner :: "(u32 \<times> ChannelState) list"
  cr_next_id :: u32
  cr_count :: nat

definition registry_new :: ChannelRegistry where
  "registry_new = \<lparr>cr_inner = [], cr_next_id = 0, cr_count = 0\<rparr>"

text \<open>\<open>open\<close> takes its id before it waits for the lock, so that other calls may come between.\<close>

definition take_channel_id :: "ChannelRegistry \<Rightarrow> u32 \<times> ChannelRegistry" where
  "take_channel_id g = (cr_next_id g, g\<lparr>cr_next_id := cr_next_id g + 1\<rparr>)"

definition insert_opened :: "u32 \<Rightarrow> bytes \<Rightarrow> ChannelRegistry \<Rightarrow> ChannelRegistry" where
  "insert_opened cid user g =
     (let m = AList.update cid \<lparr>cs_channel_id = cid, cs_user_identity = user, cs_job_store = new_eight_job_ring\<rparr> (cr_inner g)
      in g\<lparr>cr_inner := m, cr_count := length m\<rparr>)"

definition registry_open :: "bytes \<Rightarrow> ChannelRegistry \<Rightarrow> u32 \<times> ChannelRegistry" where
  "registry_open user g = (let (cid, g1) = take_channel_id g in (cid, insert_opened cid user g1))"

definition registry_close :: "u32 \<Rightarrow> ChannelRegistry \<Rightarrow> ChannelRegistry" where
  "registry_close cid g = (let m = AList.delete cid (cr_inner g) in g\<lparr>cr_inner := m, cr_count := length m\<rparr>)"

definition registry_count :: "ChannelRegistry \<Rightarrow> nat" where "registry_count g = length (cr_inner g)"
definition active_count :: "ChannelRegistry \<Rightarrow> nat" where "active_count g = cr_count g"

definition registry_put_job :: "u32 \<Rightarrow> ExtendedJob \<Rightarrow> ChannelRegistry \<Rightarrow> (bool \<times> ChannelRegistry) option" where
  "registry_put_job cid job g =
     (case map_of (cr_inner g) cid of
        None \<Rightarrow> Some (False, g)
      | Some st \<Rightarrow>
          map_option (\<lambda>s. (True, g\<lparr>cr_inner := AList.update cid (st\<lparr>cs_job_store := s\<rparr>) (cr_inner g)\<rparr>))
            (store_put (cs_job_store st) job))"

section \<open>Interleaved calls\<close>

text \<open>The steps of concurrent calls.  The calls that hold an id and wait for the lock are kept with
  their users.\<close>

datatype reg_step = TakeId bytes | Insert nat | Close u32 | PutJob u32 ExtendedJob

type_synonym reg_state = "ChannelRegistry \<times> (u32 \<times> bytes) list"

fun reg_do :: "reg_step \<Rightarrow> reg_state \<Rightarrow> reg_state option" where
  "reg_do (TakeId user) (g, ws) = (case take_channel_id g of (cid, g1) \<Rightarrow> Some (g1, ws @ [(cid, user)]))"
| "reg_do (Insert i) (g, ws) =
     (if i < length ws then (case ws ! i of (cid, user) \<Rightarrow> Some (insert_opened cid user g, take i ws @ drop (Suc i) ws))
      else Some (g, ws))"
| "reg_do (Close cid) (g, ws) = Some (registry_close cid g, ws)"
| "reg_do (PutJob cid job) (g, ws) = map_option (\<lambda>(b, g1). (g1, ws)) (registry_put_job cid job g)"

fun reg_run :: "reg_step list \<Rightarrow> reg_state \<Rightarrow> reg_state option" where
  "reg_run [] s = Some s"
| "reg_run (x # xs) s = Option.bind (reg_do x s) (reg_run xs)"

definition registry_ok :: "ChannelRegistry \<Rightarrow> bool" where
  "registry_ok g \<longleftrightarrow> distinct (map fst (cr_inner g)) \<and> cr_count g = length (cr_inner g)
     \<and> (\<forall>(cid, st) \<in> set (cr_inner g). cs_channel_id st = cid \<and> store_ok (cs_job_store st) \<and> js_capacity (cs_job_store st) = 8)"

lemma registry_okI:
  "\<lbrakk>distinct (map fst m); \<And>cid st. map_of m cid = Some st \<Longrightarrow>
      cs_channel_id st = cid \<and> store_ok (cs_job_store st) \<and> js_capacity (cs_job_store st) = 8;
    cr_inner g = m; cr_count g = length m\<rbrakk> \<Longrightarrow> registry_ok g"
  by (auto simp: registry_ok_def)

lemma registry_okD:
  "\<lbrakk>registry_ok g; map_of (cr_inner g) cid = Some st\<rbrakk> \<Longrightarrow>
     cs_channel_id st = cid \<and> store_ok (cs_job_store st) \<and> js_capacity (cs_job_store st) = 8"
  by (auto simp: registry_ok_def dest!: map_of_SomeD)

lemma registry_step_ok:
  assumes "registry_ok g"
  shows "registry_ok (snd (take_channel_id g))" "registry_ok (insert_opened cid user g)" "registry_ok (registry_close cid g)"
    "\<exists>b g'. registry_put_job cid job g = Some (b, g') \<and> registry_ok g' \<and> map fst (cr_inner g') = map fst (cr_inner g)
       \<and> (b \<longleftrightarrow> cid \<in> set (map fst (cr_inner g)))"
proof -
  have d: "distinct (map fst (cr_inner g))" "cr_count g = length (cr_inner g)" using assms by (simp_all add: registry_ok_def)
  note D = registry_okD [OF assms]
  show "registry_ok (snd (take_channel_id g))"
    using assms by (simp add: registry_ok_def take_channel_id_def)
  show "registry_ok (insert_opened cid user g)"
    using d D store_new(1,3) [of 8]
    by (intro registry_okI [OF _ _ refl])
      (auto simp: insert_opened_def Let_def distinct_update update_conv' new_eight_job_ring_def split: if_splits)
  show "registry_ok (registry_close cid g)"
    using d D by (intro registry_okI [OF _ _ refl]) (auto simp: registry_close_def Let_def distinct_delete delete_conv' split: if_splits)
  show "\<exists>b g'. registry_put_job cid job g = Some (b, g') \<and> registry_ok g' \<and> map fst (cr_inner g') = map fst (cr_inner g)
       \<and> (b \<longleftrightarrow> cid \<in> set (map fst (cr_inner g)))"
  proof (cases "map_of (cr_inner g) cid")
    case None
    then have "cid \<notin> set (map fst (cr_inner g))" by (simp add: map_of_eq_None_iff)
    then show ?thesis using assms None by (intro exI [of _ False] exI [of _ g]) (simp add: registry_put_job_def)
  next
    case (Some st)
    then have k: "cid \<in> set (map fst (cr_inner g))" by (metis map_of_eq_None_iff list.set_map option.distinct(1))
    obtain s where s: "store_put (cs_job_store st) job = Some s" "store_ok s" "js_capacity s = 8"
      using store_put_spec [of "cs_job_store st" job] D [OF Some] by auto
    let ?m = "AList.update cid (st\<lparr>cs_job_store := s\<rparr>) (cr_inner g)"
    have keys: "map fst ?m = map fst (cr_inner g)" using k by (simp add: update_keys)
    have "length ?m = length (cr_inner g)" using arg_cong [OF keys, of length] by simp
    then have "registry_ok (g\<lparr>cr_inner := ?m\<rparr>)"
      using d D D [OF Some] s by (intro registry_okI [OF _ _ refl]) (auto simp: distinct_update update_conv' split: if_splits)
    then show ?thesis using k keys Some s by (intro exI [of _ True]) (simp add: registry_put_job_def del: set_map)
  qed
qed

text \<open>What \<open>/metrics\<close> reads without the lock is right: under any interleaving of opens (whose id is
  taken before the lock), closes and job insertions no call panics, the atomic count always equals
  the number of open channels, every channel is filed under its own id, and every channel's ring
  holds at most eight jobs.\<close>

theorem registry_counts_channels:
  "\<exists>g ws. reg_run steps (registry_new, []) = Some (g, ws) \<and> active_count g = registry_count g
     \<and> distinct (map fst (cr_inner g))
     \<and> (\<forall>(cid, st) \<in> set (cr_inner g). cs_channel_id st = cid \<and> store_len (cs_job_store st) \<le> 8)"
proof -
  have "\<exists>g' ws'. reg_run steps (g, ws) = Some (g', ws') \<and> registry_ok g'" if "registry_ok g" for g ws
    using that
  proof (induction steps arbitrary: g ws)
    case (Cons x xs)
    have "\<exists>g1 ws1. reg_do x (g, ws) = Some (g1, ws1) \<and> registry_ok g1"
    proof (cases x)
      case (PutJob cid job)
      then show ?thesis using registry_step_ok(4) [OF Cons.prems, of cid job] by auto
    next
      case (TakeId user)
      then show ?thesis using registry_step_ok(1) [OF Cons.prems] by (simp add: take_channel_id_def)
    next
      case (Insert i)
      then show ?thesis using Cons.prems registry_step_ok(2) [OF Cons.prems] by (simp split: prod.split)
    next
      case (Close cid)
      then show ?thesis using registry_step_ok(3) [OF Cons.prems] by simp
    qed
    then show ?case using Cons.IH by auto
  qed simp
  from this [of registry_new "[]"] obtain g ws where g: "reg_run steps (registry_new, []) = Some (g, ws)" "registry_ok g"
    by (auto simp: registry_ok_def registry_new_def)
  then show ?thesis
    by (intro exI [of _ g] exI [of _ ws])
      (auto simp: registry_ok_def active_count_def registry_count_def store_ok_def store_len_def)
qed

text \<open>The sum of the generation outputs; the sum of a release build wraps.\<close>

definition coinbase_output_sum :: "CoinbaserBlob \<Rightarrow> u64" where
  "coinbase_output_sum blob = sum_list (map value_sats (outputs blob))"

lemma jobs_share_the_sum:
  "sum_list (map value_sats (additional_coinbase_outputs (job_from_blob jid ver blob))) = coinbase_output_sum blob"
  by (simp add: job_from_blob_def coinbase_output_sum_def)

end
