(* ===== verification/Api.thy ===== *)
theory Api
  imports Rpc Utf8
begin

text \<open>
  The HTTP API (\<open>crates/datum-api\<close>): digest authentication, the CSRF token, and the handlers with
  the table of their routes.  The hash functions, the embedded files and the MIME table are
  parameters.
\<close>

unbundle bit_operations_syntax

section \<open>Digest authentication\<close>

datatype DigestAlgorithm = Sha256 | Md5

fun header_token :: "DigestAlgorithm \<Rightarrow> bytes" where
  "header_token Sha256 = ascii ''SHA-256''"
| "header_token Md5 = ascii ''MD5''"

definition hex_nib :: "byte \<Rightarrow> byte" where
  "hex_nib n = (if n \<le> 9 then 0x30 + n else 0x61 + n - 10)"

definition hex_lower :: "bytes \<Rightarrow> bytes" where
  "hex_lower bs = concat (map (\<lambda>b. [hex_nib (drop_bit 4 b), hex_nib (b AND 0x0F)]) bs)"

definition hash_hex :: "(DigestAlgorithm \<Rightarrow> bytes \<Rightarrow> bytes) \<Rightarrow> DigestAlgorithm \<Rightarrow> bytes list \<Rightarrow> bytes" where
  "hash_hex H algo parts = hex_lower (H algo (concat parts))"

definition ha1 :: "(DigestAlgorithm \<Rightarrow> bytes \<Rightarrow> bytes) \<Rightarrow> DigestAlgorithm \<Rightarrow> bytes \<Rightarrow> bytes \<Rightarrow> bytes \<Rightarrow> bytes" where
  "ha1 H algo username realm password = hash_hex H algo [username, ascii '':'', realm, ascii '':'', password]"

definition ha2 :: "(DigestAlgorithm \<Rightarrow> bytes \<Rightarrow> bytes) \<Rightarrow> DigestAlgorithm \<Rightarrow> bytes \<Rightarrow> bytes \<Rightarrow> bytes" where
  "ha2 H algo verb uri = hash_hex H algo [verb, ascii '':'', uri]"

definition response_hash ::
  "(DigestAlgorithm \<Rightarrow> bytes \<Rightarrow> bytes) \<Rightarrow> DigestAlgorithm \<Rightarrow> bytes \<Rightarrow> bytes \<Rightarrow> bytes \<Rightarrow> bytes \<Rightarrow> bytes \<Rightarrow> bytes \<Rightarrow> bytes" where
  "response_hash H algo h1 nonce nc cnonce qop h2 =
     hash_hex H algo [h1, ascii '':'', nonce, ascii '':'', nc, ascii '':'', cnonce, ascii '':'', qop, ascii '':'', h2]"

text \<open>The loop ors the differences of the bytes.\<close>

definition constant_time_eq :: "bytes \<Rightarrow> bytes \<Rightarrow> bool" where
  "constant_time_eq a b =
     (if length a \<noteq> length b then False else foldl (\<lambda>diff (x, y). diff OR (x XOR y)) 0 (zip a b) = 0)"

definition verify_digest_response ::
  "(DigestAlgorithm \<Rightarrow> bytes \<Rightarrow> bytes) \<Rightarrow> DigestAlgorithm \<Rightarrow> bytes \<Rightarrow> bytes \<Rightarrow> bytes \<Rightarrow> bytes \<Rightarrow> bytes \<Rightarrow> bytes \<Rightarrow> bytes
     \<Rightarrow> bytes \<Rightarrow> bytes \<Rightarrow> bytes \<Rightarrow> bool" where
  "verify_digest_response H algo expected_response username realm password verb uri nonce nc cnonce qop =
     (let h1 = ha1 H algo username realm password; h2 = ha2 H algo verb uri;
          computed = response_hash H algo h1 nonce nc cnonce qop h2
      in constant_time_eq computed expected_response)"

definition build_www_authenticate :: "DigestAlgorithm \<Rightarrow> bytes \<Rightarrow> bytes \<Rightarrow> bytes" where
  "build_www_authenticate algo realm nonce =
     ascii ''Digest realm='' @ [0x22] @ realm @ [0x22] @ ascii '', qop='' @ [0x22] @ ascii ''auth'' @ [0x22]
       @ ascii '', algorithm='' @ header_token algo @ ascii '', nonce='' @ [0x22] @ nonce @ [0x22]"

definition csrf_token :: "(DigestAlgorithm \<Rightarrow> bytes \<Rightarrow> bytes) \<Rightarrow> u16 \<Rightarrow> bytes \<Rightarrow> bytes" where
  "csrf_token H port admin_password =
     hex_lower (H Sha256 (ascii ''DATUM Anti-CSRF Token'' @ ascii (decimal (unat port)) @ admin_password))"

section \<open>The handlers\<close>

datatype verb = GET | POST

datatype handler = RootHtml | ClientsHtml | ThreadsHtml | CoinbaserHtml | ConfigHtml | CmdPost | NotifyPost
  | TestnetFastforward | UmbrelApi | ServeAsset | MetricsJson

definition routes :: "(string \<times> verb \<times> handler) list" where
  "routes = [(''/'', GET, RootHtml), (''/clients'', GET, ClientsHtml), (''/threads'', GET, ThreadsHtml),
     (''/coinbaser'', GET, CoinbaserHtml), (''/config'', GET, ConfigHtml), (''/cmd'', POST, CmdPost),
     (''/NOTIFY'', POST, NotifyPost), (''/testnet_fastforward'', POST, TestnetFastforward),
     (''/umbrel-api'', GET, UmbrelApi), (''/assets/*path'', GET, ServeAsset), (''/api/metrics'', GET, MetricsJson)]"

datatype content = HtmlText bytes | PlainText string | JsonValue json | FileBytes "bytes option" bytes | EmptyBody

record Response =
  status :: nat
  content :: content

definition render_page :: "(bytes \<Rightarrow> bytes option) \<Rightarrow> string \<Rightarrow> nat + bytes" where
  "render_page www page_name =
     and_then (ok_or (www (ascii page_name @ ascii ''.html'')) 404) (\<lambda>page.
       let foot = (case www (ascii ''foot.html'') of Some f \<Rightarrow> if utf8_valid f then f else [] | None \<Rightarrow> [])
       in if utf8_valid page then Ok (page @ foot) else Err 500)"

definition html_response :: "(bytes \<Rightarrow> bytes option) \<Rightarrow> string \<Rightarrow> Response" where
  "html_response www page_name =
     (case render_page www page_name of
        Inr html \<Rightarrow> \<lparr>status = 200, content = HtmlText html\<rparr>
      | Inl s \<Rightarrow> \<lparr>status = s, content = EmptyBody\<rparr>)"

text \<open>\<open>mime\<close> is the content type of a path, None where it is not a header value.\<close>

definition serve_asset :: "(bytes \<Rightarrow> bytes option) \<Rightarrow> (bytes \<Rightarrow> bytes option) \<Rightarrow> bytes \<Rightarrow> Response" where
  "serve_asset www mime path =
     (let key = ascii ''assets/'' @ path
      in case www key of
           None \<Rightarrow> \<lparr>status = 404, content = EmptyBody\<rparr>
         | Some file \<Rightarrow> \<lparr>status = 200, content = FileBytes (mime key) file\<rparr>)"

definition respond ::
  "(bytes \<Rightarrow> bytes option) \<Rightarrow> (bytes \<Rightarrow> bytes option) \<Rightarrow> json \<Rightarrow> handler \<Rightarrow> bytes \<Rightarrow> Response" where
  "respond www mime metrics h path =
     (case h of
        RootHtml \<Rightarrow> html_response www ''home''
      | ClientsHtml \<Rightarrow> html_response www ''clients_top''
      | ThreadsHtml \<Rightarrow> html_response www ''threads_top''
      | CoinbaserHtml \<Rightarrow> html_response www ''coinbaser_top''
      | ConfigHtml \<Rightarrow> html_response www ''config''
      | CmdPost \<Rightarrow> \<lparr>status = 202, content = PlainText ''ok''\<rparr>
      | NotifyPost \<Rightarrow> \<lparr>status = 200, content = PlainText ''ok''\<rparr>
      | TestnetFastforward \<Rightarrow> \<lparr>status = 200, content = PlainText ''ok''\<rparr>
      | UmbrelApi \<Rightarrow> \<lparr>status = 200, content = JsonValue metrics\<rparr>
      | ServeAsset \<Rightarrow> serve_asset www mime path
      | MetricsJson \<Rightarrow> \<lparr>status = 200, content = JsonValue metrics\<rparr>)"

section \<open>What is accepted\<close>

lemma or_fold_zero:
  "foldl (\<lambda>diff (x, y). diff OR (x XOR y)) d (zip a b) = (0 :: 'a::len word) \<longleftrightarrow>
     d = 0 \<and> (\<forall>(x, y) \<in> set (zip a b). x = y)"
proof (induction a b arbitrary: d rule: list_induct2')
  case (4 x a y b)
  have "d OR (x XOR y) = 0 \<longleftrightarrow> d = 0 \<and> x = y"
    by (auto simp: bit_eq_iff bit_simps)
  then show ?case using 4 by auto
qed auto

lemma constant_time_eq_iff: "constant_time_eq a b \<longleftrightarrow> a = b"
proof (cases "length a = length b")
  case True
  then have "(\<forall>(x, y) \<in> set (zip a b). x = y) \<longleftrightarrow> a = b"
    by (induction a b rule: list_induct2) auto
  then show ?thesis using True or_fold_zero [of 0 a b] by (simp add: constant_time_eq_def)
qed (auto simp: constant_time_eq_def)

lemma hex_nib_inj: "\<lbrakk>m \<le> 15; n \<le> 15; hex_nib m = hex_nib n\<rbrakk> \<Longrightarrow> m = n"
  by (auto simp: hex_nib_def word_le_nat_alt word_less_nat_alt unat_word_ariths unat_eq_nat_uint [symmetric] split: if_splits)

lemma nibble_bounds: "drop_bit 4 w \<le> (15 :: byte)" "w AND 0x0F \<le> (15 :: byte)"
proof -
  show "drop_bit 4 w \<le> (15 :: byte)"
    using unat_byte_less [of w] by (simp add: word_le_nat_alt unat_div drop_bit_eq_div)
  show "w AND 0x0F \<le> (15 :: byte)" by (rule word_and_le1)
qed

lemma nibbles: "w = push_bit 4 (drop_bit 4 w) OR (w AND 0x0F)" for w :: byte
proof -
  have m: "(0x0F :: byte) = mask 4" by (simp add: mask_eq_exp_minus_1)
  show ?thesis unfolding m by (rule bit_word_eqI) (auto simp: bit_simps)
qed

lemma hex_lower_inj: "hex_lower a = hex_lower b \<Longrightarrow> a = b"
proof (induction a b rule: list_induct2')
  case (4 x a y b)
  have "hex_nib (drop_bit 4 x) = hex_nib (drop_bit 4 y)" "hex_nib (x AND 0x0F) = hex_nib (y AND 0x0F)" "hex_lower a = hex_lower b"
    using 4(2) by (simp_all add: hex_lower_def)
  then have "drop_bit 4 x = drop_bit 4 y" "x AND 0x0F = y AND 0x0F" "a = b"
    using 4(1) hex_nib_inj [OF nibble_bounds(1) nibble_bounds(1)] hex_nib_inj [OF nibble_bounds(2) nibble_bounds(2)] by blast+
  then show ?case using nibbles [of x] nibbles [of y] by simp
qed (simp_all add: hex_lower_def)

lemma hex_no_colon: "0x3A \<notin> set (hex_lower bs)"
proof -
  have "hex_nib n \<noteq> 0x3A" if "n \<le> 15" for n
    using that by (auto simp: hex_nib_def word_le_nat_alt unat_word_ariths word_unat_eq_iff split: if_splits)
  then show ?thesis using nibble_bounds by (fastforce simp: hex_lower_def)
qed

lemma split_colon:
  assumes "a @ 0x3A # x = b @ 0x3A # y" "0x3A \<notin> set a" "0x3A \<notin> set (b :: bytes)"
  shows "a = b \<and> x = y"
proof -
  have "takeWhile (\<lambda>c. c \<noteq> 0x3A) (a @ 0x3A # x) = a" "takeWhile (\<lambda>c. c \<noteq> 0x3A) (b @ 0x3A # y) = b"
    using assms(2,3) by (auto simp: takeWhile_append)
  then show ?thesis using assms(1) by auto
qed

text \<open>What is hashed for a request.\<close>

definition digest_inputs ::
  "(DigestAlgorithm \<Rightarrow> bytes \<Rightarrow> bytes) \<Rightarrow> DigestAlgorithm \<Rightarrow> bytes \<Rightarrow> bytes \<Rightarrow> bytes \<Rightarrow> bytes \<Rightarrow> bytes \<Rightarrow> bytes \<Rightarrow> bytes list" where
  "digest_inputs H algo username realm password mid verb uri =
     (let a = username @ [0x3A] @ realm @ [0x3A] @ password; b = verb @ [0x3A] @ uri
      in [a, b, hex_lower (H algo a) @ [0x3A] @ mid @ [0x3A] @ hex_lower (H algo b)])"

text \<open>C33: A digest response is bound to the password and to the request: where the hash has no collision
  among the strings hashed for the two, the verifier accepts the response that a client computed
  for a method and a URI with its password if and only if that is the server's password and the
  very same method and URI (for methods without a colon and the same user, realm, nonce, count, client nonce and quality of
  protection); the comparison in constant time is equality.\<close>

theorem digest_binds_request:
  assumes "inj_on (H algo) (set (digest_inputs H algo username realm password (nonce @ [0x3A] @ nc @ [0x3A] @ cnonce @ [0x3A] @ qop) verb uri)
       \<union> set (digest_inputs H algo username realm password' (nonce @ [0x3A] @ nc @ [0x3A] @ cnonce @ [0x3A] @ qop) verb' uri'))"
    and "0x3A \<notin> set verb" "0x3A \<notin> set verb'"
  shows "verify_digest_response H algo (response_hash H algo (ha1 H algo username realm password') nonce nc cnonce qop (ha2 H algo verb' uri'))
      username realm password verb uri nonce nc cnonce qop
    \<longleftrightarrow> password = password' \<and> verb = verb' \<and> uri = uri'"
    (is "?accepted \<longleftrightarrow> ?same")
proof
  define mid where "mid = nonce @ [0x3A] @ nc @ [0x3A] @ cnonce @ [0x3A] @ qop"
  define a where "a pw = username @ [0x3A] @ realm @ [0x3A] @ pw" for pw :: bytes
  define b where "b v u = v @ [0x3A] @ u" for v u :: bytes
  define c where "c pw v u = hex_lower (H algo (a pw)) @ [0x3A] @ mid @ [0x3A] @ hex_lower (H algo (b v u))" for pw v u
  have inp: "set (digest_inputs H algo username realm pw mid v u) = {a pw, b v u, c pw v u}" for pw v u
    by (simp add: digest_inputs_def a_def b_def c_def Let_def)
  have inj: "inj_on (H algo) ({a password, b verb uri, c password verb uri} \<union> {a password', b verb' uri', c password' verb' uri'})"
    using assms(1) unfolding mid_def [symmetric] inp .
  have eq: "?accepted \<longleftrightarrow> hex_lower (H algo (c password verb uri)) = hex_lower (H algo (c password' verb' uri'))"
    by (simp add: verify_digest_response_def constant_time_eq_iff response_hash_def ha1_def ha2_def hash_hex_def ascii_def
        a_def b_def c_def mid_def Let_def)
  show ?accepted if ?same using that unfolding eq by simp
  assume ?accepted
  then have "H algo (c password verb uri) = H algo (c password' verb' uri')" unfolding eq by (rule hex_lower_inj)
  then have "c password verb uri = c password' verb' uri'" by (rule inj_onD [OF inj]) simp_all
  then have "hex_lower (H algo (a password)) = hex_lower (H algo (a password')) \<and>
      mid @ [0x3A] @ hex_lower (H algo (b verb uri)) = mid @ [0x3A] @ hex_lower (H algo (b verb' uri'))"
    unfolding c_def by (intro split_colon) (simp_all add: hex_no_colon)
  then have h: "H algo (a password) = H algo (a password')" "H algo (b verb uri) = H algo (b verb' uri')"
    by (auto dest: hex_lower_inj)
  have "a password = a password'" by (rule inj_onD [OF inj h(1)]) simp_all
  moreover have "b verb uri = b verb' uri'" by (rule inj_onD [OF inj h(2)]) simp_all
  ultimately show ?same using split_colon [of verb uri verb' uri'] assms(2,3) by (simp add: a_def b_def)
qed

theorem digest_binds_request_witness:
  "\<not> verify_digest_response (\<lambda>_ s. s) Md5
      (response_hash (\<lambda>_ s. s) Md5 (ha1 (\<lambda>_ s. s) Md5 [0x61] [0x72] [0x78]) [1] [2] [3] [4] (ha2 (\<lambda>_ s. s) Md5 (ascii ''GET'') [0x2F]))
      [0x61] [0x72] [0x79] (ascii ''GET'') [0x2F] [1] [2] [3] [4]"
  by (subst digest_binds_request) (simp_all add: ascii_def)

text \<open>The fields are not separated from each other otherwise: a colon may move from the user to the
  realm, and the digits of the port to the password.\<close>

theorem digest_fields_shift:
  "ha1 H algo (u @ ascii '':'' @ v) realm password = ha1 H algo u (v @ ascii '':'' @ realm) password"
  "csrf_token H 233 (ascii ''4'' @ pw) = csrf_token H 2334 pw"
proof -
  have d: "decimal 233 = ''233''" "decimal 2334 = ''2334''" by (simp_all add: decimal.simps)
  show "ha1 H algo (u @ ascii '':'' @ v) realm password = ha1 H algo u (v @ ascii '':'' @ realm) password"
    by (simp add: ha1_def hash_hex_def)
  show "csrf_token H 233 (ascii ''4'' @ pw) = csrf_token H 2334 pw"
    by (simp add: csrf_token_def d ascii_def)
qed

text \<open>A page is the embedded one followed by the footer; the status is one of three.\<close>

theorem pages_of_the_router:
  "(p, v, h) \<in> set routes \<Longrightarrow> v = POST \<longleftrightarrow> h \<in> {CmdPost, NotifyPost, TestnetFastforward}"
  "status (respond www mime metrics h path) \<in> {200, 202, 404, 500}"
proof -
  show "(p, v, h) \<in> set routes \<Longrightarrow> v = POST \<longleftrightarrow> h \<in> {CmdPost, NotifyPost, TestnetFastforward}"
    by (auto simp: routes_def)
  have page: "status (html_response www n) \<in> {200, 404, 500}" for n
    by (cases "www (ascii n @ ascii ''.html'')") (auto simp: html_response_def render_page_def Let_def)
  show "status (respond www mime metrics h path) \<in> {200, 202, 404, 500}"
    using page by (cases h) (auto simp: respond_def serve_asset_def Let_def split: option.split)
qed

end
