(* ===== verification/Probe.thy ===== *)
theory Probe
  imports Client Assembler
begin

text \<open>
  The handshake probe (\<open>crates/datum-protocol/src/bin/handshake_probe.rs\<close>): its command line, and the
  handshake that it runs against a pool, on the same network as the client of \<open>Client\<close>.
\<close>

section \<open>The command line\<close>

record Opts =
  op_endpoint :: "bytes option"
  op_version :: "bytes option"
  op_pool_pubkey_hex :: "bytes option"
  op_timeout_secs :: "u64 option"
  op_save_capture :: "bytes option"
  op_verbose :: bool
  op_help :: bool

definition default_opts :: Opts where
  "default_opts = \<lparr>op_endpoint = None, op_version = None, op_pool_pubkey_hex = None, op_timeout_secs = None,
     op_save_capture = None, op_verbose = False, op_help = False\<rparr>"

text \<open>\<open>parse::<u64>\<close>: an optional plus sign, then decimal digits, within the range.\<close>

fun digits_value :: "nat \<Rightarrow> bytes \<Rightarrow> nat option" where
  "digits_value n [] = Some n"
| "digits_value n (b # bs) = (if 0x30 \<le> b \<and> b \<le> 0x39 then digits_value (10 * n + (unat b - 0x30)) bs else None)"

definition parse_u64 :: "bytes \<Rightarrow> u64 option" where
  "parse_u64 s =
     (let ds = (if take 1 s = [0x2B] then drop 1 s else s)
      in if ds = [] then None
         else Option.bind (digits_value 0 ds) (\<lambda>n. if n < 2 ^ 64 then Some (of_nat n) else None))"

datatype opts_error = RequiresValue bytes | BadTimeout | UnknownArgument bytes

fun parse_opts :: "Opts \<Rightarrow> bytes list \<Rightarrow> opts_error + Opts" where
  "parse_opts opts [] = Ok opts"
| "parse_opts opts (arg # rest) =
     (if arg \<in> set (map ascii [''-h'', ''--help'']) then parse_opts (opts\<lparr>op_help := True\<rparr>) rest
      else if arg \<in> set (map ascii [''-v'', ''--verbose'']) then parse_opts (opts\<lparr>op_verbose := True\<rparr>) rest
      else if arg \<in> set (map ascii [''--endpoint'', ''--version'', ''--pool-pubkey'', ''--timeout-secs'', ''--save-capture''])
      then (case rest of
              [] \<Rightarrow> Err (RequiresValue arg)
            | v # rest' \<Rightarrow>
                if arg = ascii ''--endpoint'' then parse_opts (opts\<lparr>op_endpoint := Some v\<rparr>) rest'
                else if arg = ascii ''--version'' then parse_opts (opts\<lparr>op_version := Some v\<rparr>) rest'
                else if arg = ascii ''--pool-pubkey'' then parse_opts (opts\<lparr>op_pool_pubkey_hex := Some v\<rparr>) rest'
                else if arg = ascii ''--timeout-secs''
                then (case parse_u64 v of None \<Rightarrow> Err BadTimeout
                      | Some n \<Rightarrow> parse_opts (opts\<lparr>op_timeout_secs := Some n\<rparr>) rest')
                else parse_opts (opts\<lparr>op_save_capture := Some v\<rparr>) rest')
      else Err (UnknownArgument arg))"

section \<open>The probe\<close>

datatype ProbeError = BadPoolPubkeyHex | ProbeConnect bytes | ProbeSendTimeout nat | ProbeRecvTimeout nat | ProbeIo
  | ProbeCrypto CryptoError | ProbeFrame frame_error | HandshakeBuild HandshakeError | UnexpectedProtoCmd ProtoCmd bool bool
  | ProbeOversized u32 | ProbeUndersized nat | ProbeEchoMismatch string

record PoolKeys =
  pk_ed25519_pub :: bytes
  pk_x25519_pub :: bytes

definition decode_pool_pubkey :: "libs \<Rightarrow> string \<Rightarrow> ProbeError + PoolKeys" where
  "decode_pool_pubkey X hex_str =
     (case hex_decode X hex_str of
        None \<Rightarrow> Err BadPoolPubkeyHex
      | Some bs \<Rightarrow> if length bs \<noteq> 64 then Err BadPoolPubkeyHex
          else Ok \<lparr>pk_ed25519_pub = take 32 bs, pk_x25519_pub = drop 32 bs\<rparr>)"

record ProbeReport =
  pr_motd :: bytes
  pr_session_ed25519 :: bytes
  pr_session_x25519 :: bytes
  pr_cmd :: ProtoCmd
  pr_cmd_len :: u32

definition CLIENT_ID :: bytes where "CLIENT_ID = ascii ''/datum-rs handshake_probe''"
definition DEFAULT_VERSION :: bytes where "DEFAULT_VERSION = ascii ''v0.4.1-beta''"
definition DEFAULT_TIMEOUT_SECS :: nat where "DEFAULT_TIMEOUT_SECS = 30"

definition probe_write :: "nat \<Rightarrow> io_outcome \<Rightarrow> ProbeError + unit" where
  "probe_write t out = (case out of Done \<Rightarrow> Ok () | TimedOut \<Rightarrow> Err (ProbeSendTimeout t) | IoFailed \<Rightarrow> Err ProbeIo)"

definition probe_read :: "net_env \<Rightarrow> nat \<Rightarrow> 'a option \<Rightarrow> ProbeError + 'a" where
  "probe_read env t r = (case r of Some x \<Rightarrow> Ok x | None \<Rightarrow> if stalls env then Err (ProbeRecvTimeout t) else Err ProbeIo)"

text \<open>The four echoed keys, the first mismatch first.\<close>

definition echo_mismatch :: "ClientKeypairs \<Rightarrow> bytes \<Rightarrow> string option" where
  "echo_mismatch keys resp =
     (if subslice 0 32 resp \<noteq> long_term_ed25519_pub keys then Some ''long_term_ed25519_pub''
      else if subslice 32 64 resp \<noteq> long_term_x25519_pub keys then Some ''long_term_x25519_pub''
      else if subslice 64 96 resp \<noteq> session_ed25519_pub keys then Some ''session_ed25519_pub''
      else if subslice 96 128 resp \<noteq> session_x25519_pub keys then Some ''session_x25519_pub''
      else None)"

definition probe_report :: "ClientKeypairs \<Rightarrow> frame_header \<Rightarrow> bytes \<Rightarrow> ProbeError + ProbeReport" where
  "probe_report keys h resp =
     (if length resp < 32 * 6 + 1 then Err (ProbeUndersized (length resp))
      else case echo_mismatch keys resp of
          Some field \<Rightarrow> Err (ProbeEchoMismatch field)
        | None \<Rightarrow>
            let motd_bytes = drop 192 resp;
                motd_end = (case position (\<lambda>b. b = 0) motd_bytes of Some i \<Rightarrow> i | None \<Rightarrow> length motd_bytes)
            in Ok \<lparr>pr_motd = from_utf8_lossy (take motd_end motd_bytes), pr_session_ed25519 = subslice 128 160 resp,
                 pr_session_x25519 = subslice 160 192 resp, pr_cmd = from_bits (proto_cmd h), pr_cmd_len = cmd_len h\<rparr>)"

text \<open>The hello, sealed and framed, with the keys and the header seed it was made with.\<close>

definition probe_hello ::
  "'r DatumCrypto \<Rightarrow> bytes \<Rightarrow> bytes \<Rightarrow> 'r \<Rightarrow> ProbeError + ClientKeypairs \<times> u32 \<times> bytes" where
  "probe_hello C pool_pub ver r =
     (let (keys, r) = generate_keypairs C r;
          (nkb, r) = random_bytes C r 4;
          nk = le_word nkb;
          (pb, r) = random_bytes C r 1;
          padding_len = 1 + unat (pb ! 0) mod 200;
          (padding, r) = random_bytes C r padding_len
      in and_then (map_err HandshakeBuild (build_hello_payload C keys ver CLIENT_ID nk padding)) (\<lambda>plaintext.
         and_then (map_err HandshakeBuild (fst (seal_hello C r plaintext pool_pub))) (\<lambda>sealed.
         and_then (map_err HandshakeBuild (frame_for_hello sealed)) (\<lambda>framed. Ok (keys, nk, framed)))))"

text \<open>\<open>saved\<close> is whether the capture file could be written, where one is asked for.\<close>

definition probe ::
  "libs \<Rightarrow> 'r DatumCrypto \<Rightarrow> net_env \<Rightarrow> bool \<Rightarrow> bytes \<Rightarrow> string \<Rightarrow> bytes \<Rightarrow> nat \<Rightarrow> bool \<Rightarrow> 'r \<Rightarrow> ProbeError + ProbeReport" where
  "probe X C env saved endpoint pool_pubkey_hex ver t save_capture r =
     and_then (decode_pool_pubkey X pool_pubkey_hex) (\<lambda>pool_keys.
     and_then (probe_hello C (pk_x25519_pub pool_keys) ver r) (\<lambda>(keys, nk, framed).
     if tcp_connect env \<noteq> Done then Err (ProbeConnect endpoint)
     else and_then (probe_write t (tx env)) (\<lambda>_.
     and_then (probe_read env t (read_exact 4 (peer env framed))) (\<lambda>(header_buf, rest).
     and_then (map_err ProbeFrame (fst (parse_received_header (for_receiver nk) header_buf))) (\<lambda>h.
     if 1048576 < cmd_len h then Err (ProbeOversized (cmd_len h))
     else if unat (cmd_len h) < CRYPTO_BOX_SEAL_BYTES then Err (ProbeUndersized (unat (cmd_len h)))
     else and_then (probe_read env t (read_exact (unat (cmd_len h)) rest)) (\<lambda>(sealed_resp, rest2).
     if save_capture \<and> \<not> saved then Err ProbeIo
     else if from_bits (proto_cmd h) \<noteq> Pong
     then Err (UnexpectedProtoCmd (from_bits (proto_cmd h)) (is_signed h) (is_encrypted_pubkey h))
     else and_then (map_err ProbeCrypto (box_seal_open C sealed_resp (session_x25519_pub keys) (session_x25519_sec keys)))
       (probe_report keys h)))))))"

section \<open>The program\<close>

definition DEFAULT_ENDPOINT :: bytes where "DEFAULT_ENDPOINT = ascii ''datum-beta1.mine.ocean.xyz:28915''"

definition DEFAULT_POOL_PUBKEY_HEX :: string where
  "DEFAULT_POOL_PUBKEY_HEX = ''f21f2f0ef0aa1970468f22bad9bb7f4535146f8e4a8f646bebc93da3d89b1406''
     @ ''f40d032f09a417d94dc068055df654937922d2c89522e3e8f6f0e649de473003''"

definition probe_with :: "libs \<Rightarrow> 'r DatumCrypto \<Rightarrow> net_env \<Rightarrow> bool \<Rightarrow> Opts \<Rightarrow> 'r \<Rightarrow> ProbeError + ProbeReport" where
  "probe_with X C env saved opts r =
     (let or_default = (\<lambda>v d. case v of Some x \<Rightarrow> x | None \<Rightarrow> d)
      in probe X C env saved (or_default (op_endpoint opts) DEFAULT_ENDPOINT)
           (case op_pool_pubkey_hex opts of Some h \<Rightarrow> map (\<lambda>b. char_of (unat b)) h | None \<Rightarrow> DEFAULT_POOL_PUBKEY_HEX)
           (or_default (op_version opts) DEFAULT_VERSION)
           (case op_timeout_secs opts of Some t \<Rightarrow> unat t | None \<Rightarrow> DEFAULT_TIMEOUT_SECS)
           (op_save_capture opts \<noteq> None) r)"

datatype probe_end = UsageError opts_error | HelpPrinted | ReportPrinted ProbeReport | FailurePrinted ProbeError

text \<open>The program, over what the network does, with its exit code.\<close>

definition probe_main ::
  "libs \<Rightarrow> 'r DatumCrypto \<Rightarrow> net_env \<Rightarrow> bool \<Rightarrow> bytes list \<Rightarrow> 'r \<Rightarrow> nat \<times> probe_end" where
  "probe_main X C env saved args r =
     (case parse_opts default_opts args of
        Inl e \<Rightarrow> (1, UsageError e)
      | Inr opts \<Rightarrow>
          if op_help opts then (0, HelpPrinted)
          else (case probe_with X C env saved opts r of
                  Inr report \<Rightarrow> (0, ReportPrinted report)
                | Inl e \<Rightarrow> (1, FailurePrinted e)))"

section \<open>What a successful probe shows\<close>

lemma and_then_InrE:
  assumes "and_then r f = Inr y"
  obtains x where "r = Inr x" "f x = Inr y"
  using assms by (cases r) auto

lemma probe_hello_exchange:
  assumes "probe_hello C pool_pub ver r = Inr (keys, nk, framed)" "tcp_connect env = Done" "tx env = Done"
  shows "hello_exchange C env pool_pub ver CLIENT_ID t r = Inr (keys, nk, peer env framed)"
  using assms unfolding probe_hello_def hello_exchange_def write_result_def
  by (auto simp: map_err_Inr Let_def split: prod.splits elim!: and_then_InrE)

lemma echo_mismatch_None: "echo_mismatch keys resp = None \<longleftrightarrow> echo_matches keys resp"
  by (simp add: echo_mismatch_def echo_matches_def)

text \<open>A pool that passes the probe passes the client: if the probe succeeds then, with the same
  randomness and the same answers from the network, the client connects to the same pool under the
  probe's name, with the session keys and the message of the day that the probe reports.  The converse needs the probe's smaller limit on the response.\<close>

theorem probe_implies_connect:
  assumes "probe X (DryocCrypto D) env saved endpoint hex ver t capture r = Inr rep"
    and "decode_pool_pubkey X hex = Inr pk"
  shows "\<exists>c rest. connect (DryocCrypto D) env (pk_x25519_pub pk) ver CLIENT_ID t r = Inr (c, rest)
    \<and> pool_session_ed25519 c = pr_session_ed25519 rep \<and> pool_session_x25519 c = pr_session_x25519 rep
    \<and> pr_motd rep = motd c"
proof -
  let ?C = "DryocCrypto D"
  obtain keys nk framed header_buf rest h sealed_resp rest2 resp where
    p: "probe_hello ?C (pk_x25519_pub pk) ver r = Inr (keys, nk, framed)" "tcp_connect env = Done" "tx env = Done"
      "read_exact 4 (peer env framed) = Some (header_buf, rest)"
      "fst (parse_received_header (for_receiver nk) header_buf) = Inr h"
      "\<not> 1048576 < cmd_len h" "\<not> unat (cmd_len h) < CRYPTO_BOX_SEAL_BYTES"
      "read_exact (unat (cmd_len h)) rest = Some (sealed_resp, rest2)" "from_bits (proto_cmd h) = Pong"
      "box_seal_open ?C sealed_resp (session_x25519_pub keys) (session_x25519_sec keys) = Inr resp"
      "probe_report keys h resp = Inr rep"
    using assms
    by (auto simp: probe_def probe_write_def probe_read_def map_err_Inr simp del: DryocCrypto_simps
        split: if_splits option.splits io_outcome.splits elim!: and_then_InrE)
  obtain ro where pr: "parse_received_header (for_receiver nk) header_buf = (Inr h, ro)"
    using p(5) by (metis prod.collapse)
  have small: "\<not> 4 * 1024 * 1024 < cmd_len h" using p(6) by (auto simp: word_less_nat_alt)
  have rep: "\<not> length resp < 192" "echo_matches keys resp"
    using p(11) by (auto simp: probe_report_def echo_mismatch_None [symmetric] split: if_splits option.splits)
  obtain sn rn where nn: "derive_session_nonces nk (session_ed25519_pub keys) = (sn, rn)" by (metis surj_pair)
  let ?c = "\<lparr>sender_obf = for_sender nk, receiver_obf = ro,
      precomp_key = crypto_box_beforenm D (subslice 160 192 resp) (session_x25519_sec keys),
      sender_nonce = sn, receiver_nonce = rn, timeout_dur = t,
      pool_session_ed25519 = subslice 128 160 resp, pool_session_x25519 = subslice 160 192 resp,
      motd = from_utf8_lossy (take (case position (\<lambda>b. b = 0) (drop 192 resp) of Some i \<Rightarrow> i | None \<Rightarrow> length (drop 192 resp)) (drop 192 resp))\<rparr>"
  have est: "establish ?C keys nk t ro resp = Inr ?c"
    using rep by (simp add: establish_def nn Let_def)
  have "connect ?C env (pk_x25519_pub pk) ver CLIENT_ID t r = Inr (?c, rest2)"
    using p small by (simp add: connect_def probe_hello_exchange [OF p(1-3)] read_result_def pr est del: DryocCrypto_simps)
  moreover have "pr_session_ed25519 rep = subslice 128 160 resp" "pr_session_x25519 rep = subslice 160 192 resp"
    "pr_motd rep = motd ?c"
    using p(11) by (auto simp: probe_report_def Let_def split: if_splits option.splits)
  ultimately show ?thesis by auto
qed

end
