(* ===== verification/Logger.thy ===== *)
theory Logger
  imports Utf8 Template
begin

text \<open>
  The log line of \<open>crates/datum-logger/src/lib.rs\<close>: the level and the target in their columns.  Text is
  its UTF-8 bytes; the clock's text and the fields of the event are arguments, and so is the parser of
  filters of the tracing crate.
\<close>

unbundle bit_operations_syntax

datatype Level = LevelError | LevelWarn | LevelInfo | LevelDebug | LevelTrace

definition LEVEL_PREFIX_WIDTH :: nat where "LEVEL_PREFIX_WIDTH = 5"
definition FUNCTION_NAME_PAD :: nat where "FUNCTION_NAME_PAD = 44"

fun format_level :: "Level \<Rightarrow> bytes" where
  "format_level LevelError = ascii ''ERROR''"
| "format_level LevelWarn = ascii '' WARN''"
| "format_level LevelInfo = ascii '' INFO''"
| "format_level LevelDebug = ascii ''DEBUG''"
| "format_level LevelTrace = ascii ''  ALL''"

text \<open>A byte that begins a character.\<close>

definition starts_char :: "byte \<Rightarrow> bool" where "starts_char b \<longleftrightarrow> b AND 0xC0 \<noteq> 0x80"

definition char_boundary :: "bytes \<Rightarrow> nat \<Rightarrow> bool" where
  "char_boundary s i \<longleftrightarrow> i = 0 \<or> i = length s \<or> i < length s \<and> starts_char (s ! i)"

text \<open>The length is counted in bytes, the padding in characters; slicing inside a character panics
  (None).\<close>

definition format_function_name :: "bytes \<Rightarrow> bytes option" where
  "format_function_name name =
     (if FUNCTION_NAME_PAD \<le> length name
      then (if char_boundary name FUNCTION_NAME_PAD then Some (take FUNCTION_NAME_PAD name) else None)
      else Some (replicate (FUNCTION_NAME_PAD - length (filter starts_char name)) 0x20 @ name))"

definition format_event :: "bytes \<Rightarrow> bytes \<Rightarrow> Level \<Rightarrow> bytes \<Rightarrow> bytes option" where
  "format_event now target level flds =
     map_option (\<lambda>name. now @ ascii '' ['' @ name @ ascii ''] '' @ format_level level @ ascii '': '' @ flds @ [0x0A])
       (format_function_name target)"

text \<open>The global subscriber is set once; an unreadable filter is replaced by \<open>info\<close>.\<close>

definition install_global :: "(bytes \<Rightarrow> 'f option) \<Rightarrow> 'f \<Rightarrow> bytes \<Rightarrow> 'f option \<Rightarrow> (unit + unit) \<times> 'f option" where
  "install_global try_new info env_filter installed =
     (let f = (case try_new env_filter of Some f \<Rightarrow> f | None \<Rightarrow> info)
      in case installed of None \<Rightarrow> (Ok (), Some f) | Some g \<Rightarrow> (Err (), Some g))"

section \<open>Fixed columns\<close>

lemma level_width: "length (format_level l) = LEVEL_PREFIX_WIDTH"
  by (cases l) (simp_all add: LEVEL_PREFIX_WIDTH_def ascii_def)

text \<open>Operators cut log lines at fixed columns: for a target in ASCII a line is always written, its target
  takes exactly the 44 bytes after the time, right-aligned or cut to its first 44, and the level
  and the message start at columns that depend on neither the target nor the level.\<close>

theorem log_columns:
  assumes "list_all (\<lambda>b. b < 0x80) target"
  shows "\<exists>line. format_event now target level flds = Some line
    \<and> take 44 (drop (length now + 2) line) = take 44 (replicate (44 - length target) 0x20 @ target)
    \<and> take 5 (drop (length now + 48) line) = format_level level \<and> drop (length now + 55) line = flds @ [0x0A]"
proof -
  have s: "starts_char b" if "b \<in> set target" for b
  proof -
    have "unat b < 128" using assms that by (simp add: list_all_iff word_less_nat_alt)
    then have "\<not> bit (unat b) 7" by (simp add: bit_iff_odd)
    then have "\<not> bit b 7" by (simp add: bit_unsigned_iff)
    then have "\<not> bit (b AND 0xC0) 7" by (simp add: bit_and_iff)
    moreover have "bit (0x80 :: byte) 7" by simp
    ultimately show ?thesis unfolding starts_char_def by metis
  qed
  then have f: "filter starts_char target = target" by (simp add: filter_id_conv)
  let ?name = "take 44 (replicate (44 - length target) 0x20 @ target)"
  have "char_boundary target 44" if "44 \<le> length target"
    using that s [OF nth_mem, of 44] by (auto simp: char_boundary_def le_less)
  then have n: "format_function_name target = Some ?name" "length ?name = 44"
    by (auto simp: format_function_name_def FUNCTION_NAME_PAD_def f)
  then show ?thesis
    using level_width [of level] by (simp add: format_event_def ascii_def LEVEL_PREFIX_WIDTH_def)
qed

text \<open>A longer target with a character across its 44th byte panics.\<close>

theorem log_target_panics:
  "format_event now (replicate 43 0x61 @ [0xC3, 0xA9]) level flds = None"
  by (simp add: format_event_def format_function_name_def FUNCTION_NAME_PAD_def char_boundary_def starts_char_def nth_append)

end
