(* ===== verification/Spec2Isabelle.thy ===== *)
theory Spec2Isabelle
  imports Interleave Sv1Socket Sv2Connection Dupes Watch Startup Teardown Registry Api Probe Logger
begin

text \<open>
  A verification library for datum-rs, a mining gateway between Stratum miners, a Bitcoin node and a
  DATUM pool.

  \<^bold>\<open>The program.\<close>  One process (\<open>crates/datum-bin/src/main.rs\<close>) runs a set of tasks.  The template
  puller (\<open>datum-blocktemplates\<close>) polls the node for block templates.  The template driver joins a
  template with the pool's coinbaser blob (\<open>datum-coinbaser\<close>) to a job state (\<open>template_state.rs\<close>).  The
  notify assembler (\<open>datum-stratum-sv1\<close>) turns a job state into a Stratum V1 notify and enters the job into
  the tracker (\<open>datum-share-relay\<close>); the Stratum V2 listener (\<open>datum-stratum-sv2\<close>) reads job states directly.
  Each miner connection is a task; the shares that it accepts go to the relay, which rebuilds the header,
  encodes a DATUM submission (\<open>share_encoder.rs\<close>), hands a found block to the block submitter
  (\<open>datum-submitblock\<close>, \<open>datum-rpc\<close>) and queues the submission for the pool.  The upstream task holds the
  encrypted session with the pool (\<open>datum-protocol\<close>): it fetches the coinbaser once per session and drains
  the queue.  The tasks meet in watch channels, which hold the latest value only, in bounded queues and in
  the tracker behind its mutex.

  \<^bold>\<open>Theories and code.\<close>  Names are those of the source; a mapped definition reads like the function that
  it translates, with its guards in their order and its early returns as branches.

    \<^item> \<open>Prelude\<close>: machine integers as words, byte codecs, \<open>Result\<close> as a sum (\<open>Inl\<close> the error), and the
      interfaces \<open>fixed_codec\<close>, \<open>keyed_stream\<close> and \<open>bounded_fifo\<close>.  \<open>Utf8\<close>, \<open>Floats\<close>: the text and the
      floating point values of Rust.  \<open>Libs\<close>: hex and SHA-256 as a record of functions with laws.
    \<^item> \<open>Frame\<close> (\<open>opcodes.rs\<close>, \<open>frame.rs\<close>, \<open>obfuscation.rs\<close>), \<open>Messages\<close> (\<open>messages.rs\<close>), \<open>Handshake\<close>
      (\<open>crypto.rs\<close>, \<open>handshake.rs\<close>, \<open>mock_pool.rs\<close>), \<open>Client\<close> (\<open>client.rs\<close>), \<open>Probe\<close>
      (\<open>bin/handshake_probe.rs\<close>): the DATUM protocol.  State: the two header chains, the two nonces and
      the precomputed key, threaded through \<open>send_frame\<close>, \<open>recv_frame\<close> and their loops.
    \<^item> \<open>Coinbaser\<close>, \<open>Template\<close>: the blob codec, the coinbase halves, script blocks, merkle branches, compact
      targets, the job state, and the puller loop.  \<open>Watch\<close>: the publishers and channels through which the
      tasks pass templates, blobs and job states on.
    \<^item> \<open>Assembler\<close> (\<open>assembler.rs\<close>), \<open>Sv1Server\<close> (\<open>server.rs\<close>, \<open>lib.rs\<close>): the notify; one V1 connection as a
      record \<open>Conn\<close> and \<open>step\<close>, one branch per arm of its select loop; the accept loop \<open>server_run\<close>.
      \<open>Sv1Socket\<close>: the same task over a socket whose reads and writes can fail.
    \<^item> \<open>JobTracker\<close>, \<open>ShareEncoder\<close>, \<open>Dupes\<close>: the tracker (map and insertion order), the submission body
      and the block, the share cache.
    \<^item> \<open>Sv2Auth\<close> (\<open>auth.rs\<close>), \<open>Sv2Stream\<close> (\<open>noise_stream.rs\<close>), \<open>Sv2Channels\<close> (\<open>channel_manager.rs\<close>),
      \<open>Sv2Share\<close> (\<open>share_path.rs\<close>), \<open>Sv2Listener\<close> (\<open>listener.rs\<close>, \<open>setup_connection.rs\<close>), \<open>Registry\<close>
      (\<open>lib.rs\<close>), \<open>Sv2Runs\<close> (runs over messages), \<open>Sv2Connection\<close> (the task over its socket, which
      refines those runs, and the accept loop): the V2 server.
    \<^item> \<open>Config\<close> (\<open>datum-config\<close>), \<open>Rpc\<close> (\<open>datum-rpc\<close>, \<open>datum-submitblock\<close>), \<open>Api\<close> (\<open>datum-api\<close>), \<open>Logger\<close>.
    \<^item> \<open>Relay\<close>, \<open>Upstream\<close>, \<open>Gateway\<close>, \<open>Backlog\<close>, \<open>Startup\<close> (\<open>main.rs\<close>): one function per turn of each task, the
      command line, what each task is configured with, what a configuration starts and how the process
      ends, the counters.  \<open>Teardown\<close>: the tasks of one pool session (receive task, command loop, bridge,
      event loop) on their two bounded channels, as a step relation.
    \<^item> \<open>EndToEnd\<close>: a share from job state to the pool's header.  \<open>Interleave\<close>: the tasks of the V1 side as a
      step relation in which any task takes the next turn, with the queues between the relay and the pool
      (the 1024 encoded submissions that outlive a session, the 64 commands of a session, the stream) and
      the failures, ends and beginnings of sessions as turns of their own.

  \<^bold>\<open>Interfaces.\<close>  \<open>fixed_codec\<close> (an encoder and a decoder of one width invert each other) is interpreted
  by the share prefix; \<open>keyed_stream\<close> (two ends of a chain of keys stay in step exactly when they start
  together) by the header obfuscation; \<open>bounded_fifo\<close> (a store with eviction holds the last \<open>n\<close> insertions
  in order) by the job tracker, by the V2 job ring and by the ring of emitted notifies.

  \<^bold>\<open>What the lemmas show.\<close>
    \<^item> Codecs (\<open>Frame\<close>, \<open>Messages\<close>, \<open>Coinbaser\<close>, \<open>Sv2Auth\<close>): round trips in both directions and the error of
      each length check.
    \<^item> Sessions (\<open>Handshake\<close>, \<open>Client\<close>, \<open>Probe\<close>): the handshake with the in-tree pool succeeds; two ends in
      lockstep deliver what was sent; the frames of a run of commands are sealed under consecutive,
      distinct nonces.
    \<^item> Coinbase and header (\<open>Template\<close>, \<open>ShareEncoder\<close>, \<open>Relay\<close>, \<open>EndToEnd\<close>): the halves form one transaction
      that pays the coinbaser; the header commits to the template; the pool rebuilds it; and under which
      conditions it is the one that the miner hashed.
    \<^item> State (\<open>JobTracker\<close>, \<open>Dupes\<close>, \<open>Registry\<close>): refinement of abstract queues and of a sliding window.
    \<^item> Connections (\<open>Sv1Server\<close>, \<open>Sv2Runs\<close>): invariants over all runs, one reply per request, the verdict on
      every share, disjoint search spaces, bounds of difficulties and targets.
    \<^item> Tasks (\<open>Upstream\<close>, \<open>Teardown\<close>, \<open>Gateway\<close>, \<open>Backlog\<close>, \<open>Startup\<close>, \<open>Interleave\<close>): what a session requests and
      when it is over, that every published state fits its fields, that in every interleaving the pool can
      check every share that was encoded in its own session (and that a share which waited in the queue
      across a new session can lack its blocks), what stops while no pool is connected, and how the process ends.
    \<^item> Several theorems state where the code departs from its intention: they give the exact condition under
      which a header, a script or a budget is right, and a witness on each side.

  \<^bold>\<open>Parameters and their laws.\<close>  Code outside the repository is an argument of the definitions.
    \<^item> \<open>libs\<close> (hex, sha2) with \<open>hex_laws\<close> (decoding inverts encoding) and \<open>sha_laws\<close> (32 bytes);
      \<open>dryoc_laws\<close> (secret boxes and sealed boxes open, signatures verify, keys have their lengths);
      \<open>lru_laws\<close> (the lru crate evicts the least recently used); \<open>sri_laws\<close> (the extranonce allocator gives
      prefixes that are not in use, a target is 32 bytes); \<open>keylib_laws\<close> (base58check and x-only keys);
      \<open>watch_laws\<close> (a send is seen as one change, with the latest value);
      \<open>decoder_progress\<close> (the SRI decoder does not stay for ever without wanting bytes or giving a frame).
      Each has an instance, on which the witnesses run.  No law says that a hash has no collisions; where
      that is needed it is a hypothesis on the strings at hand.
    \<^item> Reads and writes of sockets, HTTP calls and files are lists or functions of outcomes; time-outs are
      outcomes; the clock and the random bytes are arguments.  JSON text is a parsed value.

  \<^bold>\<open>Termination and bounds.\<close>  All recursions are structural or have a measure, except \<open>read_frame\<close>
  and \<open>watch_changed\<close>, \<open>partial_function\<close>s whose results are shown to exist under the laws of their
  libraries.  Loops that serve for ever
  are functions of the list of their inputs, so a theorem on all lists speaks of every finite prefix of a
  run.  Counters keep their width: \<open>Interleave\<close> bounds the published job states by \<open>2^32\<close> (the job id wraps
  there) and the clients by \<open>2^32\<close> (extranonce1 wraps there).  Sums of \<open>u32\<close> wrap as in a release build.

  \<^bold>\<open>Not modelled.\<close>
    \<^item> The timers, spawning and cancellation of tokio, and its channels themselves: the models of the tasks
      have the slot of a watch channel or the queue of an mpsc channel with its capacity.  That the slot is
      what a task sees, in order and up to the latest value, is shown in \<open>Watch\<close>.
    \<^item> Deserialisation of JSON (serde), HTTP (reqwest, axum), the Noise cryptography and the frame encoding of
      V2 messages (SRI), the lru, hex, sha2, base58 and curve crates: parameters.
    \<^item> Signal handlers, which only log; help texts; \<open>Debug\<close> output; log messages (the columns of a log line are
      modelled).
    \<^item> \<open>Interleave\<close> has the V1 side only: V2 connections enter jobs into the same tracker, and \<open>Sv2Runs\<close> treats
      them one connection at a time with arbitrary changes of the shared state between their steps.
\<close>

end
